(* ===== verification/Prelude.thy ===== *)
theory Prelude
  imports Complex_Main "HOL-Library.AList" "HOL-Library.List_Lexorder" "HOL-Library.Char_ord"
    "HOL-Library.Sublist"
begin

text \<open>
  Shared vocabulary of the development.

  \<^item> \<open>py_error\<close> and \<open>res\<close>: a Python call either raises (\<open>Inl\<close>) or returns (\<open>Inr\<close>);
    \<open>rbind\<close> sequences two calls, and \<open>rfold\<close> is a \<open>for\<close> loop whose body may raise.
  \<^item> \<open>pydict\<close>: an insertion-ordered dictionary, an association list without repeated
    keys. \<open>dget\<close>, \<open>dset\<close>, \<open>ddel\<close>, \<open>dsetdefault\<close> are \<open>d.get(k)\<close>, \<open>d[k] = v\<close>, \<open>d.pop(k, None)\<close>
    and \<open>d.setdefault(k, v)\<close>; the locale \<open>dictionary\<close> states the laws every client uses.
  \<^item> \<open>startswith\<close>, \<open>endswith\<close>, \<open>str_lower\<close>, \<open>split_on\<close>, \<open>join_with\<close>: the string
    methods the sources call.
  \<^item> the locale \<open>guarded_store\<close>: a keyed store in which a healthy resource, once stored,
    is never displaced (the contract of the IR's \<open>save_*\<close> methods).
  \<^item> the locale \<open>machine\<close>: a state machine, its reachable states, and invariants.
\<close>

named_theorems dict_simps \<open>rewriting of dictionary reads over dictionary writes\<close>
named_theorems res_simps \<open>inversion of results of fallible calls\<close>

section \<open>Errors as values\<close>

datatype py_error =
    KeyError string
  | IndexError
  | AttributeError string
  | TypeError string
  | ValueError string
  | AssertionError string
  | RuntimeError string
  | PlainException string

type_synonym 'a res = "py_error + 'a"

fun rbind :: "'a res \<Rightarrow> ('a \<Rightarrow> 'b res) \<Rightarrow> 'b res" where
  "rbind (Inl e) f = Inl e"
| "rbind (Inr x) f = f x"

fun rfold :: "('x \<Rightarrow> 's \<Rightarrow> 's res) \<Rightarrow> 'x list \<Rightarrow> 's \<Rightarrow> 's res" where
  "rfold f [] s = Inr s"
| "rfold f (x # xs) s = rbind (f x s) (rfold f xs)"

lemma rbind_eq_Inr [res_simps]: "rbind m f = Inr y \<longleftrightarrow> (\<exists>x. m = Inr x \<and> f x = Inr y)"
  by (cases m) auto

lemma rbind_eq_Inl [res_simps]:
  "rbind m f = Inl e \<longleftrightarrow> m = Inl e \<or> (\<exists>x. m = Inr x \<and> f x = Inl e)"
  by (cases m) auto

lemma rfold_append: "rfold f (xs @ ys) s = rbind (rfold f xs s) (rfold f ys)"
proof (induction xs arbitrary: s)
  case (Cons x xs)
  then show ?case by (cases "f x s") auto
qed simp

lemma rfold_invariant:
  assumes "rfold f xs s = Inr t" and "P s"
    and "\<And>x u v. x \<in> set xs \<Longrightarrow> P u \<Longrightarrow> f x u = Inr v \<Longrightarrow> P v"
  shows "P t"
  using assms
proof (induction xs arbitrary: s)
  case (Cons x xs)
  then obtain u where u: "f x s = Inr u" "rfold f xs u = Inr t"
    by (auto simp: res_simps)
  moreover have "P u"
    using Cons.prems(2,3) u(1) by auto
  ultimately show ?case
    using Cons.IH [of u] Cons.prems(3) by auto
qed simp

lemma rbind_split:
  "P (rbind m f) \<longleftrightarrow> (\<forall>e. m = Inl e \<longrightarrow> P (Inl e)) \<and> (\<forall>x. m = Inr x \<longrightarrow> P (f x))"
  by (cases m) auto

lemma find_SomeD: "find P xs = Some v \<Longrightarrow> v \<in> set xs \<and> P v"
  by (induction xs) (auto split: if_splits)

section \<open>Insertion-ordered dictionaries\<close>

type_synonym 'v pydict = "(string \<times> 'v) list"

definition dwf :: "('k \<times> 'v) list \<Rightarrow> bool" where
  "dwf d = distinct (map fst d)"

abbreviation dget :: "('k \<times> 'v) list \<Rightarrow> 'k \<Rightarrow> 'v option" where
  "dget \<equiv> map_of"

definition dhas :: "('k \<times> 'v) list \<Rightarrow> 'k \<Rightarrow> bool" where
  "dhas d k = (dget d k \<noteq> None)"

definition dset :: "'k \<Rightarrow> 'v \<Rightarrow> ('k \<times> 'v) list \<Rightarrow> ('k \<times> 'v) list" where
  "dset k v d = AList.update k v d"

definition ddel :: "'k \<Rightarrow> ('k \<times> 'v) list \<Rightarrow> ('k \<times> 'v) list" where
  "ddel k d = AList.delete k d"

definition dsetdefault :: "'k \<Rightarrow> 'v \<Rightarrow> ('k \<times> 'v) list \<Rightarrow> ('k \<times> 'v) list" where
  "dsetdefault k v d = (if dhas d k then d else dset k v d)"

definition dget_or :: "('k \<times> 'v) list \<Rightarrow> 'k \<Rightarrow> 'v \<Rightarrow> 'v" where
  "dget_or d k v = (case dget d k of Some x \<Rightarrow> x | None \<Rightarrow> v)"

fun dupdate :: "('k \<times> 'v) list \<Rightarrow> ('k \<times> 'v) list \<Rightarrow> ('k \<times> 'v) list" where
  "dupdate d [] = d"
| "dupdate d ((k, v) # kvs) = dupdate (dset k v d) kvs"

lemma dget_dset [simp, dict_simps]: "dget (dset k v d) k' = (if k = k' then Some v else dget d k')"
  by (simp add: dset_def update_conv')

lemma dget_ddel [simp, dict_simps]: "dget (ddel k d) k' = (if k = k' then None else dget d k')"
  by (simp add: ddel_def delete_conv')

lemma dhas_dset [simp, dict_simps]: "dhas (dset k v d) k' \<longleftrightarrow> k = k' \<or> dhas d k'"
  by (simp add: dhas_def)

lemma dhas_ddel [simp, dict_simps]: "dhas (ddel k d) k' \<longleftrightarrow> k \<noteq> k' \<and> dhas d k'"
  by (simp add: dhas_def)

lemma dhas_iff: "dhas d k \<longleftrightarrow> k \<in> fst ` set d"
  by (simp add: dhas_def map_of_eq_None_iff)

lemma not_dhas: "\<not> dhas d k \<longleftrightarrow> dget d k = None"
  by (simp add: dhas_def)

lemma dhasE: "dhas d k \<Longrightarrow> (\<And>v. dget d k = Some v \<Longrightarrow> P) \<Longrightarrow> P"
  by (cases "dget d k") (auto simp: dhas_def)

lemma dhasI: "dget d k = Some v \<Longrightarrow> dhas d k"
  by (simp add: dhas_def)

lemma dhas_Nil [simp]: "\<not> dhas [] k"
  by (simp add: dhas_def)

lemma dhas_Cons [simp]: "dhas ((k', v) # d) k \<longleftrightarrow> k' = k \<or> dhas d k"
  by (auto simp: dhas_def)

lemma dwf_Nil [simp]: "dwf []"
  by (simp add: dwf_def)

lemma dwf_dset [simp]: "dwf d \<Longrightarrow> dwf (dset k v d)"
  by (simp add: dwf_def dset_def distinct_update)

lemma dwf_ddel [simp]: "dwf d \<Longrightarrow> dwf (ddel k d)"
  by (simp add: dwf_def ddel_def distinct_delete)

lemma dwf_dsetdefault [simp]: "dwf d \<Longrightarrow> dwf (dsetdefault k v d)"
  by (simp add: dsetdefault_def)

lemma dget_dsetdefault [simp, dict_simps]:
  "dget (dsetdefault k v d) k' = (if k = k' \<and> \<not> dhas d k then Some v else dget d k')"
  by (auto simp: dsetdefault_def)

lemma dset_absent: "\<not> dhas d k \<Longrightarrow> dset k v d = d @ [(k, v)]"
  by (induction d) (auto simp: dset_def)

lemma dset_literal:
  "dset k v [] = [(k, v)]"
  "dset k v ((k', v') # d) = (if k = k' then (k, v) # d else (k', v') # dset k v d)"
  by (auto simp: dset_def)

lemma dset_nonempty [simp]: "dset k v d \<noteq> []"
  by (cases d) (auto simp: dset_def)

lemma keys_dset: "fst ` set (dset k v d) = insert k (fst ` set d)"
  by (simp add: dset_def dom_update)

lemma keys_ddel: "fst ` set (ddel k d) = fst ` set d - {k}"
  by (auto simp: ddel_def AList.delete_eq)

lemma length_dset: "length (dset k v d) = (if dhas d k then length d else Suc (length d))"
  by (induction d) (auto simp: dset_def)

lemma dget_append: "dget (d @ e) k = (case dget d k of Some v \<Rightarrow> Some v | None \<Rightarrow> dget e k)"
  by (auto simp: map_add_def split: option.split)

lemma dwf_get_iff: "dwf d \<Longrightarrow> dget d k = Some v \<longleftrightarrow> (k, v) \<in> set d"
  by (simp add: dwf_def)

lemma dwf_dupdate: "dwf d \<Longrightarrow> dwf (dupdate d kvs)"
  by (induction d kvs rule: dupdate.induct) auto

lemma dget_dupdate:
  "dwf kvs \<Longrightarrow>
     dget (dupdate d kvs) k = (case dget kvs k of Some v \<Rightarrow> Some v | None \<Rightarrow> dget d k)"
proof (induction d kvs rule: dupdate.induct)
  case (2 d k' v kvs)
  then have "dget kvs k' = None" and "dwf kvs"
    by (auto simp: dwf_def map_of_eq_None_iff)
  with "2.IH" show ?case by (auto split: option.split)
qed simp

text \<open>
  What a client of a dictionary relies on: reads after writes, and that writes keep the
  representation well formed.
\<close>

locale dictionary =
  fixes lookup :: "'m \<Rightarrow> 'k \<Rightarrow> 'v option"
    and put :: "'k \<Rightarrow> 'v \<Rightarrow> 'm \<Rightarrow> 'm"
    and rem :: "'k \<Rightarrow> 'm \<Rightarrow> 'm"
    and wf :: "'m \<Rightarrow> bool"
  assumes lookup_put: "lookup (put k v m) = (lookup m)(k \<mapsto> v)"
    and lookup_rem: "lookup (rem k m) = (lookup m)(k := None)"
    and wf_put: "wf m \<Longrightarrow> wf (put k v m)"
    and wf_rem: "wf m \<Longrightarrow> wf (rem k m)"
begin

lemma lookup_put_all:
  "lookup (fold (\<lambda>(k, v). put k v) kvs m) = lookup m ++ map_of (rev kvs)"
  by (induction kvs arbitrary: m) (auto simp: lookup_put map_add_upd_left map_add_assoc [symmetric])

lemma lookup_rem_all:
  "lookup (fold rem ks m) = (\<lambda>k. if k \<in> set ks then None else lookup m k)"
  by (induction ks arbitrary: m) (auto simp: lookup_rem fun_eq_iff)

lemma wf_put_all: "wf m \<Longrightarrow> wf (fold (\<lambda>(k, v). put k v) kvs m)"
  by (induction kvs arbitrary: m) (auto simp: wf_put)

lemma wf_rem_all: "wf m \<Longrightarrow> wf (fold rem ks m)"
  by (induction ks arbitrary: m) (auto simp: wf_rem)

end

interpretation pd: dictionary dget dset ddel dwf
  by unfold_locales (auto simp: fun_eq_iff)

section \<open>Strings\<close>

definition startswith :: "string \<Rightarrow> string \<Rightarrow> bool" where
  "startswith s p = prefix p s"

definition endswith :: "string \<Rightarrow> string \<Rightarrow> bool" where
  "endswith s p = suffix p s"

definition char_lower :: "char \<Rightarrow> char" where
  "char_lower c = (if CHR ''A'' \<le> c \<and> c \<le> CHR ''Z''
     then char_of (of_char c + (32::nat)) else c)"

definition str_lower :: "string \<Rightarrow> string" where
  "str_lower s = map char_lower s"

definition str_upper :: "string \<Rightarrow> string" where
  "str_upper s = map (\<lambda>c. if CHR ''a'' \<le> c \<and> c \<le> CHR ''z''
     then char_of (of_char c - (32::nat)) else c) s"

fun split_on :: "char \<Rightarrow> string \<Rightarrow> string list" where
  "split_on c [] = [[]]"
| "split_on c (x # xs) =
     (if x = c then [] # split_on c xs
      else (case split_on c xs of [] \<Rightarrow> [[x]] | p # ps \<Rightarrow> (x # p) # ps))"

fun join_with :: "string \<Rightarrow> string list \<Rightarrow> string" where
  "join_with sep [] = []"
| "join_with sep [p] = p"
| "join_with sep (p # ps) = p @ sep @ join_with sep ps"

lemma split_on_nonempty [simp]: "split_on c s \<noteq> []"
  by (induction s) (auto split: list.splits)

lemma split_on_pieces: "p \<in> set (split_on c s) \<Longrightarrow> c \<notin> set p"
proof (induction s arbitrary: p)
  case (Cons x xs)
  then show ?case by (cases "split_on c xs") (auto split: if_splits)
qed auto

lemma join_split [simp]: "join_with [c] (split_on c s) = s"
proof (induction s)
  case (Cons x xs)
  then show ?case
    by (cases "split_on c xs"; cases "tl (split_on c xs)") (auto split: list.splits)
qed simp

lemma split_on_no_sep: "c \<notin> set s \<Longrightarrow> split_on c s = [s]"
  by (induction s) auto

lemma split_on_append_sep: "c \<notin> set p \<Longrightarrow> split_on c (p @ c # s) = p # split_on c s"
  by (induction p) auto

lemma hd_split_on: "hd (split_on c s) = takeWhile (\<lambda>x. x \<noteq> c) s"
proof (induction s)
  case (Cons x xs)
  then show ?case by (cases "split_on c xs") auto
qed simp

section \<open>A store that protects healthy entries\<close>

text \<open>
  The IR keeps hosts, listeners and TLS contexts in dictionaries. Saving a resource looks
  up the extant entry under the resource's key, keeps it if it is truthy, and otherwise
  writes the new one.
\<close>

locale guarded_store =
  fixes key :: "'r \<Rightarrow> string"
    and healthy :: "'r \<Rightarrow> bool"
    and store :: "'s \<Rightarrow> 'r pydict"
    and save :: "'r \<Rightarrow> 's \<Rightarrow> 's"
  assumes save_keeps:
      "dget (store s) (key r) = Some e \<Longrightarrow> healthy e \<Longrightarrow> store (save r s) = store s"
    and save_replaces:
      "dget (store s) (key r) = Some e \<Longrightarrow> \<not> healthy e \<Longrightarrow>
         store (save r s) = dset (key r) r (store s)"
    and save_adds:
      "dget (store s) (key r) = None \<Longrightarrow> store (save r s) = dset (key r) r (store s)"
begin

lemma lookup_save:
  "dget (store (save r s)) k =
     (if k = key r \<and> \<not> (\<exists>e. dget (store s) k = Some e \<and> healthy e) then Some r
      else dget (store s) k)"
proof (cases "dget (store s) (key r)")
  case None
  then show ?thesis by (auto simp: save_adds)
next
  case (Some e)
  then show ?thesis
    by (cases "healthy e") (auto simp: save_keeps save_replaces)
qed

lemma healthy_stays:
  "dget (store s) k = Some e \<Longrightarrow> healthy e \<Longrightarrow> dget (store (fold save rs s)) k = Some e"
  by (induction rs arbitrary: s) (auto simp: lookup_save)

lemma first_healthy_wins:
  assumes "\<And>r. r \<in> set rs \<Longrightarrow> healthy r" and "dget (store s) k = None"
  shows "dget (store (fold save rs s)) k = find (\<lambda>r. key r = k) rs"
  using assms
proof (induction rs arbitrary: s)
  case (Cons r rs)
  show ?case
  proof (cases "key r = k")
    case True
    with Cons.prems have "dget (store (save r s)) k = Some r" and "healthy r"
      by (auto simp: lookup_save)
    then have "dget (store (fold save rs (save r s))) k = Some r"
      by (rule healthy_stays)
    with True show ?thesis by simp
  next
    case False
    with Cons show ?thesis by (simp add: lookup_save)
  qed
qed simp

lemma keys_save: "fst ` set (store (save r s)) = insert (key r) (fst ` set (store s))"
proof (cases "dget (store s) (key r)")
  case None
  then show ?thesis by (simp add: save_adds keys_dset)
next
  case (Some e)
  then have "key r \<in> fst ` set (store s)"
    by (metis map_of_eq_None_iff option.distinct(1))
  with Some show ?thesis
    by (cases "healthy e") (auto simp: save_keeps save_replaces keys_dset)
qed

lemma wf_save: "dwf (store s) \<Longrightarrow> dwf (store (save r s))"
  by (cases "dget (store s) (key r)"; cases "healthy (the (dget (store s) (key r)))")
    (auto simp: save_adds save_keeps save_replaces)

end

section \<open>State machines\<close>

locale machine =
  fixes start :: "'s \<Rightarrow> bool"
    and step :: "'s \<Rightarrow> 's \<Rightarrow> bool"
    and inv :: "'s \<Rightarrow> bool"
  assumes start_inv: "start s \<Longrightarrow> inv s"
    and step_inv: "inv s \<Longrightarrow> step s t \<Longrightarrow> inv t"
begin

lemma reach_inv:
  assumes "start s" and "step\<^sup>*\<^sup>* s t"
  shows "inv t"
  using assms(2)
proof (induction rule: rtranclp_induct)
  case base
  show ?case using assms(1) by (rule start_inv)
next
  case (step t u)
  then show ?case by (blast intro: step_inv)
qed

end

end
