(* ===== verification/Cache.thy ===== *)
theory Cache
  imports Prelude
begin

text \<open>
  Model of \<open>cache.py\<close>: the object cache that incremental reconfiguration relies on.

  The state \<open>cache_st\<close> has the fields of class \<open>Cache\<close>; a cached entry is a resource with
  its optional deletion handler, and a link set is a duplicate-free list of owned keys
  (the code only ever iterates over it sorted). A resource's \<open>cache_key\<close> property is
  dispatched on its class, so \<open>cache_add\<close> and \<open>cache_link\<close> take it as the argument
  \<open>key_of\<close>; \<open>cacheable_cache_key\<close> is the base class's property. Deletion handlers act
  outside the cache: \<open>invalidate\<close> returns the calls it makes, in order.

  The main lemmas: the worklist loop of \<open>invalidate\<close> terminates and collects exactly the
  cached keys that are reachable over ownership links, cycles and dangling links included;
  and the links of a cache never start at an uncached owner. The locale \<open>object_cache\<close> is
  the contract the IR relies on; \<open>Cache\<close> and \<open>NullCache\<close> both provide it.
\<close>

section \<open>State\<close>

record 'd cacheable =
  ckey :: "string option"
  payload :: 'd

type_synonym ('r, 'h) cache_entry = "'r \<times> 'h option"

record ('r, 'h) cache_st =
  cache :: "('r, 'h) cache_entry pydict"
  links :: "string list pydict"
  hits :: nat
  misses :: nat
  invalidate_calls :: nat
  invalidated_objects :: nat

definition cacheable_cache_key :: "'d cacheable \<Rightarrow> string res" where
  "cacheable_cache_key r =
     (case ckey r of
        None \<Rightarrow> Inl (RuntimeError ''cache key is not set'')
      | Some k \<Rightarrow> if k = [] then Inl (RuntimeError ''cache key is not set'') else Inr k)"

definition reset_stats :: "('r, 'h) cache_st \<Rightarrow> ('r, 'h) cache_st" where
  "reset_stats c = c\<lparr>hits := 0, misses := 0, invalidate_calls := 0, invalidated_objects := 0\<rparr>"

definition cache_init :: "('r, 'h) cache_st" where
  "cache_init = \<lparr>cache = [], links = [], hits = 0, misses = 0,
     invalidate_calls = 0, invalidated_objects = 0\<rparr>"

section \<open>Operations\<close>

definition cache_add ::
  "('r \<Rightarrow> string res) \<Rightarrow> 'r \<Rightarrow> 'h option \<Rightarrow> ('r, 'h) cache_st \<Rightarrow> ('r, 'h) cache_st res" where
  "cache_add key_of rsrc on_delete c =
     rbind (key_of rsrc) (\<lambda>key.
       if key = [] then Inr c
       else if dhas (cache c) key then Inr c
       else Inr (c\<lparr>cache := dset key (rsrc, on_delete) (cache c)\<rparr>))"

definition cache_link ::
  "('r \<Rightarrow> string res) \<Rightarrow> 'r \<Rightarrow> 'r \<Rightarrow> ('r, 'h) cache_st \<Rightarrow> ('r, 'h) cache_st res" where
  "cache_link key_of owner owned c =
     rbind (key_of owner) (\<lambda>owner_key.
     rbind (key_of owned) (\<lambda>owned_key.
       if owner_key = [] then Inr c
       else if owned_key = [] then Inr c
       else if \<not> dhas (cache c) owner_key then Inr c
       else if \<not> dhas (cache c) owned_key then Inr c
       else
         (let lks = dsetdefault owner_key [] (links c)
          in Inr (c\<lparr>links :=
               dset owner_key (List.insert owned_key (the (dget lks owner_key))) lks\<rparr>))))"

text \<open>
  The worklist loop of \<open>invalidate\<close>: \<open>td\<close> is \<open>to_delete\<close>. Every step either drops the
  head of the worklist or records one more cached key.
\<close>

function collect ::
  "('r, 'h) cache_entry pydict \<Rightarrow> string list pydict \<Rightarrow> string list
     \<Rightarrow> ('r, 'h) cache_entry pydict \<Rightarrow> ('r, 'h) cache_entry pydict" where
  "collect ch lk [] td = td"
| "collect ch lk (key # worklist) td =
     (case dget ch key of
        None \<Rightarrow> collect ch lk worklist td
      | Some e \<Rightarrow>
          if dhas td key then collect ch lk worklist td
          else collect ch lk
                 (worklist @ (case dget lk key of None \<Rightarrow> [] | Some owned \<Rightarrow> sort owned))
                 (dset key e td))"
  by pat_completeness auto
termination
proof (relation "measures [\<lambda>(ch, lk, wl, td). card (fst ` set ch - fst ` set td),
                           \<lambda>(ch, lk, wl, td). length wl]", goal_cases)
  case (4 ch lk key worklist td e)
  then have "key \<in> fst ` set ch - fst ` set td"
    by (metis Diff_iff dhas_iff map_of_eq_None_iff option.distinct(1))
  then have "card (fst ` set ch - insert key (fst ` set td)) < card (fst ` set ch - fst ` set td)"
    by (intro psubset_card_mono) auto
  then show ?case by (simp add: keys_dset)
qed auto

definition smite ::
  "string \<times> ('r, 'h) cache_entry \<Rightarrow> ('r, 'h) cache_st \<times> ('h \<times> 'r) list
     \<Rightarrow> ('r, 'h) cache_st \<times> ('h \<times> 'r) list" where
  "smite kr s =
     (let (key, rsrc, on_delete) = kr; (c, calls) = s;
          c1 = c\<lparr>invalidated_objects := invalidated_objects c + 1\<rparr>;
          c2 = c1\<lparr>cache := ddel key (cache c1)\<rparr>;
          c3 = (if dhas (links c2) key then c2\<lparr>links := ddel key (links c2)\<rparr> else c2)
      in (c3, case on_delete of None \<Rightarrow> calls | Some h \<Rightarrow> calls @ [(h, rsrc)]))"

definition invalidate ::
  "string \<Rightarrow> ('r, 'h) cache_st \<Rightarrow> ('r, 'h) cache_st \<times> ('h \<times> 'r) list" where
  "invalidate key c =
     (let c1 = c\<lparr>invalidate_calls := invalidate_calls c + 1\<rparr>;
          to_delete = collect (cache c1) (links c1) [key] []
      in fold smite to_delete (c1, []))"

definition cache_getitem :: "('r, 'h) cache_st \<Rightarrow> string \<Rightarrow> 'r option \<times> ('r, 'h) cache_st" where
  "cache_getitem c key =
     (case dget (cache c) key of
        Some item \<Rightarrow> (Some (fst item), c\<lparr>hits := hits c + 1\<rparr>)
      | None \<Rightarrow> (None, c\<lparr>misses := misses c + 1\<rparr>))"

text \<open>
  \<open>NullCache\<close> inherits \<open>reset_stats\<close> and keeps the counters; it has no entries. Its
  state is the same record, and its operations leave \<open>cache\<close> and \<open>links\<close> alone.
\<close>

definition null_add :: "'r \<Rightarrow> 'h option \<Rightarrow> ('r, 'h) cache_st \<Rightarrow> ('r, 'h) cache_st res" where
  "null_add rsrc on_delete c = Inr c"

definition null_link :: "'r \<Rightarrow> 'r \<Rightarrow> ('r, 'h) cache_st \<Rightarrow> ('r, 'h) cache_st res" where
  "null_link owner owned c = Inr c"

definition null_invalidate :: "string \<Rightarrow> ('r, 'h) cache_st \<Rightarrow> ('r, 'h) cache_st \<times> ('h \<times> 'r) list" where
  "null_invalidate key c = (c\<lparr>invalidate_calls := invalidate_calls c + 1\<rparr>, [])"

definition null_getitem :: "('r, 'h) cache_st \<Rightarrow> string \<Rightarrow> 'r option \<times> ('r, 'h) cache_st" where
  "null_getitem c key = (None, c\<lparr>misses := misses c + 1\<rparr>)"

section \<open>Ownership, reachability, well-formedness\<close>

definition owns :: "('r, 'h) cache_st \<Rightarrow> string \<Rightarrow> string \<Rightarrow> bool" where
  "owns c k k' \<longleftrightarrow> dhas (cache c) k \<and> (\<exists>os. dget (links c) k = Some os \<and> k' \<in> set os)"

definition smitten :: "('r, 'h) cache_st \<Rightarrow> string \<Rightarrow> string set" where
  "smitten c key = {k. (owns c)\<^sup>*\<^sup>* key k \<and> dhas (cache c) k}"

definition cache_wf :: "('r, 'h) cache_st \<Rightarrow> bool" where
  "cache_wf c \<longleftrightarrow> dwf (cache c) \<and> dwf (links c) \<and>
     (\<forall>k. dhas (links c) k \<longrightarrow> dhas (cache c) k)"

section \<open>The worklist loop\<close>

declare collect.simps [simp del]

lemmas collect_Nil [simp] = collect.simps(1)
lemmas collect_Cons = collect.simps(2)

lemma collect_sound:
  assumes "\<And>k e. dget td k = Some e \<Longrightarrow> dget (cache c) k = Some e"
    and "\<And>k. dhas td k \<Longrightarrow> (owns c)\<^sup>*\<^sup>* src k"
    and "\<And>w. w \<in> set wl \<Longrightarrow> (owns c)\<^sup>*\<^sup>* src w"
    and "dwf td"
  shows "dwf (collect (cache c) (links c) wl td) \<and>
    (\<forall>k e. dget (collect (cache c) (links c) wl td) k = Some e \<longrightarrow>
       dget (cache c) k = Some e \<and> (owns c)\<^sup>*\<^sup>* src k)"
  using assms
proof (induction "cache c" "links c" wl td rule: collect.induct)
  case (1 td)
  then show ?case by (auto simp: dhas_def)
next
  case (2 key worklist td)
  show ?case
  proof (cases "dget (cache c) key")
    case None
    from "2.hyps"(1) [OF None "2.prems"(1,2)] "2.prems"(3,4) show ?thesis
      by (simp only: collect_Cons None option.case) simp
  next
    case (Some e)
    show ?thesis
    proof (cases "dhas td key")
      case True
      from "2.hyps"(2) [OF Some True "2.prems"(1,2)] "2.prems"(3,4) show ?thesis
        by (simp only: collect_Cons Some True option.case if_True) simp
    next
      case False
      let ?os = "case dget (links c) key of None \<Rightarrow> [] | Some owned \<Rightarrow> sort owned"
      have key: "(owns c)\<^sup>*\<^sup>* src key"
        using "2.prems"(3) by simp
      have os: "owns c key w" if "w \<in> set ?os" for w
        using that Some by (cases "dget (links c) key") (simp_all add: owns_def dhas_def)
      have a: "dget (cache c) k = Some e'" if "dget (dset key e td) k = Some e'" for k e'
        using that Some "2.prems"(1) by (simp split: if_splits)
      have b: "(owns c)\<^sup>*\<^sup>* src k" if "dhas (dset key e td) k" for k
        using that key "2.prems"(2) by auto
      have c: "(owns c)\<^sup>*\<^sup>* src w" if "w \<in> set (worklist @ ?os)" for w
        using that "2.prems"(3) rtranclp.rtrancl_into_rtrancl [OF key os] by auto
      have d: "dwf (dset key e td)"
        using "2.prems"(4) by simp
      have eq: "collect (cache c) (links c) (key # worklist) td =
          collect (cache c) (links c) (worklist @ ?os) (dset key e td)"
        by (simp only: collect_Cons Some False option.case if_False)
      show ?thesis
        unfolding eq by (rule "2.hyps"(3) [OF Some False]) (fact a, fact b, fact c, fact d)
    qed
  qed
qed

lemma collect_complete:
  assumes "\<And>k k'. dhas td k \<Longrightarrow> owns c k k' \<Longrightarrow> dhas (cache c) k' \<Longrightarrow> dhas td k' \<or> k' \<in> set wl"
  shows "(\<forall>k. dhas td k \<or> k \<in> set wl \<and> dhas (cache c) k \<longrightarrow>
            dhas (collect (cache c) (links c) wl td) k) \<and>
    (\<forall>k k'. dhas (collect (cache c) (links c) wl td) k \<longrightarrow> owns c k k' \<longrightarrow> dhas (cache c) k' \<longrightarrow>
            dhas (collect (cache c) (links c) wl td) k')"
  using assms
proof (induction "cache c" "links c" wl td rule: collect.induct)
  case (1 td)
  then show ?case by auto
next
  case (2 key worklist td)
  show ?case
  proof (cases "dget (cache c) key")
    case None
    then have "\<not> dhas (cache c) key" by (simp add: dhas_def)
    with None "2.hyps"(1) [OF None] "2.prems" show ?thesis
      by (simp add: collect_Cons) blast
  next
    case (Some e)
    show ?thesis
    proof (cases "dhas td key")
      case True
      with Some "2.hyps"(2) [OF Some True] "2.prems" show ?thesis
        by (simp add: collect_Cons) blast
    next
      case False
      let ?os = "case dget (links c) key of None \<Rightarrow> [] | Some owned \<Rightarrow> sort owned"
      have os: "k' \<in> set ?os" if "owns c key k'" for k'
        using that by (auto simp: owns_def)
      have "dhas (dset key e td) k' \<or> k' \<in> set (worklist @ ?os)"
        if "dhas (dset key e td) k" and "owns c k k'" and "dhas (cache c) k'" for k k'
        using that "2.prems" [of k k'] os [of k'] by auto
      with Some False "2.hyps"(3) [OF Some False] show ?thesis
        by (simp add: collect_Cons) blast
    qed
  qed
qed

lemma collect_exact:
  "dhas (collect (cache c) (links c) [key] []) k \<longleftrightarrow> k \<in> smitten c key"
proof
  assume k: "dhas (collect (cache c) (links c) [key] []) k"
  then obtain e where "dget (collect (cache c) (links c) [key] []) k = Some e"
    by (auto simp: dhas_def)
  moreover have "\<forall>k e. dget (collect (cache c) (links c) [key] []) k = Some e \<longrightarrow>
      dget (cache c) k = Some e \<and> (owns c)\<^sup>*\<^sup>* key k"
    by (rule conjunct2 [OF collect_sound]) simp_all
  ultimately have "(owns c)\<^sup>*\<^sup>* key k \<and> dhas (cache c) k"
    unfolding dhas_def by blast
  then show "k \<in> smitten c key" by (simp add: smitten_def)
next
  assume k: "k \<in> smitten c key"
  then have "(owns c)\<^sup>*\<^sup>* key k" and cached: "dhas (cache c) k"
    by (simp_all add: smitten_def)
  let ?td = "collect (cache c) (links c) [key] []"
  have start: "dhas (cache c) key \<Longrightarrow> dhas ?td key"
    and closed: "\<And>a b. dhas ?td a \<Longrightarrow> owns c a b \<Longrightarrow> dhas (cache c) b \<Longrightarrow> dhas ?td b"
    using collect_complete [of "[]" c "[key]"] by auto
  from \<open>(owns c)\<^sup>*\<^sup>* key k\<close> cached show "dhas ?td k"
  proof (induction rule: rtranclp_induct)
    case base
    then show ?case by (rule start)
  next
    case (step a b)
    then have "dhas (cache c) a" by (simp add: owns_def)
    with step show ?case by (blast intro: closed)
  qed
qed

lemma collect_entries:
  fixes c :: "('r, 'h) cache_st"
  shows "dget (collect (cache c) (links c) [key] []) k = Some e \<Longrightarrow> dget (cache c) k = Some e"
  "dwf (collect (cache c) (links c) [key] [])"
proof -
  have "dwf (collect (cache c) (links c) [key] []) \<and>
    (\<forall>k e. dget (collect (cache c) (links c) [key] []) k = Some e \<longrightarrow>
       dget (cache c) k = Some e \<and> (owns c)\<^sup>*\<^sup>* key k)"
    by (rule collect_sound) simp_all
  then show "dget (collect (cache c) (links c) [key] []) k = Some e \<Longrightarrow> dget (cache c) k = Some e"
    and "dwf (collect (cache c) (links c) [key] [])"
    by blast+
qed

section \<open>The deletion loop\<close>

lemma smite_step:
  "smite (k, r, h) (c, calls) =
     (c\<lparr>cache := ddel k (cache c), links := ddel k (links c),
        invalidated_objects := invalidated_objects c + 1\<rparr>,
      calls @ (case h of None \<Rightarrow> [] | Some f \<Rightarrow> [(f, r)]))"
proof -
  have "ddel k (links c) = links c" if "\<not> dhas (links c) k"
    using that by (simp add: dhas_iff ddel_def)
  then show ?thesis by (auto simp: smite_def Let_def split: option.split)
qed

lemma smite_fold:
  "fold smite td (c, calls) =
     (c\<lparr>cache := fold ddel (map fst td) (cache c),
        links := fold ddel (map fst td) (links c),
        invalidated_objects := invalidated_objects c + length td\<rparr>,
      calls @ List.map_filter (\<lambda>(k, r, h). map_option (\<lambda>f. (f, r)) h) td)"
proof (induction td arbitrary: c calls)
  case Nil
  then show ?case by (simp add: List.map_filter_def)
next
  case (Cons x td)
  obtain k r h where x: "x = (k, r, h)" by (cases x) auto
  show ?case
    by (cases h) (simp_all add: x smite_step Cons List.map_filter_def)
qed

lemma invalidate_state:
  "fst (invalidate key c) =
     c\<lparr>cache := fold ddel (map fst (collect (cache c) (links c) [key] [])) (cache c),
       links := fold ddel (map fst (collect (cache c) (links c) [key] [])) (links c),
       invalidate_calls := invalidate_calls c + 1,
       invalidated_objects :=
         invalidated_objects c + length (collect (cache c) (links c) [key] [])\<rparr>"
  by (simp add: invalidate_def Let_def smite_fold)

lemma dget_invalidate [simp]:
  "dget (cache (fst (invalidate key c))) k =
     (if k \<in> smitten c key then None else dget (cache c) k)"
  "dget (links (fst (invalidate key c))) k =
     (if k \<in> smitten c key then None else dget (links c) k)"
  using collect_exact [of c key k]
  by (simp_all add: invalidate_state pd.lookup_rem_all dhas_iff)

lemma dhas_invalidate [simp]:
  "dhas (cache (fst (invalidate key c))) k \<longleftrightarrow> dhas (cache c) k \<and> k \<notin> smitten c key"
  "dhas (links (fst (invalidate key c))) k \<longleftrightarrow> dhas (links c) k \<and> k \<notin> smitten c key"
  by (auto simp: dhas_def)

text \<open>A sequence of invalidations removes exactly what the links of the first cache reach.\<close>

lemma owns_invalidate: "owns (fst (invalidate key c)) a b \<longleftrightarrow> owns c a b \<and> a \<notin> smitten c key"
  by (auto simp: owns_def)

lemma reach_invalidate:
  "(owns (fst (invalidate key c)))\<^sup>*\<^sup>* q k \<or> (owns c)\<^sup>*\<^sup>* key k \<longleftrightarrow> (owns c)\<^sup>*\<^sup>* q k \<or> (owns c)\<^sup>*\<^sup>* key k"
proof -
  have "(owns (fst (invalidate key c)))\<^sup>*\<^sup>* q k \<or> (owns c)\<^sup>*\<^sup>* key k" if "(owns c)\<^sup>*\<^sup>* q k"
    using that
  proof (induction rule: rtranclp_induct)
    case (step a b)
    show ?case
    proof (cases "(owns c)\<^sup>*\<^sup>* key a")
      case True
      with step(2) show ?thesis by (simp add: rtranclp.rtrancl_into_rtrancl)
    next
      case False
      then have "owns (fst (invalidate key c)) a b" using step(2) by (simp add: owns_invalidate smitten_def)
      with False step.IH show ?thesis by (simp add: rtranclp.rtrancl_into_rtrancl)
    qed
  qed simp
  moreover have "(owns c)\<^sup>*\<^sup>* q k" if "(owns (fst (invalidate key c)))\<^sup>*\<^sup>* q k"
    using that by (rule rtranclp_mono [THEN predicate2D, rotated]) (auto simp: owns_invalidate)
  ultimately show ?thesis by blast
qed

lemma invalidate_all_exact:
  "dget (cache (fold (\<lambda>key c. fst (invalidate key c)) keys c)) k =
     (if list_ex (\<lambda>key. (owns c)\<^sup>*\<^sup>* key k) keys then None else dget (cache c) k)"
proof (induction keys arbitrary: c)
  case (Cons key keys)
  let ?c = "fst (invalidate key c)"
  have reach: "list_ex (\<lambda>q. (owns ?c)\<^sup>*\<^sup>* q k) keys = list_ex (\<lambda>q. (owns c)\<^sup>*\<^sup>* q k) keys" if "\<not> (owns c)\<^sup>*\<^sup>* key k"
    using reach_invalidate [of key c _ k] that by simp
  have "dget (cache ?c) k = (if (owns c)\<^sup>*\<^sup>* key k then None else dget (cache c) k)"
    by (cases "dget (cache c) k") (simp_all add: smitten_def dhas_def)
  with Cons.IH [of ?c] reach show ?case by simp
qed simp

lemma finite_smitten [simp]: "finite (smitten c key)"
  by (rule finite_subset [of _ "fst ` set (cache c)"]) (auto simp: smitten_def dhas_iff)

lemma length_collect:
  "length (collect (cache c) (links c) [key] []) = card (smitten c key)"
proof -
  let ?td = "collect (cache c) (links c) [key] []"
  have "smitten c key = fst ` set ?td"
    using collect_exact [of c key] by (auto simp: dhas_iff)
  moreover have "distinct (map fst ?td)"
    using collect_entries(2) [of c key] by (simp add: dwf_def)
  ultimately show ?thesis
    by (metis distinct_card length_map list.set_map)
qed

lemma collect_order:
  fixes c :: "('r, 'h) cache_st"
  shows "\<exists>ks. distinct ks \<and> set ks = smitten c key \<and>
    List.map_filter (\<lambda>(k, r, h). map_option (\<lambda>f. (f, r)) h) (collect (cache c) (links c) [key] []) =
    concat (map (\<lambda>k. case dget (cache c) k of Some (r, Some h) \<Rightarrow> [(h, r)] | _ \<Rightarrow> []) ks)"
proof -
  let ?td = "collect (cache c) (links c) [key] []"
  have "distinct (map fst ?td)"
    using collect_entries(2) [of c key] by (simp add: dwf_def)
  moreover have "set (map fst ?td) = smitten c key"
    using collect_exact [of c key] by (auto simp: dhas_iff)
  moreover have "List.map_filter (\<lambda>(k, r, h). map_option (\<lambda>f. (f, r)) h) td =
      concat (map (\<lambda>k. case dget (cache c) k of Some (r, Some h) \<Rightarrow> [(h, r)] | _ \<Rightarrow> []) (map fst td))"
    if "\<And>k e. (k, e) \<in> set td \<Longrightarrow> dget (cache c) k = Some e" for td
    using that
  proof (induction td)
    case (Cons x td)
    obtain k r h where x: "x = (k, r, h)" by (cases x) auto
    then have k: "dget (cache c) k = Some (r, h)" using Cons.prems by simp
    have ih: "List.map_filter (\<lambda>(k, r, h). map_option (\<lambda>f. (f, r)) h) td =
      concat (map (\<lambda>k. case dget (cache c) k of Some (r, Some h) \<Rightarrow> [(h, r)] | _ \<Rightarrow> []) (map fst td))"
      using Cons by simp
    show ?case
      by (cases h) (simp_all add: x k ih map_filter_simps)
  qed (simp add: List.map_filter_def)
  moreover have "dget (cache c) k = Some e" if "(k, e) \<in> set ?td" for k e
    using that collect_entries [of c key] by (simp add: dwf_get_iff)
  ultimately show ?thesis by blast
qed

section \<open>Well-formedness is kept by every operation\<close>

lemma cache_wf_init: "cache_wf cache_init"
  by (simp add: cache_wf_def cache_init_def)

lemma cache_wf_reset: "cache_wf c \<Longrightarrow> cache_wf (reset_stats c)"
  by (simp add: cache_wf_def reset_stats_def)

lemma cache_wf_add: "cache_wf c \<Longrightarrow> cache_add key_of r h c = Inr c' \<Longrightarrow> cache_wf c'"
  by (auto simp: cache_wf_def cache_add_def res_simps split: if_splits)

lemma cache_wf_link: "cache_wf c \<Longrightarrow> cache_link key_of a b c = Inr c' \<Longrightarrow> cache_wf c'"
  by (auto simp: cache_wf_def cache_link_def res_simps Let_def dsetdefault_def split: if_splits)

lemma cache_wf_invalidate: "cache_wf c \<Longrightarrow> cache_wf (fst (invalidate key c))"
  by (simp add: cache_wf_def) (simp add: invalidate_state pd.wf_rem_all)

lemma cache_wf_getitem: "cache_wf c \<Longrightarrow> cache_wf (snd (cache_getitem c k))"
  by (auto simp: cache_wf_def cache_getitem_def split: option.split)

inductive cache_step ::
  "('r \<Rightarrow> string res) \<Rightarrow> ('r, 'h) cache_st \<Rightarrow> ('r, 'h) cache_st \<Rightarrow> bool" for key_of where
  step_add: "cache_add key_of r h c = Inr c' \<Longrightarrow> cache_step key_of c c'"
| step_link: "cache_link key_of a b c = Inr c' \<Longrightarrow> cache_step key_of c c'"
| step_invalidate: "cache_step key_of c (fst (invalidate k c))"
| step_getitem: "cache_step key_of c (snd (cache_getitem c k))"
| step_reset: "cache_step key_of c (reset_stats c)"

lemma cache_step_wf: "cache_step key_of c c' \<Longrightarrow> cache_wf c \<Longrightarrow> cache_wf c'"
  by (induction rule: cache_step.induct)
    (auto intro: cache_wf_add cache_wf_link cache_wf_invalidate cache_wf_getitem cache_wf_reset)

interpretation cache_machine: machine "\<lambda>c. c = cache_init" "cache_step key_of" cache_wf
  by unfold_locales (auto simp: cache_wf_init intro: cache_step_wf)

section \<open>The contract of an object cache\<close>

text \<open>
  What the IR relies on. \<open>put r\<close> is \<open>add\<close> with a failing call leaving the cache as it
  was; \<open>get s k\<close> is the result of \<open>s[k]\<close>, and \<open>after_get\<close> the state it leaves.
\<close>

locale object_cache =
  fixes key_of :: "'r \<Rightarrow> string res"
    and get :: "'s \<Rightarrow> string \<Rightarrow> 'r option"
    and after_get :: "'s \<Rightarrow> string \<Rightarrow> 's"
    and put :: "'r \<Rightarrow> 's \<Rightarrow> 's"
    and inval :: "string \<Rightarrow> 's \<Rightarrow> 's"
  assumes get_after_get: "get (after_get s k) k' = get s k'"
    and get_put: "get (put r s) k = Some x \<Longrightarrow> get s k = Some x \<or> x = r \<and> key_of r = Inr k"
    and put_keeps: "get s k = Some x \<Longrightarrow> get (put r s) k = Some x"
    and inval_gone: "get (inval k s) k = None"
    and inval_only_removes: "get (inval k s) k' = Some x \<Longrightarrow> get s k' = Some x"
begin

lemma inval_all_only_removes: "get (fold inval ks s) k = Some x \<Longrightarrow> get s k = Some x"
  by (induction ks arbitrary: s) (auto dest: inval_only_removes)

lemma inval_all_gone: "k \<in> set ks \<Longrightarrow> get (fold inval ks s) k = None"
proof (induction ks arbitrary: s)
  case (Cons a ks)
  show ?case
  proof (cases "k \<in> set ks")
    case True
    then show ?thesis using Cons.IH by simp
  next
    case False
    with Cons.prems have "a = k" by simp
    then show ?thesis
      using inval_all_only_removes [of ks "inval k s" k] inval_gone [of k s]
      by (cases "get (fold inval ks (inval k s)) k") auto
  qed
qed simp

lemma get_put_all:
  "get (fold put rs s) k = Some x \<Longrightarrow> get s k = Some x \<or> x \<in> set rs \<and> key_of x = Inr k"
  by (induction rs arbitrary: s) (auto dest: get_put)

end

definition try_add ::
  "('r \<Rightarrow> string res) \<Rightarrow> 'r \<Rightarrow> ('r, 'h) cache_st \<Rightarrow> ('r, 'h) cache_st" where
  "try_add key_of r c = (case cache_add key_of r None c of Inl e \<Rightarrow> c | Inr c' \<Rightarrow> c')"

lemma cache_getitem_simps [simp]:
  "fst (cache_getitem c k) = map_option fst (dget (cache c) k)"
  "cache (snd (cache_getitem c k)) = cache c"
  "links (snd (cache_getitem c k)) = links c"
  by (auto simp: cache_getitem_def split: option.split)

lemma smitten_start: "dhas (cache c) k \<Longrightarrow> k \<in> smitten c k"
  by (simp add: smitten_def)

lemma invalidate_gone: "dget (cache (fst (invalidate k c))) k = None"
  using smitten_start [of c k] by (simp add: not_dhas [symmetric]) blast

interpretation real_cache: object_cache key_of
  "\<lambda>c k. fst (cache_getitem c k)" "\<lambda>c k. snd (cache_getitem c k)"
  "try_add key_of" "\<lambda>k c. fst (invalidate k c)"
proof unfold_locales
  fix c :: "('a, 'b) cache_st" and k k' r x
  show "fst (cache_getitem (snd (cache_getitem c k)) k') = fst (cache_getitem c k')"
    by simp
  show "fst (cache_getitem c k) = Some x \<or> x = r \<and> key_of r = Inr k"
    if "fst (cache_getitem (try_add key_of r c) k) = Some x"
    using that by (cases "key_of r") (auto simp: try_add_def cache_add_def split: if_splits)
  show "fst (cache_getitem (try_add key_of r c) k) = Some x"
    if "fst (cache_getitem c k) = Some x"
    using that by (cases "key_of r") (auto simp: try_add_def cache_add_def dhas_def)
  show "fst (cache_getitem (fst (invalidate k c)) k) = None"
    by (simp only: cache_getitem_simps invalidate_gone) simp
  show "fst (cache_getitem c k') = Some x"
    if "fst (cache_getitem (fst (invalidate k c)) k') = Some x"
    using that by (simp split: if_splits)
qed

interpretation null_cache: object_cache key_of
  "\<lambda>c k. fst (null_getitem c k)" "\<lambda>c k. snd (null_getitem c k)"
  "\<lambda>r c. case null_add r None c of Inl e \<Rightarrow> c | Inr c' \<Rightarrow> c'" "\<lambda>k c. fst (null_invalidate k c)"
  by unfold_locales (simp_all add: null_getitem_def null_add_def null_invalidate_def)

section \<open>Properties\<close>

text \<open>
  C15: invalidating a key removes from the cache and from the links exactly the cached keys
  that the key reaches over ownership links, whatever cycles or dangling links there are.
  Every other entry is untouched, one call is counted, and one deleted object per removed
  key.
\<close>

theorem invalidate_exact:
  "dget (cache (fst (invalidate key c))) k =
     (if (owns c)\<^sup>*\<^sup>* key k then None else dget (cache c) k) \<and>
   dget (links (fst (invalidate key c))) k =
     (if k \<in> smitten c key then None else dget (links c) k) \<and>
   invalidate_calls (fst (invalidate key c)) = invalidate_calls c + 1 \<and>
   invalidated_objects (fst (invalidate key c)) =
     invalidated_objects c + card {k. (owns c)\<^sup>*\<^sup>* key k \<and> dhas (cache c) k}"
proof -
  have "dget (cache c) k = None" if "(owns c)\<^sup>*\<^sup>* key k" "k \<notin> smitten c key"
    using that by (simp add: smitten_def not_dhas)
  moreover have "(owns c)\<^sup>*\<^sup>* key k" if "k \<in> smitten c key"
    using that by (simp add: smitten_def)
  ultimately have "(if k \<in> smitten c key then None else dget (cache c) k) =
      (if (owns c)\<^sup>*\<^sup>* key k then None else dget (cache c) k)"
    by auto
  moreover have "invalidate_calls (fst (invalidate key c)) = invalidate_calls c + 1 \<and>
      invalidated_objects (fst (invalidate key c)) = invalidated_objects c + card (smitten c key)"
    by (simp add: invalidate_state length_collect)
  ultimately show ?thesis
    by (simp add: smitten_def)
qed

text \<open>
  The deletion handlers that \<open>invalidate\<close> calls are those of the removed entries: each
  removed entry that has a handler gets exactly one call, with its own resource, and no
  other handler runs.
\<close>

theorem invalidate_handlers:
  "\<exists>ks. distinct ks \<and> set ks = smitten c key \<and>
     snd (invalidate key c) =
       concat (map (\<lambda>k. case dget (cache c) k of Some (r, Some h) \<Rightarrow> [(h, r)] | _ \<Rightarrow> []) ks)"
  using collect_order [of c key] by (simp add: invalidate_def Let_def smite_fold)

text \<open>
  C18: whatever sequence of additions, links, invalidations and fetches a cache goes
  through, the keys of its dictionaries stay distinct and every owner that has a link set
  is itself cached (only owned ends may dangle).
\<close>

theorem cache_reachable_wf:
  "(cache_step key_of)\<^sup>*\<^sup>* cache_init c \<Longrightarrow> cache_wf c"
  using cache_machine.reach_inv [of cache_init key_of c] by simp

theorem cache_reachable_wf_witness:
  "cache_wf (fst (invalidate ''m''
     (cache_init\<lparr>cache := [(''m'', (\<lparr>ckey = Some ''m'', payload = (7::nat)\<rparr>, None :: nat option))]\<rparr>)))"
proof -
  let ?r = "\<lparr>ckey = Some ''m'', payload = (7::nat)\<rparr>"
  have "cache_step cacheable_cache_key cache_init
      (cache_init\<lparr>cache := [(''m'', (?r, None :: nat option))]\<rparr>)"
    by (rule step_add [of _ ?r None])
      (simp add: cache_add_def cacheable_cache_key_def cache_init_def dset_def)
  moreover have "(cache_step cacheable_cache_key)\<^sup>*\<^sup>* c (fst (invalidate ''m'' c))"
    for c :: "(nat cacheable, nat) cache_st"
    by (rule r_into_rtranclp) (rule step_invalidate)
  ultimately show ?thesis
    by (intro cache_reachable_wf [of cacheable_cache_key]) (rule converse_rtranclp_into_rtranclp)
qed

end
