(* ===== verification/PyVal.thy ===== *)
theory PyVal
  imports Prelude
begin

text \<open>
  The dynamic values of the Python program: what \<open>yaml.safe_load\<close> and \<open>json.loads\<close> give the
  configuration objects. A \<open>dict\<close> keeps its insertion order; numbers with a fraction do not
  occur in the fields the modelled code reads and have no constructor.
  \<open>truthy\<close> is Python's truth value testing, \<open>por\<close> the value of \<open>a or b\<close>, \<open>pget\<close> is
  \<open>d.get(k, None)\<close>, and \<open>str_int\<close> is \<open>str(i)\<close>. The calls that can raise on a value of the
  wrong type (\<open>v.get(k, default)\<close>, \<open>v[k]\<close>, \<open>v.lower()\<close>, iteration) are \<open>pv_get\<close>, \<open>pv_index\<close>,
  \<open>pv_lower\<close>, \<open>pv_iter\<close>, \<open>pv_items\<close>.
\<close>

datatype pyval =
    PNone
  | PBool bool
  | PInt int
  | PStr string
  | PList "pyval list"
  | PDict "(string \<times> pyval) list"

fun truthy :: "pyval \<Rightarrow> bool" where
  "truthy PNone = False"
| "truthy (PBool b) = b"
| "truthy (PInt i) = (i \<noteq> 0)"
| "truthy (PStr s) = (s \<noteq> [])"
| "truthy (PList xs) = (xs \<noteq> [])"
| "truthy (PDict d) = (d \<noteq> [])"

definition por :: "pyval \<Rightarrow> pyval \<Rightarrow> pyval" where
  "por a b = (if truthy a then a else b)"

definition pget :: "pyval pydict \<Rightarrow> string \<Rightarrow> pyval" where
  "pget d k = dget_or d k PNone"

fun is_str :: "pyval \<Rightarrow> bool" where
  "is_str (PStr s) = True"
| "is_str _ = False"

fun is_dict :: "pyval \<Rightarrow> bool" where
  "is_dict (PDict d) = True"
| "is_dict _ = False"

fun is_list :: "pyval \<Rightarrow> bool" where
  "is_list (PList xs) = True"
| "is_list _ = False"

fun pv_get :: "pyval \<Rightarrow> string \<Rightarrow> pyval \<Rightarrow> pyval res" where
  "pv_get (PDict d) k dflt = Inr (dget_or d k dflt)"
| "pv_get _ k dflt = Inl (AttributeError ''get'')"

fun pv_index :: "pyval \<Rightarrow> string \<Rightarrow> pyval res" where
  "pv_index (PDict d) k = (case dget d k of Some v \<Rightarrow> Inr v | None \<Rightarrow> Inl (KeyError k))"
| "pv_index _ k = Inl (TypeError ''not subscriptable by a string'')"

text \<open>The membership test of Python: a key, an element or a part of a string.\<close>

fun has_part :: "string \<Rightarrow> string \<Rightarrow> bool" where
  "has_part p [] = (p = [])"
| "has_part p (c # s) = (startswith (c # s) p \<or> has_part p s)"

fun pv_contains :: "pyval \<Rightarrow> string \<Rightarrow> bool res" where
  "pv_contains (PDict d) k = Inr (dhas d k)"
| "pv_contains (PList xs) k = Inr (PStr k \<in> set xs)"
| "pv_contains (PStr s) k = Inr (has_part k s)"
| "pv_contains _ k = Inl (TypeError ''argument is not iterable'')"

fun pv_lower :: "pyval \<Rightarrow> string res" where
  "pv_lower (PStr s) = Inr (str_lower s)"
| "pv_lower _ = Inl (AttributeError ''lower'')"

fun pv_iter :: "pyval \<Rightarrow> pyval list res" where
  "pv_iter (PList xs) = Inr xs"
| "pv_iter (PDict d) = Inr (map (PStr \<circ> fst) d)"
| "pv_iter (PStr s) = Inr (map (\<lambda>c. PStr [c]) s)"
| "pv_iter _ = Inl (TypeError ''not iterable'')"

fun pv_items :: "pyval \<Rightarrow> (string \<times> pyval) list res" where
  "pv_items (PDict d) = Inr d"
| "pv_items _ = Inl (AttributeError ''items'')"

fun pv_str :: "pyval \<Rightarrow> string res" where
  "pv_str (PStr s) = Inr s"
| "pv_str _ = Inl (TypeError ''str'')"

fun pv_len :: "pyval \<Rightarrow> nat res" where
  "pv_len (PDict d) = Inr (length d)"
| "pv_len (PList xs) = Inr (length xs)"
| "pv_len (PStr s) = Inr (length s)"
| "pv_len _ = Inl (TypeError ''object has no len()'')"

lemma pv_Inr [res_simps]:
  "pv_get v k dflt = Inr x \<longleftrightarrow> (\<exists>d. v = PDict d \<and> x = dget_or d k dflt)"
  "pv_index v k = Inr x \<longleftrightarrow> (\<exists>d. v = PDict d \<and> dget d k = Some x)"
  "pv_lower v = Inr s \<longleftrightarrow> (\<exists>t. v = PStr t \<and> s = str_lower t)"
  "pv_items v = Inr d \<longleftrightarrow> v = PDict d"
  "pv_str v = Inr s \<longleftrightarrow> v = PStr s"
  by (cases v; auto split: option.splits)+

lemma pget_dset [simp, dict_simps]: "pget (dset k v d) k' = (if k = k' then v else pget d k')"
  by (simp add: pget_def dget_or_def)

lemma pget_ddel [simp, dict_simps]: "pget (ddel k d) k' = (if k = k' then PNone else pget d k')"
  by (simp add: pget_def dget_or_def)

lemma pget_Nil [simp]: "pget [] k = PNone"
  by (simp add: pget_def dget_or_def)

lemma truthy_pget_dhas: "truthy (pget d k) \<Longrightarrow> dhas d k"
  by (auto simp: pget_def dget_or_def dhas_def split: option.splits)

lemma truthy_por [simp]: "truthy (por a b) \<longleftrightarrow> truthy a \<or> truthy b"
  by (simp add: por_def)

section \<open>Decimal numerals\<close>

definition digit_char :: "nat \<Rightarrow> char" where
  "digit_char n = char_of (n + 48)"

fun str_nat :: "nat \<Rightarrow> string" where
  "str_nat n = (if n < 10 then [digit_char n] else str_nat (n div 10) @ [digit_char (n mod 10)])"

definition str_int :: "int \<Rightarrow> string" where
  "str_int i = (if i < 0 then CHR ''-'' # str_nat (nat (- i)) else str_nat (nat i))"

declare str_nat.simps [simp del]

definition digit_val :: "char \<Rightarrow> nat" where
  "digit_val c = of_char c - 48"

definition is_digit :: "char \<Rightarrow> bool" where
  "is_digit c = (CHR ''0'' \<le> c \<and> c \<le> CHR ''9'')"

definition nat_of_digits :: "string \<Rightarrow> nat" where
  "nat_of_digits s = foldl (\<lambda>n c. 10 * n + digit_val c) 0 s"

lemma digit_val_char [simp]: "n < 10 \<Longrightarrow> digit_val (digit_char n) = n"
  by (simp add: digit_val_def digit_char_def)

lemma nat_of_str_nat [simp]: "nat_of_digits (str_nat n) = n"
proof (induction n rule: str_nat.induct)
  case (1 n)
  show ?case
  proof (cases "n < 10")
    case True
    then show ?thesis by (simp add: str_nat.simps nat_of_digits_def)
  next
    case False
    then have "nat_of_digits (str_nat n) = 10 * nat_of_digits (str_nat (n div 10)) + n mod 10"
      by (subst str_nat.simps) (simp add: nat_of_digits_def)
    with 1 [OF False] show ?thesis by simp
  qed
qed

lemma str_nat_inject [simp]: "str_nat m = str_nat n \<longleftrightarrow> m = n"
  by (metis nat_of_str_nat)

lemma digit_char_is_digit: "n < 10 \<Longrightarrow> is_digit (digit_char n)"
  by (simp add: is_digit_def digit_char_def less_eq_char_def)

lemma str_nat_digits: "c \<in> set (str_nat n) \<Longrightarrow> is_digit c"
proof (induction n rule: str_nat.induct)
  case (1 n)
  then show ?case
    by (cases "n < 10") (auto simp: str_nat.simps [of n] digit_char_is_digit)
qed

lemma str_nat_nonempty [simp]: "str_nat n \<noteq> []"
  by (subst str_nat.simps) simp

lemma str_int_inject [simp]: "str_int i = str_int j \<longleftrightarrow> i = j"
proof -
  have neg: "CHR ''-'' # str_nat m \<noteq> str_nat n" for m n
  proof
    assume eq: "CHR ''-'' # str_nat m = str_nat n"
    have "CHR ''-'' \<in> set (str_nat n)" unfolding eq [symmetric] by simp
    then show False using str_nat_digits [of "CHR ''-''" n] by (simp add: is_digit_def less_eq_char_def)
  qed
  show ?thesis using neg neg [symmetric] by (auto simp: str_int_def)
qed

end
