(* ===== verification/Utils.thy ===== *)
theory Utils
  imports PyVal
begin

text \<open>
  Utilities of \<open>utils.py\<close>: \<open>strtobool\<close> and \<open>parse_bool\<close>, the \<open>RichStatus\<close> result type, and
  the \<open>Timer\<close> that the daemon keeps per phase of a reconfiguration. Times are rationals;
  \<open>time.perf_counter()\<close> is the argument \<open>now\<close>. The Prometheus gauge of a timer is a client
  of the timer's values and changes nothing in it.

  The lemmas: exactly the strings that \<open>parse_bool\<close> accepts; on every reachable timer the
  average cycle lies between the recorded minimum and maximum.
\<close>

section \<open>Booleans\<close>

definition strtobool :: "string \<Rightarrow> bool" where
  "strtobool v = (str_lower v \<in> set [''y'', ''yes'', ''on'', ''1'', ''true'', ''t''])"

fun parse_bool :: "pyval \<Rightarrow> bool res" where
  "parse_bool (PBool b) = Inr b"
| "parse_bool (PStr s) = Inr (s \<noteq> [] \<and> strtobool s)"
| "parse_bool v = (if \<not> truthy v then Inr False else Inl (AttributeError ''lower''))"

definition env_bool :: "(string \<Rightarrow> string option) \<Rightarrow> string \<Rightarrow> string \<Rightarrow> bool" where
  "env_bool env var dflt =
     (case env var of None \<Rightarrow> strtobool dflt | Some s \<Rightarrow> s \<noteq> [] \<and> strtobool s)"

section \<open>RichStatus\<close>

record rich_status =
  rs_ok :: bool
  rs_info :: "pyval pydict"

definition rich_status_init :: "string \<Rightarrow> string \<Rightarrow> bool \<Rightarrow> pyval pydict \<Rightarrow> rich_status" where
  "rich_status_init hostname version b kwargs =
     \<lparr>rs_ok = b, rs_info = dset ''version'' (PStr version) (dset ''hostname'' (PStr hostname) kwargs)\<rparr>"

definition rs_getattr :: "rich_status \<Rightarrow> string \<Rightarrow> pyval" where
  "rs_getattr rs k = pget (rs_info rs) k"

definition rs_contains :: "rich_status \<Rightarrow> string \<Rightarrow> bool" where
  "rs_contains rs k = dhas (rs_info rs) k"

definition rs_as_dict :: "rich_status \<Rightarrow> pyval pydict" where
  "rs_as_dict rs = dupdate [(''ok'', PBool (rs_ok rs))] (rs_info rs)"

definition rs_from_error :: "string \<Rightarrow> string \<Rightarrow> string \<Rightarrow> pyval pydict \<Rightarrow> rich_status" where
  "rs_from_error hostname version error kwargs =
     rich_status_init hostname version False (dset ''error'' (PStr error) kwargs)"

definition rs_OK :: "string \<Rightarrow> string \<Rightarrow> pyval pydict \<Rightarrow> rich_status" where
  "rs_OK hostname version kwargs = rich_status_init hostname version True kwargs"

section \<open>Timers\<close>

definition truthy_time :: "rat option \<Rightarrow> bool" where
  "truthy_time t = (case t of None \<Rightarrow> False | Some x \<Rightarrow> x \<noteq> 0)"

definition when_or_now :: "rat option \<Rightarrow> rat \<Rightarrow> rat" where
  "when_or_now t now = (case t of None \<Rightarrow> now | Some x \<Rightarrow> if x = 0 then now else x)"

record timer =
  timer_name :: string
  cycles :: int
  starttime :: rat
  accumulated :: rat
  minimum :: rat
  maximum :: rat
  running :: bool
  fake :: rat

definition timer_reset :: "timer \<Rightarrow> timer" where
  "timer_reset t =
     t\<lparr>cycles := 0, starttime := 0, accumulated := 0, minimum := 999999999999,
       maximum := - 999999999999, running := False, fake := 0\<rparr>"

definition timer_init :: "string \<Rightarrow> timer" where
  "timer_init name =
     timer_reset \<lparr>timer_name = name, cycles = 0, starttime = 0, accumulated = 0, minimum = 0,
       maximum = 0, running = False, fake = 0\<rparr>"

definition timer_bool :: "timer \<Rightarrow> bool" where
  "timer_bool t = (cycles t > 0)"

definition timer_start :: "rat option \<Rightarrow> rat \<Rightarrow> timer \<Rightarrow> timer" where
  "timer_start t0 now t = t\<lparr>starttime := when_or_now t0 now, running := True\<rparr>"

definition timer_stop :: "rat option \<Rightarrow> rat \<Rightarrow> timer \<Rightarrow> timer \<times> rat" where
  "timer_stop t0 now t =
     (if running t then
        (let this_cycle = when_or_now t0 now - starttime t + fake t;
             t1 = t\<lparr>running := False, cycles := cycles t + 1, fake := 0,
                    accumulated := accumulated t + this_cycle\<rparr>;
             t2 = (if this_cycle < minimum t1 then t1\<lparr>minimum := this_cycle\<rparr> else t1);
             t3 = (if this_cycle > maximum t2 then t2\<lparr>maximum := this_cycle\<rparr> else t2)
         in (t3, accumulated t3))
      else (t, accumulated t))"

definition timer_faketime :: "rat \<Rightarrow> timer \<Rightarrow> timer res" where
  "timer_faketime x t =
     (if \<not> running t then Inl (PlainException ''faketime: not running'')
      else Inr (t\<lparr>fake := x\<rparr>))"

definition timer_average :: "timer \<Rightarrow> rat res" where
  "timer_average t =
     (if cycles t > 0 then Inr (accumulated t / of_int (cycles t))
      else Inl (PlainException ''average: no cycles to average''))"

inductive timer_step :: "timer \<Rightarrow> timer \<Rightarrow> bool" where
  reset: "timer_step t (timer_reset t)"
| start: "timer_step t (timer_start w now t)"
| stop: "timer_step t (fst (timer_stop w now t))"
| faketime: "timer_faketime x t = Inr t' \<Longrightarrow> timer_step t t'"

definition timer_inv :: "timer \<Rightarrow> bool" where
  "timer_inv t \<longleftrightarrow> 0 \<le> cycles t \<and>
     of_int (cycles t) * minimum t \<le> accumulated t \<and>
     accumulated t \<le> of_int (cycles t) * maximum t"

lemma timer_inv_reset: "timer_inv (timer_reset t)"
  by (simp add: timer_inv_def timer_reset_def)

lemma timer_inv_stop:
  assumes "timer_inv t"
  shows "timer_inv (fst (timer_stop w now t))"
proof (cases "running t")
  case True
  define c where "c = when_or_now w now - starttime t + fake t"
  have stop: "fst (timer_stop w now t) =
      t\<lparr>running := False, cycles := cycles t + 1, fake := 0, accumulated := accumulated t + c,
        minimum := min c (minimum t), maximum := max c (maximum t)\<rparr>"
    using True by (simp add: timer_stop_def Let_def c_def min_def max_def)
  have "of_int (cycles t) * min c (minimum t) \<le> of_int (cycles t) * minimum t"
    "of_int (cycles t) * maximum t \<le> of_int (cycles t) * max c (maximum t)"
    using assms by (auto simp: timer_inv_def intro: mult_left_mono)
  moreover have "min c (minimum t) \<le> c" "c \<le> max c (maximum t)"
    by simp_all
  ultimately show ?thesis
    using assms unfolding stop timer_inv_def by (simp add: distrib_right) linarith
qed (use assms in \<open>simp add: timer_stop_def\<close>)

lemma timer_inv_step: "timer_step t t' \<Longrightarrow> timer_inv t \<Longrightarrow> timer_inv t'"
proof (induction rule: timer_step.induct)
  case (start w now t)
  then show ?case by (simp add: timer_start_def timer_inv_def)
next
  case (faketime x t t')
  then show ?case by (auto simp: timer_faketime_def timer_inv_def split: if_splits)
qed (simp_all add: timer_inv_reset timer_inv_stop)

interpretation timer_machine: machine "\<lambda>t. \<exists>name. t = timer_init name" timer_step timer_inv
  by unfold_locales (auto simp: timer_init_def timer_inv_reset intro: timer_inv_step)

section \<open>Properties\<close>

text \<open>
  \<open>parse_bool\<close> returns \<open>True\<close> on a string exactly if its lower-case form is one of
  \<open>y\<close>, \<open>yes\<close>, \<open>on\<close>, \<open>1\<close>, \<open>true\<close>, \<open>t\<close>; a bool is returned unchanged; every other falsy value
  gives \<open>False\<close>, and every other truthy value raises.
\<close>

theorem parse_bool_cases:
  "parse_bool v = (case v of
     PBool b \<Rightarrow> Inr b
   | PStr s \<Rightarrow> Inr (map char_lower s \<in> {''y'', ''yes'', ''on'', ''1'', ''true'', ''t''})
   | _ \<Rightarrow> if truthy v then Inl (AttributeError ''lower'') else Inr False)"
  by (cases v) (auto simp: strtobool_def str_lower_def)

text \<open>
  Whatever sequence of starts, stops, resets and fake-time calls a timer goes through,
  its average, when it has one, lies between the minimum and the maximum it reports.
\<close>

theorem timer_average_between:
  assumes "timer_step\<^sup>*\<^sup>* (timer_init name) t" and "timer_average t = Inr a"
  shows "minimum t \<le> a \<and> a \<le> maximum t"
proof -
  have inv: "timer_inv t"
    using assms(1) by (rule timer_machine.reach_inv [rotated]) blast
  have pos: "0 < cycles t" and a: "a = accumulated t / of_int (cycles t)"
    using assms(2) by (auto simp: timer_average_def split: if_splits)
  then have "(0::rat) < of_int (cycles t)" by simp
  with inv show ?thesis
    unfolding a by (simp add: timer_inv_def pos_le_divide_eq pos_divide_le_eq mult.commute)
qed

definition demo_timer :: timer where
  "demo_timer = fst (timer_stop (Some 9) 0 (timer_start (Some 4) 0
     (fst (timer_stop (Some 3) 0 (timer_start (Some 2) 0 (timer_init ''t''))))))"

lemma demo_timer_reach: "timer_step\<^sup>*\<^sup>* (timer_init ''t'') demo_timer"
  unfolding demo_timer_def
  by (meson timer_step.intros rtranclp.rtrancl_into_rtrancl rtranclp.rtrancl_refl)

theorem timer_average_between_witness:
  "timer_average demo_timer = Inr 3 \<and> minimum demo_timer \<le> 3 \<and> 3 \<le> maximum demo_timer"
proof -
  have a: "timer_average demo_timer = Inr 3"
    by (simp add: demo_timer_def timer_average_def timer_stop_def timer_start_def timer_init_def
        timer_reset_def when_or_now_def Let_def)
  from timer_average_between [OF demo_timer_reach a] a show ?thesis by blast
qed

end
