(* ===== verification/Reconfig.thy ===== *)
theory Reconfig
  imports Utils
begin

text \<open>
  Model of \<open>reconfig_stats.py\<close>: the bookkeeping that decides when an incremental
  reconfiguration must be double-checked and when timers are logged.

  \<open>reconfig_stats\<close> has the fields of class \<open>ReconfigStats\<close>. Times (Python floats) are
  rationals. Every method takes the optional \<open>when\<close> argument of the source and \<open>now\<close>, the
  value that \<open>time.perf_counter()\<close> would return; a \<open>when\<close> of \<open>None\<close> or zero means \<open>now\<close>,
  as Python's truth test on floats has it.

  The lemmas: an invariant over every sequence of calls (the window of recorded
  reconfigurations, the counters, and that the times the assertions need are set), and from
  it that the assertions never fire and that the decisions are the documented ones.
\<close>

section \<open>State and operations\<close>

type_synonym perf_counter = rat

record reconfig_stats =
  max_incr_between_checks :: int
  max_time_between_checks :: rat
  max_config_between_timers :: int
  max_time_between_timers :: rat
  reconfigures :: "(string \<times> perf_counter) list"
  counts :: "int pydict"
  last_complete :: "perf_counter option"
  last_check :: "perf_counter option"
  last_timer_log :: "perf_counter option"
  incrementals_outstanding :: int
  configs_outstanding :: int
  checks :: int
  errors :: int

definition stats_init :: "int \<Rightarrow> rat \<Rightarrow> int \<Rightarrow> rat \<Rightarrow> reconfig_stats" where
  "stats_init mic mtc mct mtt = \<lparr>
     max_incr_between_checks = mic, max_time_between_checks = mtc,
     max_config_between_timers = mct, max_time_between_timers = mtt,
     reconfigures = [], counts = [(''incremental'', 0), (''complete'', 0)],
     last_complete = None, last_check = None, last_timer_log = None,
     incrementals_outstanding = 0, configs_outstanding = 0, checks = 0, errors = 0\<rparr>"

text \<open>The counter update at the end of \<open>mark\<close>: the count and the window of ten.\<close>

definition note_reconfigure :: "string \<Rightarrow> perf_counter \<Rightarrow> reconfig_stats \<Rightarrow> reconfig_stats res" where
  "note_reconfigure what when s =
     (case dget (counts s) what of
        None \<Rightarrow> Inl (KeyError what)
      | Some n \<Rightarrow>
          (let rs = reconfigures s @ [(what, when)]
           in Inr (s\<lparr>counts := dset what (n + 1) (counts s),
                     reconfigures := (if length rs > 10 then tl rs else rs)\<rparr>)))"

definition mark ::
  "string \<Rightarrow> perf_counter option \<Rightarrow> perf_counter \<Rightarrow> reconfig_stats \<Rightarrow> reconfig_stats res" where
  "mark what0 when0 now s =
     (let when = when_or_now when0 now;
          what = (if what0 = ''incremental'' \<and> \<not> truthy_time (last_complete s)
                  then ''complete'' else what0)
      in rbind
          (if what = ''complete'' then
             Inr (s\<lparr>incrementals_outstanding := 0, last_complete := Some when,
                    last_check := Some when\<rparr>, True)
           else if what = ''incremental'' then
             Inr (s\<lparr>incrementals_outstanding := incrementals_outstanding s + 1\<rparr>, True)
           else if what = ''diag'' then Inr (s, False)
           else Inl (RuntimeError (''ReconfigStats: unknown reconfigure type '' @ what)))
          (\<lambda>(s1, update_counters).
            rbind (if update_counters then note_reconfigure what when s1 else Inr s1)
             (\<lambda>s2. Inr (s2\<lparr>configs_outstanding := configs_outstanding s2 + 1\<rparr>))))"

definition needs_check ::
  "perf_counter option \<Rightarrow> perf_counter \<Rightarrow> reconfig_stats \<Rightarrow> bool res" where
  "needs_check when0 now s =
     (let when = when_or_now when0 now
      in if length (reconfigures s) = 0 then Inr False
         else if fst (last (reconfigures s)) = ''complete'' then Inr False
         else if incrementals_outstanding s = 0 then Inr False
         else if incrementals_outstanding s \<ge> max_incr_between_checks s then Inr True
         else (case last_check s of
             None \<Rightarrow> Inl (AssertionError ''last_check'')
           | Some lc \<Rightarrow>
               if when - lc > max_time_between_checks s then Inr True else Inr False))"

definition needs_timers ::
  "perf_counter option \<Rightarrow> perf_counter \<Rightarrow> reconfig_stats \<Rightarrow> bool res" where
  "needs_timers when0 now s =
     (let when = when_or_now when0 now
      in if length (reconfigures s) = 0 then Inr False
         else if configs_outstanding s = 0 then Inr False
         else if configs_outstanding s \<ge> max_config_between_timers s then Inr True
         else (case last_complete s of
             None \<Rightarrow> Inl (AssertionError ''last_complete'')
           | Some lc \<Rightarrow>
               (let baseline = (if truthy_time (last_timer_log s)
                                then the (last_timer_log s) else lc)
                in if when - baseline > max_time_between_timers s then Inr True else Inr False)))"

definition mark_checked ::
  "bool \<Rightarrow> perf_counter option \<Rightarrow> perf_counter \<Rightarrow> reconfig_stats \<Rightarrow> reconfig_stats" where
  "mark_checked result when0 now s =
     s\<lparr>incrementals_outstanding := 0, checks := checks s + 1,
       errors := (if result then errors s else errors s + 1),
       last_check := Some (when_or_now when0 now)\<rparr>"

definition mark_timers_logged ::
  "perf_counter option \<Rightarrow> perf_counter \<Rightarrow> reconfig_stats \<Rightarrow> reconfig_stats" where
  "mark_timers_logged when0 now s =
     s\<lparr>configs_outstanding := 0, last_timer_log := Some (when_or_now when0 now)\<rparr>"

section \<open>Every sequence of calls\<close>

inductive stats_step :: "reconfig_stats \<Rightarrow> reconfig_stats \<Rightarrow> bool" where
  step_mark: "mark what w now s = Inr s' \<Longrightarrow> stats_step s s'"
| step_checked: "stats_step s (mark_checked ok w now s)"
| step_timers: "stats_step s (mark_timers_logged w now s)"

definition stats_start :: "reconfig_stats \<Rightarrow> bool" where
  "stats_start s \<longleftrightarrow> (\<exists>a b c d. s = stats_init a b c d)"

definition count_of :: "reconfig_stats \<Rightarrow> string \<Rightarrow> int" where
  "count_of s what = dget_or (counts s) what 0"

definition stats_inv :: "reconfig_stats \<Rightarrow> bool" where
  "stats_inv s \<longleftrightarrow>
     fst ` set (counts s) = {''incremental'', ''complete''} \<and>
     0 \<le> count_of s ''incremental'' \<and> 0 \<le> count_of s ''complete'' \<and>
     int (length (reconfigures s)) =
       min 10 (count_of s ''incremental'' + count_of s ''complete'') \<and>
     set (map fst (reconfigures s)) \<subseteq> {''incremental'', ''complete''} \<and>
     (reconfigures s \<noteq> [] \<longrightarrow> last_complete s \<noteq> None \<and> last_check s \<noteq> None) \<and>
     0 \<le> incrementals_outstanding s \<and>
     incrementals_outstanding s \<le> count_of s ''incremental'' \<and>
     0 \<le> configs_outstanding s \<and>
     0 \<le> errors s \<and> errors s \<le> checks s"

lemma stats_inv_init: "stats_inv (stats_init a b c d)"
  by (simp add: stats_inv_def stats_init_def count_of_def dget_or_def insert_commute)

text \<open>
  What \<open>note_reconfigure\<close> needs: the counters of both kinds, and times set when it runs.
  It then re-establishes everything but the bound on outstanding incrementals, which the
  caller settles by whether it counted one.
\<close>

definition window_push :: "'a list \<Rightarrow> 'a \<Rightarrow> 'a list" where
  "window_push rs x = (if length (rs @ [x]) > 10 then tl (rs @ [x]) else rs @ [x])"

lemma push_window:
  "int (length rs) = min 10 n \<Longrightarrow> int (length (window_push rs x)) = min 10 (n + 1)"
  by (auto simp: window_push_def min_def split: if_splits)

lemma push_elements: "set (window_push rs x) \<subseteq> insert x (set rs)"
  by (cases rs) (auto simp: window_push_def)

lemma push_last [simp]: "last (window_push rs x) = x"
  by (cases rs) (auto simp: window_push_def)

lemma push_nonempty [simp]: "window_push rs x \<noteq> []"
  by (cases rs) (auto simp: window_push_def)

lemma note_reconfigure_ok:
  assumes "fst ` set (counts s) = {''incremental'', ''complete''}"
    and "what \<in> {''incremental'', ''complete''}"
  shows "\<exists>cs. note_reconfigure what t s =
      Inr (s\<lparr>counts := cs, reconfigures := window_push (reconfigures s) (what, t)\<rparr>) \<and>
    fst ` set cs = {''incremental'', ''complete''} \<and>
    (\<forall>w. dget_or cs w 0 = dget_or (counts s) w 0 + (if w = what then 1 else 0))"
proof -
  from assms obtain n where n: "dget (counts s) what = Some n"
    by (metis dhasE dhas_iff)
  moreover have "fst ` set (dset what (n + 1) (counts s)) = {''incremental'', ''complete''}"
    using assms by (auto simp: keys_dset)
  ultimately show ?thesis
    by (intro exI [of _ "dset what (n + 1) (counts s)"])
      (simp add: note_reconfigure_def Let_def dget_or_def window_push_def)
qed

lemma note_reconfigure_inv:
  fixes lc lk t :: perf_counter
  assumes inv: "stats_inv s" and what: "what \<in> {''incremental'', ''complete''}"
    and i: "0 \<le> i" "i \<le> count_of s ''incremental'' + (if what = ''incremental'' then 1 else 0)"
  shows "\<exists>s'. rbind (note_reconfigure what t
                  (s\<lparr>incrementals_outstanding := i, last_complete := Some lc, last_check := Some lk\<rparr>))
                (\<lambda>s2. Inr (s2\<lparr>configs_outstanding := configs_outstanding s2 + 1\<rparr>)) = Inr s' \<and>
    stats_inv s' \<and> last (reconfigures s') = (what, t) \<and>
    incrementals_outstanding s' = i \<and> last_complete s' = Some lc \<and> last_check s' = Some lk \<and>
    configs_outstanding s' = configs_outstanding s + 1"
proof -
  let ?s1 = "s\<lparr>incrementals_outstanding := i, last_complete := Some lc, last_check := Some lk\<rparr>"
  let ?rs = "window_push (reconfigures s) (what, t)"
  have "fst ` set (counts ?s1) = {''incremental'', ''complete''}"
    using inv by (simp add: stats_inv_def)
  from note_reconfigure_ok [OF this what, of t] obtain cs where
    cs: "note_reconfigure what t ?s1 = Inr (?s1\<lparr>counts := cs, reconfigures := ?rs\<rparr>)"
      "fst ` set cs = {''incremental'', ''complete''}"
      "\<And>w. dget_or cs w 0 = count_of s w + (if w = what then 1 else 0)"
    by (auto simp: count_of_def)
  have "int (length ?rs) = min 10 (count_of s ''incremental'' + count_of s ''complete'' + 1)"
    by (rule push_window) (use inv in \<open>simp add: stats_inv_def\<close>)
  then have len: "int (length ?rs) = min 10 (dget_or cs ''incremental'' 0 + dget_or cs ''complete'' 0)"
    using what unfolding cs(3) by auto
  have "fst ` set (reconfigures s) \<subseteq> {''incremental'', ''complete''}"
    using inv by (simp add: stats_inv_def)
  then have kinds: "fst ` set ?rs \<subseteq> {''incremental'', ''complete''}"
    using order_trans [OF image_mono [OF push_elements [of "reconfigures s" "(what, t)"]], of fst] what
    by auto
  have old: "0 \<le> count_of s ''incremental''" "0 \<le> count_of s ''complete''"
      "0 \<le> configs_outstanding s" "0 \<le> errors s" "errors s \<le> checks s"
    using inv by (simp_all add: stats_inv_def)
  have "stats_inv (?s1\<lparr>counts := cs, reconfigures := ?rs, configs_outstanding := configs_outstanding s + 1\<rparr>)"
    unfolding stats_inv_def using old i len kinds cs(2,3) by (auto simp: count_of_def)
  then show ?thesis by (simp add: cs(1))
qed

lemma mark_complete:
  assumes inv: "stats_inv s"
    and what: "what = ''complete'' \<or> what = ''incremental'' \<and> \<not> truthy_time (last_complete s)"
  shows "\<exists>s'. mark what w now s = Inr s' \<and> stats_inv s' \<and>
    last (reconfigures s') = (''complete'', when_or_now w now) \<and>
    incrementals_outstanding s' = 0 \<and> last_complete s' = Some (when_or_now w now) \<and>
    last_check s' = Some (when_or_now w now) \<and> configs_outstanding s' = configs_outstanding s + 1"
proof -
  have "0 \<le> count_of s ''incremental''"
    using inv by (simp add: stats_inv_def)
  then show ?thesis
    using note_reconfigure_inv [OF inv, where what = "''complete''" and i = 0 and lc = "when_or_now w now"
        and lk = "when_or_now w now" and t = "when_or_now w now"] what
    by (auto simp: mark_def Let_def)
qed

lemma mark_incremental:
  assumes inv: "stats_inv s" and lc: "truthy_time (last_complete s)" and lk: "last_check s \<noteq> None"
  shows "\<exists>s'. mark ''incremental'' w now s = Inr s' \<and> stats_inv s' \<and>
    last (reconfigures s') = (''incremental'', when_or_now w now) \<and>
    incrementals_outstanding s' = incrementals_outstanding s + 1 \<and>
    last_complete s' = last_complete s \<and> last_check s' = last_check s \<and>
    configs_outstanding s' = configs_outstanding s + 1"
proof -
  let ?i = "incrementals_outstanding s + 1"
  obtain a b where ab: "last_complete s = Some a" "last_check s = Some b"
    using lc lk by (auto simp: truthy_time_def split: option.splits)
  have "s\<lparr>incrementals_outstanding := ?i\<rparr> =
      s\<lparr>incrementals_outstanding := ?i, last_complete := Some a, last_check := Some b\<rparr>"
    using ab by (cases s) simp
  then have "mark ''incremental'' w now s =
      rbind (note_reconfigure ''incremental'' (when_or_now w now)
          (s\<lparr>incrementals_outstanding := ?i, last_complete := Some a, last_check := Some b\<rparr>))
        (\<lambda>s2. Inr (s2\<lparr>configs_outstanding := configs_outstanding s2 + 1\<rparr>))"
    using lc by (simp add: mark_def Let_def del: reconfig_stats.surjective)
  moreover have "0 \<le> ?i" "?i \<le> count_of s ''incremental'' + 1"
    using inv by (simp_all add: stats_inv_def)
  ultimately show ?thesis
    using note_reconfigure_inv [OF inv, where what = "''incremental''" and i = ?i and lc = a
        and lk = b and t = "when_or_now w now"] ab
    by simp
qed

lemma mark_diag:
  "mark ''diag'' w now s = Inr (s\<lparr>configs_outstanding := configs_outstanding s + 1\<rparr>)"
  by (simp add: mark_def Let_def)

lemma mark_unknown:
  "what \<notin> {''complete'', ''incremental'', ''diag''} \<Longrightarrow>
     mark what w now s = Inl (RuntimeError (''ReconfigStats: unknown reconfigure type '' @ what))"
  by (simp add: mark_def Let_def)

text \<open>
  The last check time is set whenever the last complete time is: part of the invariant the
  assertion in \<open>needs_check\<close> rests on. It is kept apart, since \<open>mark_checked\<close> may set the
  check time first.
\<close>

definition stats_ok :: "reconfig_stats \<Rightarrow> bool" where
  "stats_ok s \<longleftrightarrow> stats_inv s \<and> (last_complete s \<noteq> None \<longrightarrow> last_check s \<noteq> None)"

lemma mark_ok: "stats_ok s \<Longrightarrow> mark what w now s = Inr s' \<Longrightarrow> stats_ok s'"
proof -
  assume ok: "stats_ok s" and s': "mark what w now s = Inr s'"
  then have inv: "stats_inv s" by (simp add: stats_ok_def)
  consider (comp) "what = ''complete'' \<or> what = ''incremental'' \<and> \<not> truthy_time (last_complete s)"
    | (incr) "what = ''incremental''" "truthy_time (last_complete s)"
    | (diag) "what = ''diag''"
    | (bad) "what \<notin> {''complete'', ''incremental'', ''diag''}"
    by blast
  then show "stats_ok s'"
  proof cases
    case comp
    obtain u where "mark what w now s = Inr u" "stats_inv u" "last_check u \<noteq> None"
      using mark_complete [OF inv comp, of w now] by fastforce
    with s' show ?thesis by (simp add: stats_ok_def)
  next
    case incr
    then have lk: "last_check s \<noteq> None"
      using ok by (auto simp: stats_ok_def truthy_time_def split: option.splits)
    obtain u where "mark what w now s = Inr u" "stats_inv u" "last_check u = last_check s"
      using mark_incremental [OF inv incr(2) lk, of w now] incr(1) by fastforce
    with s' lk show ?thesis by (simp add: stats_ok_def)
  next
    case diag
    with s' have "s' = s\<lparr>configs_outstanding := configs_outstanding s + 1\<rparr>"
      by (simp add: mark_diag)
    with ok show ?thesis by (simp add: stats_ok_def stats_inv_def count_of_def)
  next
    case bad
    then show ?thesis using s' by (simp add: mark_unknown)
  qed
qed

lemma mark_checked_ok: "stats_ok s \<Longrightarrow> stats_ok (mark_checked ok w now s)"
  by (auto simp: stats_ok_def stats_inv_def mark_checked_def count_of_def)

lemma mark_timers_logged_ok: "stats_ok s \<Longrightarrow> stats_ok (mark_timers_logged w now s)"
  by (auto simp: stats_ok_def stats_inv_def mark_timers_logged_def count_of_def)

lemma stats_step_ok: "stats_step s t \<Longrightarrow> stats_ok s \<Longrightarrow> stats_ok t"
  by (induction rule: stats_step.induct)
    (auto intro: mark_ok mark_checked_ok mark_timers_logged_ok)

interpretation stats_machine: machine stats_start stats_step stats_ok
proof unfold_locales
  show "stats_ok s" if "stats_start s" for s
    using that by (auto simp: stats_start_def stats_ok_def stats_inv_init) (simp add: stats_init_def)
  show "stats_ok t" if "stats_ok s" "stats_step s t" for s t
    using that by (blast intro: stats_step_ok)
qed

section \<open>Properties\<close>

lemma demo_run:
  "\<exists>s. stats_step\<^sup>*\<^sup>* (stats_init 1 600 10 120) s \<and>
     reconfigures s = [(''complete'', 5), (''incremental'', 7)] \<and>
     incrementals_outstanding s = 1 \<and> max_incr_between_checks s = 1"
proof -
  let ?s0 = "stats_init 1 600 10 120"
  let ?s1 = "?s0\<lparr>counts := [(''incremental'', 0), (''complete'', 1)], last_complete := Some 5,
      last_check := Some 5, configs_outstanding := 1, reconfigures := [(''complete'', 5)]\<rparr>"
  let ?s2 = "?s1\<lparr>counts := [(''incremental'', 1), (''complete'', 1)], incrementals_outstanding := 1,
      configs_outstanding := 2, reconfigures := [(''complete'', 5), (''incremental'', 7)]\<rparr>"
  have "mark ''complete'' (Some 5) 0 ?s0 = Inr ?s1"
    by (simp add: mark_def Let_def note_reconfigure_def stats_init_def when_or_now_def truthy_time_def dset_def)
  then have "stats_step ?s0 ?s1" by (rule step_mark)
  moreover have "mark ''incremental'' (Some 7) 0 ?s1 = Inr ?s2"
    by (simp add: mark_def Let_def note_reconfigure_def stats_init_def when_or_now_def truthy_time_def dset_def)
  then have "stats_step ?s1 ?s2" by (rule step_mark)
  ultimately have "stats_step\<^sup>*\<^sup>* ?s0 ?s2" by (meson r_into_rtranclp rtranclp_trans)
  then show ?thesis by (intro exI [of _ ?s2]) (simp add: stats_init_def)
qed

lemma demo_start: "stats_start (stats_init 1 600 10 120)"
  by (auto simp: stats_start_def)

text \<open>
  C21: over every sequence of calls from a fresh object, the window holds the last ten (or
  fewer) reconfigurations, the counters are non-negative, the outstanding incrementals
  never exceed the incrementals counted, failed checks never exceed checks, and once a
  reconfiguration is recorded the times of the last complete one and of the last check are
  set.
\<close>

theorem stats_reachable_inv:
  "stats_start s \<Longrightarrow> stats_step\<^sup>*\<^sup>* s t \<Longrightarrow> stats_inv t"
  using stats_machine.reach_inv [of s t] by (simp add: stats_ok_def)

theorem stats_reachable_inv_witness:
  "\<exists>s. reconfigures s = [(''complete'', 5), (''incremental'', 7)] \<and> stats_inv s"
  using demo_run stats_reachable_inv [OF demo_start] by blast

text \<open>
  C22: in every reachable state \<open>needs_check\<close> returns (its assertion never fires), and it asks
  for a check exactly when the last recorded reconfiguration was incremental, some
  incrementals are outstanding, and they reached the limit or the time since the last check
  exceeds the limit.
\<close>

theorem needs_check_decides:
  assumes "stats_start s0" and "stats_step\<^sup>*\<^sup>* s0 s"
  shows "\<exists>lc. needs_check w now s = Inr (reconfigures s \<noteq> [] \<and>
      fst (last (reconfigures s)) = ''incremental'' \<and>
      0 < incrementals_outstanding s \<and>
      (max_incr_between_checks s \<le> incrementals_outstanding s \<or>
       max_time_between_checks s < when_or_now w now - lc)) \<and>
    (reconfigures s \<noteq> [] \<longrightarrow> last_check s = Some lc)"
proof -
  have inv: "stats_inv s"
    using stats_machine.reach_inv [OF assms] by (simp add: stats_ok_def)
  show ?thesis
  proof (cases "reconfigures s = []")
    case True
    then show ?thesis by (simp add: needs_check_def)
  next
    case False
    with inv obtain lc where lc: "last_check s = Some lc"
      by (auto simp: stats_inv_def)
    have "fst (last (reconfigures s)) \<in> {''incremental'', ''complete''}"
      using inv last_in_set [OF False] by (auto simp: stats_inv_def)
    moreover have "0 \<le> incrementals_outstanding s"
      using inv by (simp add: stats_inv_def)
    ultimately show ?thesis
      using False lc by (auto simp: needs_check_def Let_def)
  qed
qed

theorem needs_check_decides_witness:
  "\<exists>s. reconfigures s = [(''complete'', 5), (''incremental'', 7)] \<and> needs_check None 8 s = Inr True"
proof -
  obtain s where s: "stats_step\<^sup>*\<^sup>* (stats_init 1 600 10 120) s"
      "reconfigures s = [(''complete'', 5), (''incremental'', 7)]"
      "incrementals_outstanding s = 1" "max_incr_between_checks s = 1"
    using demo_run by blast
  show ?thesis
    using needs_check_decides [OF demo_start s(1), of None 8] s by auto
qed

text \<open>
  In every reachable state \<open>needs_timers\<close> returns, and no check is due right after a
  complete reconfiguration or right after a check, at whatever time it is asked.
\<close>

theorem no_check_after_complete_or_check:
  assumes "stats_start s0" and "stats_step\<^sup>*\<^sup>* s0 s"
  shows "(\<exists>b. needs_timers w now s = Inr b) \<and>
    (\<exists>s'. mark ''complete'' w now s = Inr s' \<and> needs_check w' now' s' = Inr False) \<and>
    needs_check w' now' (mark_checked ok w now s) = Inr False"
proof -
  have inv: "stats_inv s"
    using stats_machine.reach_inv [OF assms] by (simp add: stats_ok_def)
  then have "reconfigures s \<noteq> [] \<Longrightarrow> \<exists>lc. last_complete s = Some lc"
    by (simp add: stats_inv_def)
  then have "\<exists>b. needs_timers w now s = Inr b"
    by (cases "reconfigures s = []") (auto simp: needs_timers_def Let_def)
  moreover obtain s' where s': "mark ''complete'' w now s = Inr s'"
      "last (reconfigures s') = (''complete'', when_or_now w now)"
    using mark_complete [OF inv disjI1 [OF refl], of w now] by blast
  have "needs_check w' now' s' = Inr False"
    using s'(2) by (simp add: needs_check_def)
  moreover have "needs_check w' now' (mark_checked ok w now s) = Inr False"
    by (simp add: needs_check_def mark_checked_def)
  ultimately show ?thesis
    using s'(1) by blast
qed

theorem no_check_after_complete_or_check_witness:
  "\<exists>s. reconfigures s = [(''complete'', 5), (''incremental'', 7)] \<and>
     needs_check None 9 (mark_checked False None 8 s) = Inr False"
  using demo_run no_check_after_complete_or_check [OF demo_start] by blast

end
