(* ===== verification/DepGraph.thy ===== *)
theory DepGraph
  imports Prelude
begin

text \<open>
  Model of \<open>fetch/dependency.py\<close>: dependency injectors, the dependency graph and Kahn's
  topological traversal, and the order of Watt keys computed from it.

  A graph is the insertion-ordered dictionary \<open>vertices\<close>; a vertex has its set of
  successors \<open>out\<close> (a duplicate-free list: Python leaves the iteration order of a set open,
  so every statement about \<open>traverse\<close> holds for whatever order the list has) and its
  inbound count. \<open>relax\<close> is the inner loop of \<open>traverse\<close>, \<open>kahn\<close> its outer loop, which
  returns the items yielded and the final counts. The nodes of the manager's graph are
  processor instances and dependency classes (\<open>Obj\<close>, \<open>Cls\<close>).

  The lemmas: \<open>connect\<close> keeps the counts right; on such graphs \<open>traverse\<close> returns exactly
  when the graph is acyclic, and then lists every vertex once, predecessors first.
\<close>

section \<open>The graph\<close>

record 'a vertex =
  out :: "'a list"
  in_count :: int

type_synonym 'a graph = "('a \<times> 'a vertex) list"

definition touch :: "'a \<Rightarrow> 'a graph \<Rightarrow> 'a graph" where
  "touch a g = dsetdefault a \<lparr>out = [], in_count = 0\<rparr> g"

definition out_of :: "'a graph \<Rightarrow> 'a \<Rightarrow> 'a list" where
  "out_of g a = (case dget g a of None \<Rightarrow> [] | Some v \<Rightarrow> out v)"

definition count_in :: "'a graph \<Rightarrow> 'a \<Rightarrow> int" where
  "count_in g a = (case dget g a of None \<Rightarrow> 0 | Some v \<Rightarrow> in_count v)"

definition connect :: "'a \<Rightarrow> 'a \<Rightarrow> 'a graph \<Rightarrow> 'a graph" where
  "connect a b g =
     (let g1 = touch a g
      in if b \<in> set (out_of g1 a) then g1
         else
           (let g2 = dset a \<lparr>out = out_of g1 a @ [b], in_count = count_in g1 a\<rparr> g1;
                g3 = touch b g2
            in dset b \<lparr>out = out_of g3 b, in_count = count_in g3 b + 1\<rparr> g3))"

fun relax :: "'a list \<Rightarrow> ('a \<times> int) list \<Rightarrow> 'a list \<Rightarrow> (('a \<times> int) list \<times> 'a list) res" where
  "relax [] in_counts queue = Inr (in_counts, queue)"
| "relax (obj # objs) in_counts queue =
     (case dget in_counts obj of
        None \<Rightarrow> Inl (KeyError ''in_counts'')
      | Some n \<Rightarrow>
          relax objs (dset obj (n - 1) in_counts) (if n - 1 = 0 then queue @ [obj] else queue))"

definition positive :: "('a \<times> int) list \<Rightarrow> 'a set" where
  "positive ic = {k. \<exists>n. dget ic k = Some n \<and> 0 < n}"

lemma finite_positive [simp]: "finite (positive ic)"
  by (rule finite_subset [of _ "fst ` set ic"]) (auto simp: positive_def intro: rev_image_eqI dest: map_of_SomeD)

lemma relax_measure:
  "relax os ic q = Inr (ic', q') \<Longrightarrow>
     length q' + card (positive ic') \<le> length q + card (positive ic)"
proof (induction os ic q rule: relax.induct)
  case (2 obj objs ic q)
  then obtain n where n: "dget ic obj = Some n" by (auto split: option.splits)
  let ?ic = "dset obj (n - 1) ic" and ?q = "if n - 1 = 0 then q @ [obj] else q"
  have "length ?q + card (positive ?ic) \<le> length q + card (positive ic)"
  proof (cases "n = 1")
    case True
    then have "positive ?ic = positive ic - {obj}" and "obj \<in> positive ic"
      using n by (auto simp: positive_def)
    moreover have "0 < card (positive ic)"
      using \<open>obj \<in> positive ic\<close> by (auto simp: card_gt_0_iff)
    ultimately show ?thesis using True by simp
  next
    case False
    then have "positive ?ic \<subseteq> positive ic"
      using n by (auto simp: positive_def)
    then show ?thesis using False by (simp add: card_mono)
  qed
  moreover have "length q' + card (positive ic') \<le> length ?q + card (positive ?ic)"
    using 2 n by auto
  ultimately show ?case by linarith
qed simp

function kahn ::
  "'a graph \<Rightarrow> 'a list \<Rightarrow> ('a \<times> int) list \<Rightarrow> 'a list \<Rightarrow> ('a list \<times> ('a \<times> int) list) res" where
  "kahn g [] in_counts yielded = Inr (yielded, in_counts)"
| "kahn g (cur # queue) in_counts yielded =
     (case relax (out_of g cur) in_counts queue of
        Inl e \<Rightarrow> Inl e
      | Inr (ic, q) \<Rightarrow> kahn g q ic (yielded @ [cur]))"
  by pat_completeness auto
termination
proof (relation "measure (\<lambda>(g, q, ic, ys). length q + card (positive ic))", goal_cases)
  case (2 g cur queue ic ys p ic' q')
  then show ?case using relax_measure [of "out_of g cur" ic queue ic' q'] by simp
qed simp

definition traverse :: "'a graph \<Rightarrow> 'a list res" where
  "traverse g =
     (if length g = 0 then Inr []
      else
        (let in_counts = map (\<lambda>(obj, v). (obj, in_count v)) g;
             queue = map fst (filter (\<lambda>(obj, n). n = 0) in_counts)
         in if length queue = 0 then Inl (ValueError ''cyclic'')
            else rbind (kahn g queue in_counts [])
              (\<lambda>(yielded, ic).
                 if sum_list (map snd ic) = 0 then Inr yielded
                 else Inl (AssertionError ''Traversal did not reach every vertex exactly once''))))"

section \<open>Injectors and the manager\<close>

datatype ('o, 'c) node = Obj 'o | Cls 'c

record 'c injector =
  wants :: "'c list"
  provides :: "'c list"

record ('o, 'c) manager =
  deps :: "('c \<times> string) list"
  injectors :: "('o \<times> 'c injector) list"

definition empty_injector :: "'c injector" where
  "empty_injector = \<lparr>wants = [], provides = []\<rparr>"

definition manager_init :: "('c \<times> string) list \<Rightarrow> ('o, 'c) manager" where
  "manager_init ds = \<lparr>deps = dupdate [] ds, injectors = []\<rparr>"

definition for_instance :: "'o \<Rightarrow> ('o, 'c) manager \<Rightarrow> 'c injector \<times> ('o, 'c) manager" where
  "for_instance obj m =
     (dget_or (injectors m) obj empty_injector,
      m\<lparr>injectors := dsetdefault obj empty_injector (injectors m)\<rparr>)"

definition want :: "'o \<Rightarrow> 'c \<Rightarrow> ('o, 'c) manager \<Rightarrow> ('o, 'c) manager \<times> string res" where
  "want obj cls m =
     (let (inj, m1) = for_instance obj m
      in (m1\<lparr>injectors := dset obj (inj\<lparr>wants := List.insert cls (wants inj)\<rparr>) (injectors m1)\<rparr>,
          case dget (deps m) cls of None \<Rightarrow> Inl (KeyError ''deps'') | Some d \<Rightarrow> Inr d))"

definition provide :: "'o \<Rightarrow> 'c \<Rightarrow> ('o, 'c) manager \<Rightarrow> ('o, 'c) manager \<times> string res" where
  "provide obj cls m =
     (let (inj, m1) = for_instance obj m
      in (m1\<lparr>injectors := dset obj (inj\<lparr>provides := List.insert cls (provides inj)\<rparr>) (injectors m1)\<rparr>,
          case dget (deps m) cls of None \<Rightarrow> Inl (KeyError ''deps'') | Some d \<Rightarrow> Inr d))"

definition connect_injector ::
  "'o \<times> 'c injector \<Rightarrow> ('o, 'c) node graph \<Rightarrow> ('o, 'c) node graph" where
  "connect_injector oi g =
     (let (obj, inj) = oi;
          g1 = fold (\<lambda>cls. connect (Obj obj) (Cls cls)) (provides inj) g
      in fold (\<lambda>cls. connect (Cls cls) (Obj obj)) (wants inj) g1)"

definition dep_graph :: "('o, 'c) manager \<Rightarrow> ('o, 'c) node graph" where
  "dep_graph m = fold connect_injector (injectors m) []"

definition sorted_watt_keys :: "('o, 'c) manager \<Rightarrow> string list res" where
  "sorted_watt_keys m =
     rbind (traverse (dep_graph m))
       (\<lambda>objs. Inr (List.map_filter
          (\<lambda>n. case n of Obj obj \<Rightarrow> None | Cls cls \<Rightarrow> dget (deps m) cls) objs))"

section \<open>Well-formed graphs\<close>

definition edge :: "'a graph \<Rightarrow> 'a \<Rightarrow> 'a \<Rightarrow> bool" where
  "edge g a b \<longleftrightarrow> b \<in> set (out_of g a)"

definition graph_wf :: "'a graph \<Rightarrow> bool" where
  "graph_wf g \<longleftrightarrow> dwf g \<and>
     (\<forall>a. distinct (out_of g a)) \<and>
     (\<forall>a b. edge g a b \<longrightarrow> dhas g b) \<and>
     (\<forall>b. count_in g b = int (card {a. edge g a b}))"

definition cyclic_graph :: "'a graph \<Rightarrow> bool" where
  "cyclic_graph g \<longleftrightarrow> (\<exists>a. (edge g)\<^sup>+\<^sup>+ a a)"

definition precedes :: "'a list \<Rightarrow> 'a \<Rightarrow> 'a \<Rightarrow> bool" where
  "precedes xs a b \<longleftrightarrow> (\<exists>us vs ws. xs = us @ a # vs @ b # ws)"

lemma edge_has: "edge g a b \<Longrightarrow> dhas g a"
  by (cases "dget g a") (simp_all add: edge_def out_of_def dhas_def)

lemma finite_preds [simp]: "finite {a. edge g a b}"
  by (rule finite_subset [of _ "fst ` set g"]) (auto dest: edge_has simp: dhas_iff)

lemma finite_preds_not [simp]: "finite {a. edge g a b \<and> P a}"
  by (rule finite_subset [OF _ finite_preds [of g b]]) auto

lemma out_of_touch [simp]: "out_of (touch a g) b = out_of g b"
  by (auto simp: out_of_def touch_def not_dhas split: option.split)

lemma count_in_touch [simp]: "count_in (touch a g) b = count_in g b"
  by (auto simp: count_in_def touch_def not_dhas split: option.split)

lemma dhas_touch [simp]: "dhas (touch a g) b \<longleftrightarrow> a = b \<or> dhas g b"
  by (auto simp: dhas_def touch_def dsetdefault_def)

lemma out_of_dset [simp]: "out_of (dset a v g) b = (if a = b then out v else out_of g b)"
  by (simp add: out_of_def)

lemma count_in_dset [simp]: "count_in (dset a v g) b = (if a = b then in_count v else count_in g b)"
  by (simp add: count_in_def)

lemma edge_connect: "edge (connect a b g) x y \<longleftrightarrow> edge g x y \<or> x = a \<and> y = b"
  by (auto simp: edge_def connect_def Let_def)

lemma dhas_connect: "dhas (connect a b g) x \<longleftrightarrow> x = a \<or> dhas g x \<or> x = b \<and> \<not> edge g a b"
  by (auto simp: edge_def connect_def Let_def)

lemma count_in_connect:
  "count_in (connect a b g) y = count_in g y + (if y = b \<and> \<not> edge g a b then 1 else 0)"
  by (auto simp: edge_def connect_def Let_def)

lemma graph_wf_Nil [simp]: "graph_wf []"
  by (simp add: graph_wf_def edge_def out_of_def count_in_def)

lemma graph_wf_connect:
  assumes "graph_wf g"
  shows "graph_wf (connect a b g)"
  unfolding graph_wf_def
proof (intro conjI allI impI)
  show "dwf (connect a b g)"
    using assms by (simp add: graph_wf_def connect_def Let_def touch_def)
  show "distinct (out_of (connect a b g) x)" for x
    using assms by (auto simp: graph_wf_def connect_def Let_def)
  show "dhas (connect a b g) y" if "edge (connect a b g) x y" for x y
    using assms that by (auto simp: graph_wf_def edge_connect dhas_connect)
  show "count_in (connect a b g) y = int (card {x. edge (connect a b g) x y})" for y
  proof (cases "y = b \<and> \<not> edge g a b")
    case True
    then have "{x. edge (connect a b g) x y} = insert a {x. edge g x b}"
      by (auto simp: edge_connect)
    moreover have "a \<notin> {x. edge g x b}" using True by simp
    ultimately show ?thesis
      using assms True by (simp add: count_in_connect graph_wf_def)
  next
    case False
    then have "{x. edge (connect a b g) x y} = {x. edge g x y}"
      by (auto simp: edge_connect)
    then show ?thesis
      using assms False by (auto simp: count_in_connect graph_wf_def)
  qed
qed

section \<open>Kahn's algorithm\<close>

lemma map_fst_dset: "dhas d k \<Longrightarrow> map fst (dset k v d) = map fst d"
  by (induction d) (auto simp: dset_def)

lemma relax_effect:
  assumes "distinct os" and "\<And>x. x \<in> set os \<Longrightarrow> dhas ic x"
  shows "\<exists>ic'. relax os ic q = Inr (ic', q @ filter (\<lambda>x. dget ic x = Some 1) os) \<and>
    map fst ic' = map fst ic \<and>
    (\<forall>k. dget ic' k = (if k \<in> set os then map_option (\<lambda>n. n - 1) (dget ic k) else dget ic k))"
  using assms
proof (induction os arbitrary: ic q)
  case (Cons x os)
  have "dhas ic x" using Cons.prems(2) by simp
  then obtain n where n: "dget ic x = Some n" by (rule dhasE)
  have "filter (\<lambda>y. dget (dset x (n - 1) ic) y = Some 1) os = filter (\<lambda>y. dget ic y = Some 1) os"
    using Cons.prems(1) by (auto intro: filter_cong)
  moreover have pre: "distinct os" "\<And>y. y \<in> set os \<Longrightarrow> dhas (dset x (n - 1) ic) y"
    using Cons.prems by auto
  moreover obtain ic' where
    "relax os (dset x (n - 1) ic) (if n - 1 = 0 then q @ [x] else q) =
       Inr (ic', (if n - 1 = 0 then q @ [x] else q)
                 @ filter (\<lambda>y. dget (dset x (n - 1) ic) y = Some 1) os)"
    "map fst ic' = map fst (dset x (n - 1) ic)"
    "\<And>k. dget ic' k = (if k \<in> set os then map_option (\<lambda>n. n - 1) (dget (dset x (n - 1) ic) k)
                       else dget (dset x (n - 1) ic) k)"
    using Cons.IH [OF pre, of "if n - 1 = 0 then q @ [x] else q"] by blast
  moreover have "map fst (dset x (n - 1) ic) = map fst ic"
    using n by (simp add: map_fst_dset dhasI)
  ultimately show ?case
    using n Cons.prems(1) by auto
qed simp

definition pending :: "'a graph \<Rightarrow> 'a list \<Rightarrow> 'a \<Rightarrow> 'a set" where
  "pending g ys v = {a. edge g a v \<and> a \<notin> set ys}"

definition topo :: "'a graph \<Rightarrow> 'a list \<Rightarrow> bool" where
  "topo g ys \<longleftrightarrow> (\<forall>us b ws. ys = us @ b # ws \<longrightarrow> (\<forall>a. edge g a b \<longrightarrow> a \<in> set us))"

definition kahn_inv :: "'a graph \<Rightarrow> 'a list \<Rightarrow> ('a \<times> int) list \<Rightarrow> 'a list \<Rightarrow> bool" where
  "kahn_inv g q ic ys \<longleftrightarrow>
     map fst ic = map fst g \<and> distinct (ys @ q) \<and>
     (\<forall>v. dhas g v \<longrightarrow> dget ic v = Some (int (card (pending g ys v)))) \<and>
     (\<forall>v. v \<in> set (ys @ q) \<longleftrightarrow> dhas g v \<and> pending g ys v = {}) \<and>
     topo g ys"

lemma finite_pending [simp]: "finite (pending g ys v)"
  by (simp add: pending_def)

lemma pending_snoc: "pending g (ys @ [cur]) v = pending g ys v - {cur}"
  by (auto simp: pending_def)

lemma topo_snoc: "topo g ys \<Longrightarrow> pending g ys cur = {} \<Longrightarrow> topo g (ys @ [cur])"
  unfolding topo_def
proof (intro allI impI)
  fix us b ws a
  assume t: "\<forall>us b ws. ys = us @ b # ws \<longrightarrow> (\<forall>a. edge g a b \<longrightarrow> a \<in> set us)"
    and p: "pending g ys cur = {}" and split: "ys @ [cur] = us @ b # ws" and e: "edge g a b"
  show "a \<in> set us"
  proof (cases ws rule: rev_cases)
    case Nil
    with split have "us = ys" and "b = cur" by simp_all
    with p e show ?thesis by (auto simp: pending_def)
  next
    case (snoc ws' w)
    with split have "ys = us @ b # ws'" by simp
    with t e show ?thesis by blast
  qed
qed

lemma kahn_step:
  assumes wf: "graph_wf g" and inv: "kahn_inv g (cur # q) ic ys"
  shows "\<exists>ic' q'. relax (out_of g cur) ic q = Inr (ic', q') \<and> kahn_inv g q' ic' (ys @ [cur])"
proof -
  have cur: "dhas g cur" "pending g ys cur = {}" "cur \<notin> set ys"
    using inv by (auto simp: kahn_inv_def)
  have keys: "dhas ic v \<longleftrightarrow> dhas g v" for v
    using inv by (metis dhas_iff kahn_inv_def list.set_map)
  have ic: "dget ic v = Some (int (card (pending g ys v)))" if "dhas g v" for v
    using inv that by (simp add: kahn_inv_def)
  have out: "distinct (out_of g cur)" "\<And>x. x \<in> set (out_of g cur) \<Longrightarrow> dhas g x"
    using wf by (auto simp: graph_wf_def edge_def)
  let ?new = "filter (\<lambda>x. dget ic x = Some 1) (out_of g cur)"
  obtain ic' where r: "relax (out_of g cur) ic q = Inr (ic', q @ ?new)"
      "map fst ic' = map fst ic"
      "\<And>k. dget ic' k = (if k \<in> set (out_of g cur) then map_option (\<lambda>n. n - 1) (dget ic k) else dget ic k)"
    using relax_effect [OF out(1), of ic q] out(2) keys by blast
  have mem: "v \<in> set ys \<or> v = cur \<or> v \<in> set q \<longleftrightarrow> dhas g v \<and> pending g ys v = {}" for v
    using inv by (auto simp: kahn_inv_def)
  have in_pend: "cur \<in> pending g ys v \<longleftrightarrow> v \<in> set (out_of g cur)" for v
    using cur by (auto simp: pending_def edge_def)
  have new: "v \<in> set ?new \<longleftrightarrow> dhas g v \<and> pending g ys v = {cur}" for v
  proof
    assume v: "v \<in> set ?new"
    then have "card (pending g ys v) = 1" and "cur \<in> pending g ys v"
      using ic out(2) in_pend by auto
    then have "pending g ys v = {cur}"
      by (metis card_1_singletonE singletonD)
    with v out(2) show "dhas g v \<and> pending g ys v = {cur}" by auto
  next
    assume "dhas g v \<and> pending g ys v = {cur}"
    then show "v \<in> set ?new"
      using ic in_pend by auto
  qed
  have "dget ic' v = Some (int (card (pending g (ys @ [cur]) v)))" if v: "dhas g v" for v
  proof (cases "v \<in> set (out_of g cur)")
    case True
    then have "cur \<in> pending g ys v" by (simp add: in_pend)
    then have "0 < card (pending g ys v)" by (auto simp: card_gt_0_iff)
    with True \<open>cur \<in> pending g ys v\<close> show ?thesis
      using ic [OF v] r(3) [of v] by (simp add: pending_snoc card_Diff_singleton of_nat_diff)
  next
    case False
    then have "pending g (ys @ [cur]) v = pending g ys v"
      using in_pend by (auto simp: pending_snoc)
    with False show ?thesis using ic [OF v] r(3) [of v] by simp
  qed
  moreover have "v \<in> set ((ys @ [cur]) @ q @ ?new) \<longleftrightarrow> dhas g v \<and> pending g (ys @ [cur]) v = {}" for v
  proof -
    have "pending g (ys @ [cur]) v = {} \<longleftrightarrow> pending g ys v = {} \<or> pending g ys v = {cur}"
      by (auto simp: pending_snoc)
    then show ?thesis using mem [of v] new [of v] by auto
  qed
  moreover have "distinct ((ys @ [cur]) @ q @ ?new)"
  proof -
    have "set (ys @ cur # q) \<inter> set ?new = {}"
      using mem new by fastforce
    moreover have "distinct (ys @ cur # q)" using inv by (simp add: kahn_inv_def)
    ultimately show ?thesis using out(1) by auto
  qed
  moreover have "topo g (ys @ [cur])"
    using inv cur(2) by (auto simp: kahn_inv_def intro: topo_snoc)
  moreover have "map fst ic' = map fst g"
    using r(2) inv by (simp add: kahn_inv_def)
  ultimately have "kahn_inv g (q @ ?new) ic' (ys @ [cur])"
    unfolding kahn_inv_def by blast
  with r(1) show ?thesis by blast
qed

lemma kahn_result:
  assumes "graph_wf g" and "kahn_inv g q ic ys"
  shows "\<exists>ys' ic'. kahn g q ic ys = Inr (ys', ic') \<and> kahn_inv g [] ic' ys'"
  using assms
proof (induction g q ic ys rule: kahn.induct)
  case (2 g cur q ic ys)
  obtain ic' q' where r: "relax (out_of g cur) ic q = Inr (ic', q')"
      "kahn_inv g q' ic' (ys @ [cur])"
    using kahn_step [OF "2.prems"] by blast
  then show ?case
    using "2.IH" [OF r(1) refl "2.prems"(1) r(2)] by simp
qed auto

lemma kahn_inv_start:
  assumes "graph_wf g"
  defines "ic \<equiv> map (\<lambda>(obj, v). (obj, in_count v)) g"
  shows "kahn_inv g (map fst (filter (\<lambda>(obj, n). n = 0) ic)) ic []"
proof -
  have ic: "dget ic v = map_option in_count (dget g v)" for v
    unfolding ic_def by (induction g) auto
  have keys: "map fst ic = map fst g"
    by (simp add: ic_def case_prod_beta comp_def)
  have dist: "distinct (map fst ic)"
    using assms(1) keys by (simp add: graph_wf_def dwf_def)
  have card: "dget ic v = Some (int (card (pending g [] v)))" if h: "dhas g v" for v
  proof -
    from h obtain x where "dget g v = Some x" by (rule dhasE)
    moreover have "count_in g v = int (card {a. edge g a v})"
      using assms(1) by (simp add: graph_wf_def)
    ultimately show ?thesis by (simp add: ic count_in_def pending_def)
  qed
  have "v \<in> set (map fst (filter (\<lambda>(obj, n). n = 0) ic)) \<longleftrightarrow> dget ic v = Some 0" for v
    using dist by (force simp: map_of_eq_Some_iff)
  moreover have "dget ic v = Some 0 \<longleftrightarrow> dhas g v \<and> pending g [] v = {}" for v
    using card [of v] keys by (auto simp: ic dhas_def)
  moreover have "distinct (map fst (filter (\<lambda>(obj, n). n = 0) ic))"
    using dist by (simp add: distinct_map_filter)
  ultimately show ?thesis
    using card keys by (simp add: kahn_inv_def topo_def)
qed

lemma kahn_inv_end:
  assumes inv: "kahn_inv g [] ic ys" and wf: "graph_wf g"
  shows "sum_list (map snd ic) = 0 \<longleftrightarrow> set ys = fst ` set g"
proof -
  have keys: "map fst ic = map fst g" and dist: "distinct (map fst ic)"
    using inv wf by (simp_all add: kahn_inv_def graph_wf_def dwf_def)
  have val: "n = int (card (pending g ys v))" if "(v, n) \<in> set ic" for v n
  proof -
    have "dget ic v = Some n" using that dist by simp
    moreover have "dhas g v" using that keys by (metis dhas_iff image_eqI fst_conv list.set_map)
    ultimately show ?thesis using inv by (simp add: kahn_inv_def)
  qed
  have "0 \<le> n" if n: "n \<in> set (map snd ic)" for n
  proof -
    from n obtain v where "(v, n) \<in> set ic" by auto
    from val [OF this] show ?thesis by simp
  qed
  then have "sum_list (map snd ic) = 0 \<longleftrightarrow> (\<forall>n \<in> set (map snd ic). n = 0)"
    by (rule sum_list_nonneg_eq_0_iff)
  also have "\<dots> \<longleftrightarrow> (\<forall>v. dhas g v \<longrightarrow> pending g ys v = {})"
  proof -
    have "dhas g v \<longleftrightarrow> (\<exists>n. (v, n) \<in> set ic)" for v
      using keys by (metis dhas_iff fst_conv image_iff list.set_map prod.collapse)
    then show ?thesis using val by fastforce
  qed
  also have "\<dots> \<longleftrightarrow> set ys = fst ` set g"
    using inv unfolding kahn_inv_def dhas_iff by auto
  finally show ?thesis .
qed

lemma no_source_cyclic:
  assumes "finite U" "U \<noteq> {}" and "\<And>v. v \<in> U \<Longrightarrow> \<exists>a \<in> U. R a v"
  shows "\<exists>c. R\<^sup>+\<^sup>+ c c"
proof (rule ccontr)
  assume no: "\<nexists>c. R\<^sup>+\<^sup>+ c c"
  let ?r = "{(a, v). a \<in> U \<and> v \<in> U \<and> R a v}"
  have "finite ?r"
    by (rule finite_subset [of _ "U \<times> U"]) (use assms(1) in auto)
  moreover have "R\<^sup>+\<^sup>+ a b" if "(a, b) \<in> ?r\<^sup>+" for a b
    using that by (induction rule: trancl.induct) (auto intro: tranclp.intros)
  then have "acyclic ?r"
    using no by (auto simp: acyclic_def)
  ultimately have "wf ?r" by (rule finite_acyclic_wf)
  then obtain v where "v \<in> U" "\<And>a. (a, v) \<in> ?r \<Longrightarrow> a \<notin> U"
    using assms(2) by (meson all_not_in_conv wfE_min)
  with assms(3) show False by blast
qed

lemma topo_trancl:
  assumes "topo g ys" and "(edge g)\<^sup>+\<^sup>+ a b"
  shows "ys = us @ b # ws \<Longrightarrow> a \<in> set us"
  using assms(2)
proof (induction arbitrary: us ws rule: tranclp_induct)
  case (base b)
  then show ?case using assms(1) by (auto simp: topo_def)
next
  case (step b c)
  then have "b \<in> set us" using assms(1) by (auto simp: topo_def)
  then obtain us1 us2 where "us = us1 @ b # us2" by (meson split_list)
  with step.prems step.IH [of us1 "us2 @ c # ws"] show ?case by simp
qed

lemma traverse_spec:
  assumes wf: "graph_wf g"
  shows "(\<exists>ys. traverse g = Inr ys \<and> distinct ys \<and> set ys = fst ` set g \<and> topo g ys \<and> \<not> cyclic_graph g)
    \<or> (\<exists>e. traverse g = Inl e \<and> cyclic_graph g)"
proof (cases "g = []")
  case True
  have "\<not> edge [] a b" for a b :: 'a by (simp add: edge_def out_of_def)
  then have "\<not> cyclic_graph ([] :: 'a graph)"
    by (metis cyclic_graph_def tranclpD)
  with True show ?thesis by (simp add: traverse_def topo_def)
next
  case False
  let ?ic = "map (\<lambda>(obj, v). (obj, in_count v)) g"
  let ?q = "map fst (filter (\<lambda>(obj, n). n = 0) ?ic)"
  obtain ys ic where k: "kahn g ?q ?ic [] = Inr (ys, ic)" "kahn_inv g [] ic ys"
    using kahn_result [OF wf kahn_inv_start [OF wf]] by blast
  have dist: "distinct ys" and top: "topo g ys"
    using k(2) by (auto simp: kahn_inv_def)
  have sub: "set ys \<subseteq> fst ` set g"
    using k(2) by (auto simp: kahn_inv_def dhas_iff)
  show ?thesis
  proof (cases "set ys = fst ` set g")
    case True
    have "?q \<noteq> []"
    proof
      assume "?q = []"
      then have "ys = []" using k(1) by simp
      with True False show False by simp
    qed
    moreover have "\<not> cyclic_graph g"
    proof
      assume "cyclic_graph g"
      then obtain a where a: "(edge g)\<^sup>+\<^sup>+ a a" by (auto simp: cyclic_graph_def)
      then have "a \<in> set ys" using True by (metis dhas_iff edge_has tranclpD)
      then obtain us ws where "ys = us @ a # ws" by (meson split_list)
      with topo_trancl [OF top a this] dist show False by simp
    qed
    moreover have "sum_list (map snd ic) = 0"
      using kahn_inv_end [OF k(2) wf] True by simp
    ultimately show ?thesis
      using k(1) False True dist top by (simp add: traverse_def Let_def)
  next
    case part: False
    let ?U = "fst ` set g - set ys"
    have "\<exists>a \<in> ?U. edge g a v" if "v \<in> ?U" for v
    proof -
      have "pending g ys v \<noteq> {}"
        using k(2) that by (auto simp: kahn_inv_def dhas_iff)
      then obtain a where "edge g a v" "a \<notin> set ys" by (auto simp: pending_def)
      then show ?thesis by (metis DiffI dhas_iff edge_has)
    qed
    moreover have "finite ?U" and "?U \<noteq> {}" using part sub by auto
    ultimately have "cyclic_graph g"
      unfolding cyclic_graph_def by (metis no_source_cyclic)
    moreover have "sum_list (map snd ic) \<noteq> 0"
      using kahn_inv_end [OF k(2) wf] part by simp
    ultimately show ?thesis
      using k(1) False by (simp add: traverse_def Let_def)
  qed
qed

section \<open>Order in the result\<close>

lemma precedesI: "xs = us @ a # vs @ b # ws \<Longrightarrow> precedes xs a b"
  by (auto simp: precedes_def)

lemma precedes_topo:
  assumes "topo g ys" and "edge g a b" and "b \<in> set ys"
  shows "precedes ys a b"
proof -
  from assms(3) obtain us ws where ys: "ys = us @ b # ws" by (meson split_list)
  with assms(1,2) have "a \<in> set us" by (auto simp: topo_def)
  then obtain us1 us2 where "us = us1 @ a # us2" by (meson split_list)
  with ys show ?thesis by (auto intro: precedesI)
qed

lemma precedes_trans:
  assumes "distinct xs" and "precedes xs a b" and "precedes xs b c"
  shows "precedes xs a c"
proof -
  obtain us vs ws where 1: "xs = us @ a # vs @ b # ws"
    using assms(2) by (auto simp: precedes_def)
  obtain ps qs rs where 2: "xs = ps @ b # qs @ c # rs"
    using assms(3) by (auto simp: precedes_def)
  have "us @ a # vs = ps \<and> ws = qs @ c # rs"
    by (rule append_Cons_eq_iff [THEN iffD1, of b "us @ a # vs" ws])
      (use assms(1) 1 2 in auto)
  with 1 show ?thesis
    by (intro precedesI [of xs us a "vs @ b # qs" c rs]) simp
qed

lemma set_map_filter_iff: "y \<in> set (List.map_filter f xs) \<longleftrightarrow> (\<exists>x \<in> set xs. f x = Some y)"
  by (force simp: List.map_filter_def)

lemma precedes_map_filter:
  assumes "precedes xs a b" and "f a = Some a'" and "f b = Some b'"
  shows "precedes (List.map_filter f xs) a' b'"
proof -
  from assms(1) obtain us vs ws where "xs = us @ a # vs @ b # ws"
    by (auto simp: precedes_def)
  then have "List.map_filter f xs =
      List.map_filter f us @ a' # List.map_filter f vs @ b' # List.map_filter f ws"
    using assms(2,3) by (simp add: List.map_filter_def)
  then show ?thesis by (rule precedesI)
qed

section \<open>Graphs built by connect\<close>

lemma graph_wf_build: "graph_wf g \<Longrightarrow> graph_wf (fold (\<lambda>(a, b). connect a b) es g)"
proof (induction es arbitrary: g)
  case (Cons e es)
  then show ?case by (cases e) (simp add: graph_wf_connect)
qed simp

lemma edge_build:
  "edge (fold (\<lambda>(a, b). connect a b) es g) x y \<longleftrightarrow> edge g x y \<or> (x, y) \<in> set es"
proof (induction es arbitrary: g)
  case (Cons e es)
  then show ?case by (cases e) (auto simp: edge_connect)
qed simp

lemma dhas_build:
  assumes "graph_wf g"
  shows "dhas (fold (\<lambda>(a, b). connect a b) es g) x \<longleftrightarrow>
    dhas g x \<or> x \<in> fst ` set es \<or> x \<in> snd ` set es"
  using assms
proof (induction es arbitrary: g)
  case (Cons e es)
  obtain a b where e: "e = (a, b)" by (cases e)
  have "edge g a b \<Longrightarrow> dhas g b"
    using Cons.prems by (simp add: graph_wf_def)
  then show ?case
    using Cons.IH [OF graph_wf_connect [OF Cons.prems], of a b] by (auto simp: e dhas_connect)
qed simp

lemma cyclic_build:
  "cyclic_graph (fold (\<lambda>(a, b). connect a b) es []) \<longleftrightarrow> \<not> acyclic (set es)"
proof -
  have "edge (fold (\<lambda>(a, b). connect a b) es []) = (\<lambda>x y. (x, y) \<in> set es)"
    by (intro ext) (simp add: edge_build, simp add: edge_def out_of_def)
  then show ?thesis
    by (simp add: cyclic_graph_def acyclic_def tranclp_trancl_eq)
qed

definition watt_edges :: "('o \<times> 'c injector) list \<Rightarrow> (('o, 'c) node \<times> ('o, 'c) node) list" where
  "watt_edges is =
     concat (map (\<lambda>(obj, inj). map (\<lambda>c. (Obj obj, Cls c)) (provides inj) @
                               map (\<lambda>c. (Cls c, Obj obj)) (wants inj)) is)"

lemma fold_connect_map:
  "fold (\<lambda>c. connect (f c) (h c)) cs g = fold (\<lambda>(a, b). connect a b) (map (\<lambda>c. (f c, h c)) cs) g"
  by (induction cs arbitrary: g) auto

lemma dep_graph_build:
  "fold connect_injector is g = fold (\<lambda>(a, b). connect a b) (watt_edges is) g"
proof (induction "is" arbitrary: g)
  case (Cons oi "is")
  then show ?case
    by (cases oi) (simp add: watt_edges_def connect_injector_def fold_connect_map)
qed (simp add: watt_edges_def)

lemma watt_edges_mem:
  "(obj, ij) \<in> set is \<Longrightarrow> c \<in> set (wants ij) \<Longrightarrow> (Cls c, Obj obj) \<in> set (watt_edges is)"
  "(obj, ij) \<in> set is \<Longrightarrow> d \<in> set (provides ij) \<Longrightarrow> (Obj obj, Cls d) \<in> set (watt_edges is)"
  by (force simp: watt_edges_def)+

lemma class_in_edges:
  "Cls c \<in> fst ` set (watt_edges is) \<union> snd ` set (watt_edges is) \<longleftrightarrow>
     (\<exists>(obj, ij) \<in> set is. c \<in> set (wants ij) \<or> c \<in> set (provides ij))"
proof (induction "is")
  case (Cons oi "is")
  have "watt_edges (oi # is) = watt_edges [oi] @ watt_edges is"
    by (simp add: watt_edges_def)
  moreover have "Cls c \<in> fst ` set (watt_edges [oi]) \<union> snd ` set (watt_edges [oi]) \<longleftrightarrow>
      c \<in> set (wants (snd oi)) \<or> c \<in> set (provides (snd oi))"
    by (cases oi) (force simp: watt_edges_def)
  ultimately show ?case using Cons.IH by (cases oi) auto
qed (simp add: watt_edges_def)

definition known_class :: "('c \<times> string) list \<Rightarrow> ('o, 'c) node \<Rightarrow> 'c option" where
  "known_class ds n = (case n of Obj obj \<Rightarrow> None | Cls cls \<Rightarrow> if dhas ds cls then Some cls else None)"

lemma known_class_simps [simp]:
  "known_class ds (Obj obj) = None"
  "known_class ds (Cls cls) = (if dhas ds cls then Some cls else None)"
  by (simp_all add: known_class_def)

lemma known_class_eq [simp]: "known_class ds n = Some c \<longleftrightarrow> n = Cls c \<and> dhas ds c"
  by (auto simp: known_class_def split: node.split)

lemma known_classes:
  "List.map_filter (\<lambda>n. case n of Obj obj \<Rightarrow> None | Cls cls \<Rightarrow> dget ds cls) ys =
     map (\<lambda>c. the (dget ds c)) (List.map_filter (known_class ds) ys)"
proof (induction ys)
  case (Cons y ys)
  then show ?case
    by (cases y) (auto simp: List.map_filter_def known_class_def not_dhas elim: dhasE)
qed (simp add: List.map_filter_def)

lemma distinct_classes: "distinct ys \<Longrightarrow> distinct (List.map_filter (known_class ds) ys)"
proof (induction ys)
  case (Cons y ys)
  then have "distinct (List.map_filter (known_class ds) ys)" and "y \<notin> set ys" by simp_all
  then show ?case
    by (cases y) (auto simp: set_map_filter_iff)
qed (simp add: List.map_filter_def)

lemma traverse_build:
  assumes "traverse (fold (\<lambda>(a, b). connect a b) es []) = Inr ys"
  shows "distinct ys" and "set ys = fst ` set es \<union> snd ` set es"
    and "(a, b) \<in> set es \<Longrightarrow> precedes ys a b"
proof -
  let ?g = "fold (\<lambda>(a, b). connect a b) es []"
  have wf: "graph_wf ?g" by (simp add: graph_wf_build)
  have ys: "distinct ys" "set ys = fst ` set ?g" "topo ?g ys"
    using traverse_spec [OF wf] assms by auto
  show "distinct ys" by (rule ys(1))
  show set: "set ys = fst ` set es \<union> snd ` set es"
    unfolding ys(2) using dhas_build [of "[]" es] by (intro set_eqI) (simp add: dhas_iff)
  assume "(a, b) \<in> set es"
  then show "precedes ys a b"
    using ys(3) set by (intro precedes_topo [of ?g]) (force simp: edge_build)+
qed

section \<open>Properties\<close>

text \<open>
  C25: on every graph built by \<open>connect\<close> calls, in whatever order the successor sets are
  iterated, \<open>traverse\<close> returns if and only if the connections are acyclic; otherwise it
  raises (\<open>ValueError\<close> with no root at all, the final assertion when a cycle hides behind
  roots).
\<close>

theorem traverse_returns_iff_acyclic:
  "(\<exists>ys. traverse (fold (\<lambda>(a, b). connect a b) es []) = Inr ys) \<longleftrightarrow> acyclic (set es)"
  using traverse_spec [OF graph_wf_build [OF graph_wf_Nil], of es] cyclic_build [of es] by auto

text \<open>
  C27: when \<open>traverse\<close> returns, it yields every connected item exactly once and every item
  after all the items connected to it.
\<close>

theorem traverse_topological:
  assumes "traverse (fold (\<lambda>(a, b). connect a b) es []) = Inr ys"
  shows "distinct ys \<and> set ys = fst ` set es \<union> snd ` set es \<and>
    (\<forall>(a, b) \<in> set es. precedes ys a b)"
  using traverse_build [OF assms] by blast

theorem traverse_topological_witness:
  "traverse (fold (\<lambda>(a, b). connect a b) [(1, 2), (1, 3), (2, 4), (3, 4 :: nat)] []) = Inr [1, 2, 3, 4]
   \<and> precedes [1, 2, 3, 4 :: nat] 3 4"
proof -
  have r: "traverse (fold (\<lambda>(a, b). connect a b) [(1, 2), (1, 3), (2, 4), (3, 4 :: nat)] []) = Inr [1, 2, 3, 4]"
    by code_simp
  from traverse_topological [OF r] r show ?thesis by simp
qed

text \<open>
  C28: if the Watt keys can be ordered at all, a dependency that a processor wants comes
  before every dependency the same processor provides, each registered dependency is
  listed at most once, and exactly the registered dependencies that some processor wants or
  provides are listed.
\<close>

theorem watt_keys_respect_processors:
  assumes "sorted_watt_keys m = Inr ks"
  shows "\<exists>cs. ks = map (\<lambda>c. the (dget (deps m) c)) cs \<and> distinct cs \<and>
    set cs = {c. dhas (deps m) c \<and>
       (\<exists>(obj, ij) \<in> set (injectors m). c \<in> set (wants ij) \<or> c \<in> set (provides ij))} \<and>
    (\<forall>(obj, ij) \<in> set (injectors m). \<forall>c \<in> set (wants ij). \<forall>d \<in> set (provides ij).
       dhas (deps m) c \<longrightarrow> dhas (deps m) d \<longrightarrow> precedes cs c d)"
proof -
  let ?es = "watt_edges (injectors m)"
  obtain ys where "traverse (dep_graph m) = Inr ys"
      and ks: "ks = List.map_filter (\<lambda>n. case n of Obj obj \<Rightarrow> None | Cls cls \<Rightarrow> dget (deps m) cls) ys"
    using assms by (auto simp: sorted_watt_keys_def res_simps)
  then have t: "traverse (fold (\<lambda>(a, b). connect a b) ?es []) = Inr ys"
    by (simp add: dep_graph_def dep_graph_build)
  note top = traverse_build [OF t]
  let ?cs = "List.map_filter (known_class (deps m)) ys"
  have "ks = map (\<lambda>c. the (dget (deps m) c)) ?cs"
    unfolding ks by (rule known_classes)
  moreover have "distinct ?cs"
    using top(1) by (rule distinct_classes)
  moreover have "set ?cs = {c. dhas (deps m) c \<and>
       (\<exists>(obj, ij) \<in> set (injectors m). c \<in> set (wants ij) \<or> c \<in> set (provides ij))}"
  proof -
    have "Cls c \<in> set ys \<longleftrightarrow>
        (\<exists>(obj, ij) \<in> set (injectors m). c \<in> set (wants ij) \<or> c \<in> set (provides ij))" for c
      unfolding top(2) by (rule class_in_edges)
    then have "c \<in> set ?cs \<longleftrightarrow> dhas (deps m) c \<and>
        (\<exists>(obj, ij) \<in> set (injectors m). c \<in> set (wants ij) \<or> c \<in> set (provides ij))" for c
      by (simp add: set_map_filter_iff conj_commute)
    then show ?thesis by (intro set_eqI) simp
  qed
  moreover have "precedes ?cs c d"
    if "(obj, ij) \<in> set (injectors m)" "c \<in> set (wants ij)" "d \<in> set (provides ij)"
      "dhas (deps m) c" "dhas (deps m) d" for obj ij c d
  proof -
    have "precedes ys (Cls c) (Obj obj)" "precedes ys (Obj obj) (Cls d)"
      using watt_edges_mem [OF that(1)] that(2,3) by (blast intro: top(3))+
    then have "precedes ys (Cls c) (Cls d)"
      by (rule precedes_trans [OF top(1)])
    then show ?thesis using that(4,5) by (intro precedes_map_filter) auto
  qed
  ultimately show ?thesis by blast
qed

definition demo_manager :: "(nat, string) manager" where
  "demo_manager = fst (provide 0 ''B'' (fst (want 0 ''A''
     (manager_init [(''B'', ''service''), (''A'', ''secret'')]))))"

theorem watt_keys_respect_processors_witness:
  "\<exists>cs. sorted_watt_keys demo_manager = Inr [''secret'', ''service''] \<and>
     [''secret'', ''service''] = map (\<lambda>c. the (dget (deps demo_manager) c)) cs \<and>
     precedes cs ''A'' ''B''"
proof -
  have r: "sorted_watt_keys demo_manager = Inr [''secret'', ''service'']"
    by code_simp
  have m: "injectors demo_manager = [(0, \<lparr>wants = [''A''], provides = [''B'']\<rparr>)]"
      "dhas (deps demo_manager) ''A''" "dhas (deps demo_manager) ''B''"
    by code_simp+
  from watt_keys_respect_processors [OF r] r m show ?thesis by force
qed

end
