(* ===== verification/Globs.thy ===== *)
theory Globs
  imports Utils
begin

text \<open>
  Host globs and label selectors, \<open>ir/irutils.py\<close>. \<open>hostglob_matches\<close> decides whether some
  hostname can match two DNS globs; \<open>selector_matches\<close> decides Kubernetes label selectors,
  strictly or (by an environment variable) loosely. \<open>IndexError\<close> is the result of indexing an
  empty glob.

  The lemmas: against the semantics of globs (\<open>glob_denotes\<close>), \<open>hostglob_matches\<close> is exact; it
  is symmetric; the strict selector is containment of the selector in the labels.
\<close>

section \<open>Host globs\<close>

definition hostglob_matches_start :: "string \<Rightarrow> string \<Rightarrow> bool \<Rightarrow> bool" where
  "hostglob_matches_start g1 g2 g2start =
     (let g1match = tl g1;
          g2match = (if g2start then tl g2 else g2)
      in if length g1 > length g2match
         then (if \<not> g2start then False
               else (let g1match = tl g2; g2match = tl g1 in endswith g2match g1match))
         else endswith g2match g1match)"

definition hostglob_matches_end :: "string \<Rightarrow> string \<Rightarrow> bool \<Rightarrow> bool" where
  "hostglob_matches_end g1 g2 g2end =
     (let g1match = butlast g1;
          g2match = (if g2end then butlast g2 else g2)
      in if length g1 > length g2match
         then (if \<not> g2end then False
               else (let g1match = butlast g2; g2match = butlast g1 in startswith g2match g1match))
         else startswith g2match g1match)"

definition hostglob_wild :: "string \<Rightarrow> string \<Rightarrow> bool" where
  "hostglob_wild g1 g2 =
     (let g1start = (hd g1 = CHR ''*''); g1end = (last g1 = CHR ''*'');
          g2start = (hd g2 = CHR ''*''); g2end = (last g2 = CHR ''*'')
      in if g1start \<and> g1end \<or> g2start \<and> g2end then g1 = g2
         else if \<not> (g1start \<or> g1end \<or> g2start \<or> g2end) then False
         else if g1start \<and> g2end \<or> g2start \<and> g1end then True
         else if g1start then hostglob_matches_start g1 g2 g2start
         else if g2start then hostglob_matches_start g2 g1 g1start
         else if g1end then hostglob_matches_end g1 g2 g2end
         else if g2end then hostglob_matches_end g2 g1 g1end
         else False)"

definition hostglob_matches :: "string \<Rightarrow> string \<Rightarrow> bool res" where
  "hostglob_matches g1 g2 =
     (if g1 = g2 then Inr True
      else if g1 = ''*'' \<or> g2 = ''*'' then Inr True
      else if g1 = [] then Inl IndexError
      else if hd g1 = CHR ''.'' then Inr False
      else if g2 = [] then Inl IndexError
      else if hd g2 = CHR ''.'' then Inr False
      else Inr (hostglob_wild g1 g2))"

section \<open>Label selectors\<close>

definition disable_strict_selectors :: "(string \<Rightarrow> string option) \<Rightarrow> bool" where
  "disable_strict_selectors env = env_bool env ''DISABLE_STRICT_LABEL_SELECTORS'' ''false''"

fun any_label :: "string pydict \<Rightarrow> string pydict \<Rightarrow> bool" where
  "any_label labels [] = False"
| "any_label labels ((k, v) # match) = (if dget labels k = Some v then True else any_label labels match)"

fun all_labels :: "string pydict \<Rightarrow> string pydict \<Rightarrow> bool" where
  "all_labels labels [] = True"
| "all_labels labels ((k, v) # match) = (if dget labels k = Some v then all_labels labels match else False)"

definition selector_matches ::
  "(string \<Rightarrow> string option) \<Rightarrow> string pydict pydict \<Rightarrow> string pydict \<Rightarrow> bool" where
  "selector_matches env selector labels =
     (let match = dget_or selector ''matchLabels'' []
      in if match = [] then True
         else if labels = [] then False
         else if disable_strict_selectors env then any_label labels match
         else all_labels labels match)"

section \<open>What a glob denotes\<close>

text \<open>
  A glob names hostnames: \<open>*\<close> is every hostname, a leading or trailing \<open>*\<close> stands for at
  least one character, and any other glob names itself. A glob is valid if it is not empty,
  does not begin with a dot and does not have a wildcard at both ends.
\<close>

definition glob_denotes :: "string \<Rightarrow> string \<Rightarrow> bool" where
  "glob_denotes g h \<longleftrightarrow>
     (if g = ''*'' then h \<noteq> []
      else if hd g = CHR ''*'' then (\<exists>p. p \<noteq> [] \<and> h = p @ tl g)
      else if last g = CHR ''*'' then (\<exists>q. q \<noteq> [] \<and> h = butlast g @ q)
      else h = g)"

definition valid_glob :: "string \<Rightarrow> bool" where
  "valid_glob g \<longleftrightarrow> g \<noteq> [] \<and> hd g \<noteq> CHR ''.'' \<and>
     (g = ''*'' \<or> hd g \<noteq> CHR ''*'' \<or> last g \<noteq> CHR ''*'')"

lemma valid_globE:
  assumes "valid_glob g"
  obtains (all) "g = ''*''"
  | (leading) s where "g = CHR ''*'' # s" "s \<noteq> []" "last s \<noteq> CHR ''*''"
  | (trailing) s where "g = s @ ''*''" "s \<noteq> []" "hd s \<noteq> CHR ''*''" "hd s \<noteq> CHR ''.''"
  | (exact) "g \<noteq> []" "hd g \<noteq> CHR ''*''" "last g \<noteq> CHR ''*''" "hd g \<noteq> CHR ''.''"
proof (cases "g = ''*''")
  case False
  show ?thesis
  proof (cases "hd g = CHR ''*''")
    case True
    with assms False leading [of "tl g"] show ?thesis
      by (cases g) (auto simp: valid_glob_def split: if_splits)
  next
    case hd: False
    show ?thesis
    proof (cases "last g = CHR ''*''")
      case True
      with assms hd have "g = butlast g @ ''*''" "butlast g \<noteq> []"
        by (auto simp: valid_glob_def) (metis append_butlast_last_id append_Nil list.sel(1))+
      with assms hd trailing [of "butlast g"] show ?thesis
        by (metis hd_append2 valid_glob_def)
    qed (use assms hd exact in \<open>simp add: valid_glob_def\<close>)
  qed
qed (use all in simp)

lemma denotes_simps [simp]:
  "glob_denotes ''*'' h \<longleftrightarrow> h \<noteq> []"
  "s \<noteq> [] \<Longrightarrow> glob_denotes (CHR ''*'' # s) h \<longleftrightarrow> (\<exists>p. p \<noteq> [] \<and> h = p @ s)"
  "s \<noteq> [] \<Longrightarrow> hd s \<noteq> CHR ''*'' \<Longrightarrow> glob_denotes (s @ ''*'') h \<longleftrightarrow> (\<exists>q. q \<noteq> [] \<and> h = s @ q)"
  "hd g \<noteq> CHR ''*'' \<Longrightarrow> last g \<noteq> CHR ''*'' \<Longrightarrow> glob_denotes g h \<longleftrightarrow> h = g"
  by (auto simp: glob_denotes_def)

lemma valid_glob_inhabited: "valid_glob g \<Longrightarrow> \<exists>h. h \<noteq> [] \<and> glob_denotes g h"
proof (erule valid_globE)
  show "\<exists>h. h \<noteq> [] \<and> glob_denotes g h" if "g = CHR ''*'' # s" "s \<noteq> []" for s
    using that by (intro exI [of _ "''a'' @ s"]) (simp add: exI [of _ "''a''"])
  show "\<exists>h. h \<noteq> [] \<and> glob_denotes g h" if "g = s @ ''*''" "s \<noteq> []" "hd s \<noteq> CHR ''*''" for s
    using that by (intro exI [of _ "s @ ''a''"]) auto
qed auto

lemma glob_nonempty: "valid_glob g \<Longrightarrow> glob_denotes g h \<Longrightarrow> h \<noteq> []"
  by (erule valid_globE) auto

lemma suffix_overlap:
  fixes s t :: string
  shows "(\<exists>p q. p \<noteq> [] \<and> q \<noteq> [] \<and> p @ s = q @ t) \<longleftrightarrow> suffix s t \<or> suffix t s"
proof
  assume "\<exists>p q. p \<noteq> [] \<and> q \<noteq> [] \<and> p @ s = q @ t"
  then show "suffix s t \<or> suffix t s"
    by (auto simp: suffix_def append_eq_append_conv2)
next
  assume "suffix s t \<or> suffix t s"
  then show "\<exists>p q. p \<noteq> [] \<and> q \<noteq> [] \<and> p @ s = q @ t"
  proof
    assume "suffix s t"
    then obtain u where "t = u @ s" by (auto simp: suffix_def)
    then have "(''a'' @ u) @ s = ''a'' @ t" by simp
    then show ?thesis by (metis append_is_Nil_conv list.distinct(1))
  next
    assume "suffix t s"
    then obtain u where "s = u @ t" by (auto simp: suffix_def)
    then have "''a'' @ s = (''a'' @ u) @ t" by simp
    then show ?thesis by (metis append_is_Nil_conv list.distinct(1))
  qed
qed

lemma prefix_overlap:
  fixes s t :: string
  shows "(\<exists>p q. p \<noteq> [] \<and> q \<noteq> [] \<and> s @ p = t @ q) \<longleftrightarrow> prefix s t \<or> prefix t s"
proof -
  have "(\<exists>p q. p \<noteq> [] \<and> q \<noteq> [] \<and> s @ p = t @ q) \<longleftrightarrow>
      (\<exists>p q. p \<noteq> [] \<and> q \<noteq> [] \<and> p @ rev s = q @ rev t)" (is "?l \<longleftrightarrow> ?r")
  proof
    assume ?l
    then obtain p q where "p \<noteq> []" "q \<noteq> []" "s @ p = t @ q" by blast
    then have "rev p \<noteq> []" "rev q \<noteq> []" "rev p @ rev s = rev q @ rev t"
      by (simp_all flip: rev_append)
    then show ?r by blast
  next
    assume ?r
    then obtain p q where "p \<noteq> []" "q \<noteq> []" "p @ rev s = q @ rev t" by blast
    then have "rev p \<noteq> []" "rev q \<noteq> []" "s @ rev p = t @ rev q"
      by simp_all (metis rev_append rev_rev_ident)
    then show ?l by blast
  qed
  from this [unfolded suffix_overlap] show ?thesis
    by (simp only: suffix_to_prefix rev_rev_ident)
qed

lemma proper_suffix: "(\<exists>p. p \<noteq> [] \<and> g = p @ s) \<longleftrightarrow> length s < length g \<and> suffix s g"
  by (auto simp: suffix_def)

lemma proper_prefix: "(\<exists>q. q \<noteq> [] \<and> g = s @ q) \<longleftrightarrow> length s < length g \<and> prefix s g"
  by (auto simp: prefix_def)

lemma same_length_suffix: "length s = length t \<Longrightarrow> suffix s t \<longleftrightarrow> suffix t s"
  by (auto simp: suffix_def)

lemma same_length_prefix: "length s = length t \<Longrightarrow> prefix s t \<longleftrightarrow> prefix t s"
  by (auto simp: prefix_def)

lemma matches_start_wild:
  "hostglob_matches_start (CHR ''*'' # s) (CHR ''*'' # t) True \<longleftrightarrow> suffix s t \<or> suffix t s"
  using suffix_length_le [of s t] suffix_length_le [of t s] same_length_suffix [of s t]
  by (auto simp: hostglob_matches_start_def endswith_def Let_def)

lemma matches_start_exact:
  "hostglob_matches_start (CHR ''*'' # s) g False \<longleftrightarrow> length s < length g \<and> suffix s g"
  by (auto simp: hostglob_matches_start_def endswith_def Let_def)

lemma matches_end_wild:
  "hostglob_matches_end (s @ ''*'') (t @ ''*'') True \<longleftrightarrow> prefix s t \<or> prefix t s"
  using prefix_length_le [of s t] prefix_length_le [of t s] same_length_prefix [of s t]
  by (auto simp: hostglob_matches_end_def startswith_def Let_def)

lemma matches_end_exact:
  "hostglob_matches_end (s @ ''*'') g False \<longleftrightarrow> length s < length g \<and> prefix s g"
  by (auto simp: hostglob_matches_end_def startswith_def Let_def)

definition compatible :: "string \<Rightarrow> string \<Rightarrow> bool" where
  "compatible g1 g2 \<longleftrightarrow> (\<exists>h. glob_denotes g1 h \<and> glob_denotes g2 h)"

lemma compatible_sym: "compatible g1 g2 \<longleftrightarrow> compatible g2 g1"
  by (auto simp: compatible_def)

lemma compatible_all: "valid_glob g \<Longrightarrow> compatible ''*'' g"
  using valid_glob_inhabited by (auto simp: compatible_def)

lemma compatible_refl: "valid_glob g \<Longrightarrow> compatible g g"
  using valid_glob_inhabited by (auto simp: compatible_def)

lemma wild_leading:
  assumes g1: "g1 = CHR ''*'' # s" "s \<noteq> []" "last s \<noteq> CHR ''*''"
    and g2: "valid_glob g2" "g2 \<noteq> ''*''"
  shows "hostglob_wild g1 g2 \<longleftrightarrow> compatible g1 g2"
  using g2(1)
proof (cases rule: valid_globE)
  case (leading t)
  have "compatible g1 g2 \<longleftrightarrow> (\<exists>p q. p \<noteq> [] \<and> q \<noteq> [] \<and> p @ s = q @ t)"
    using g1 leading by (auto simp: compatible_def)
  from this [unfolded suffix_overlap] show ?thesis
    using g1 leading by (simp add: hostglob_wild_def Let_def matches_start_wild)
next
  case (trailing t)
  have "glob_denotes g1 (t @ s)" "glob_denotes g2 (t @ s)"
    using g1 trailing by auto
  then have "compatible g1 g2" by (auto simp: compatible_def)
  then show ?thesis using g1 trailing by (simp add: hostglob_wild_def Let_def)
next
  case exact
  then have "compatible g1 g2 \<longleftrightarrow> (\<exists>p. p \<noteq> [] \<and> g2 = p @ s)"
    using g1 by (auto simp: compatible_def)
  then show ?thesis
    using g1 exact by (simp add: proper_suffix hostglob_wild_def Let_def matches_start_exact)
qed (use g2 in simp)

lemma wild_trailing:
  assumes g1: "g1 = s @ ''*''" "s \<noteq> []" "hd s \<noteq> CHR ''*''" "hd s \<noteq> CHR ''.''"
    and g2: "valid_glob g2" "g2 \<noteq> ''*''"
  shows "hostglob_wild g1 g2 \<longleftrightarrow> compatible g1 g2"
  using g2(1)
proof (cases rule: valid_globE)
  case (leading t)
  have "glob_denotes g1 (s @ t)" "glob_denotes g2 (s @ t)"
    using g1 leading by auto
  then have "compatible g1 g2" by (auto simp: compatible_def)
  then show ?thesis using g1 leading by (simp add: hostglob_wild_def Let_def)
next
  case (trailing t)
  have "compatible g1 g2 \<longleftrightarrow> (\<exists>p q. p \<noteq> [] \<and> q \<noteq> [] \<and> s @ p = t @ q)"
    using g1 trailing by (auto simp: compatible_def)
  from this [unfolded prefix_overlap] show ?thesis
    using g1 trailing by (simp add: hostglob_wild_def Let_def matches_end_wild)
next
  case exact
  then have "compatible g1 g2 \<longleftrightarrow> (\<exists>q. q \<noteq> [] \<and> g2 = s @ q)"
    using g1 by (auto simp: compatible_def)
  then show ?thesis
    using g1 exact by (simp add: proper_prefix hostglob_wild_def Let_def matches_end_exact)
qed (use g2 in simp)

lemma wild_sym:
  assumes "g1 \<noteq> []" and "g2 \<noteq> []"
  shows "hostglob_wild g1 g2 = hostglob_wild g2 g1"
proof -
  have s: "hostglob_matches_start g1 g2 True = hostglob_matches_start g2 g1 True"
    if "hd g1 = CHR ''*''" "hd g2 = CHR ''*''"
  proof -
    have "g1 = CHR ''*'' # tl g1" "g2 = CHR ''*'' # tl g2"
      using that assms list.collapse [of g1] list.collapse [of g2] by simp_all
    then show ?thesis
      using matches_start_wild [of "tl g1" "tl g2"] matches_start_wild [of "tl g2" "tl g1"] by auto
  qed
  have e: "hostglob_matches_end g1 g2 True = hostglob_matches_end g2 g1 True"
    if "last g1 = CHR ''*''" "last g2 = CHR ''*''"
  proof -
    have "g1 = butlast g1 @ ''*''" "g2 = butlast g2 @ ''*''"
      using that assms append_butlast_last_id [of g1] append_butlast_last_id [of g2] by simp_all
    then show ?thesis
      using matches_end_wild [of "butlast g1" "butlast g2"]
        matches_end_wild [of "butlast g2" "butlast g1"] by auto
  qed
  show ?thesis using s e by (auto simp: hostglob_wild_def Let_def)
qed

lemma wild_compatible:
  assumes "valid_glob g1" "g1 \<noteq> ''*''" and g2: "valid_glob g2" "g2 \<noteq> ''*''" and "g1 \<noteq> g2"
  shows "hostglob_wild g1 g2 \<longleftrightarrow> compatible g1 g2"
  using assms(1)
proof (cases rule: valid_globE)
  case (leading s)
  with g2 show ?thesis by (intro wild_leading)
next
  case (trailing s)
  with g2 show ?thesis by (intro wild_trailing)
next
  case ex1: exact
  from g2(1) show ?thesis
  proof (cases rule: valid_globE)
    case (leading s)
    then have "hostglob_wild g2 g1 \<longleftrightarrow> compatible g2 g1"
      using assms by (intro wild_leading)
    then show ?thesis using leading ex1 wild_sym [of g1 g2] by (simp add: compatible_sym)
  next
    case (trailing s)
    then have "hostglob_wild g2 g1 \<longleftrightarrow> compatible g2 g1"
      using assms by (intro wild_trailing)
    then show ?thesis using trailing ex1 wild_sym [of g1 g2] by (simp add: compatible_sym)
  next
    case exact
    with ex1 \<open>g1 \<noteq> g2\<close> show ?thesis
      by (auto simp: compatible_def hostglob_wild_def Let_def)
  qed (use g2 in simp)
qed (use assms in simp)

lemma any_label_iff: "any_label labels match \<longleftrightarrow> (\<exists>(k, v) \<in> set match. dget labels k = Some v)"
  by (induction labels match rule: any_label.induct) auto

lemma all_labels_iff: "all_labels labels match \<longleftrightarrow> (\<forall>(k, v) \<in> set match. dget labels k = Some v)"
  by (induction labels match rule: all_labels.induct) auto

section \<open>Properties\<close>

text \<open>
  C7: for valid globs, \<open>hostglob_matches\<close> returns, and returns \<open>True\<close> exactly if some
  hostname matches both globs.
\<close>

theorem hostglob_matches_exact:
  assumes "valid_glob g1" and "valid_glob g2"
  shows "hostglob_matches g1 g2 = Inr (\<exists>h. glob_denotes g1 h \<and> glob_denotes g2 h)"
proof -
  have ne: "g1 \<noteq> []" "g2 \<noteq> []" "hd g1 \<noteq> CHR ''.''" "hd g2 \<noteq> CHR ''.''"
    using assms by (simp_all add: valid_glob_def)
  consider "g1 = g2" | "g1 \<noteq> g2" "g1 = ''*'' \<or> g2 = ''*''" | "g1 \<noteq> g2" "g1 \<noteq> ''*''" "g2 \<noteq> ''*''"
    by blast
  then have "hostglob_matches g1 g2 = Inr (compatible g1 g2)"
  proof cases
    case 1
    then show ?thesis using assms compatible_refl by (simp add: hostglob_matches_def)
  next
    case 2
    then have "compatible g1 g2"
      using assms compatible_all compatible_sym by metis
    then show ?thesis using 2 by (auto simp: hostglob_matches_def)
  next
    case 3
    then show ?thesis
      using assms ne wild_compatible by (simp add: hostglob_matches_def)
  qed
  then show ?thesis by (simp add: compatible_def)
qed

theorem hostglob_matches_exact_witness:
  "valid_glob ''*.example.com'' \<and> valid_glob ''foo.*'' \<and>
   (\<exists>h. glob_denotes ''*.example.com'' h \<and> glob_denotes ''foo.*'' h)"
proof -
  have v: "valid_glob ''*.example.com''" "valid_glob ''foo.*''"
    by (simp_all add: valid_glob_def)
  have "hostglob_matches ''*.example.com'' ''foo.*'' = Inr True"
    by code_simp
  with hostglob_matches_exact [OF v] v show ?thesis by simp
qed

text \<open>
  The order of the globs does not matter, valid or not, as long as neither is empty.
\<close>

theorem hostglob_matches_sym:
  assumes "g1 \<noteq> []" and "g2 \<noteq> []"
  shows "hostglob_matches g1 g2 = hostglob_matches g2 g1"
  using assms wild_sym [OF assms] by (auto simp: hostglob_matches_def)

theorem hostglob_matches_sym_witness:
  "hostglob_matches ''*.a'' ''b.a'' = hostglob_matches ''b.a'' ''*.a''"
  using hostglob_matches_sym [of "''*.a''" "''b.a''"] by simp

text \<open>
  C29: with strict selectors a selector matches exactly if every one of its labels is among the
  object's labels with the same value; with strict selectors disabled, exactly if it has no
  labels or one of them is.
\<close>

theorem selector_matches_spec:
  "selector_matches env selector labels \<longleftrightarrow>
     (let match = dget_or selector ''matchLabels'' [] in
      if disable_strict_selectors env
      then match = [] \<or> (\<exists>(k, v) \<in> set match. dget labels k = Some v)
      else (\<forall>k v. (k, v) \<in> set match \<longrightarrow> dget labels k = Some v))"
proof -
  define match where "match = dget_or selector ''matchLabels'' []"
  have "selector_matches env selector labels \<longleftrightarrow> match = [] \<or> labels \<noteq> [] \<and>
      (if disable_strict_selectors env then \<exists>(k, v) \<in> set match. dget labels k = Some v
       else \<forall>(k, v) \<in> set match. dget labels k = Some v)"
    by (simp add: selector_matches_def Let_def match_def [symmetric] any_label_iff all_labels_iff)
  moreover have "\<not> (\<forall>(k, v) \<in> set match. dget labels k = Some v)"
    if "match \<noteq> []" "labels = []"
    using that by (cases match) auto
  ultimately show ?thesis
    unfolding match_def [symmetric] Let_def by (cases "labels = []") auto
qed

theorem selector_matches_spec_witness:
  "selector_matches (\<lambda>_. None) [(''matchLabels'', [(''a'', ''1'')])] [(''b'', ''2''), (''a'', ''1'')]"
proof -
  have "\<not> disable_strict_selectors (\<lambda>_. None)" by code_simp
  then show ?thesis
    unfolding selector_matches_spec by (auto simp: dget_or_def Let_def)
qed

end
