(* ===== verification/ConfigStore.thy ===== *)
theory ConfigStore
  imports Utils
begin

text \<open>
  The configuration store, \<open>config/config.py\<close> and \<open>config/acresource.py\<close>. Resources are
  objects that \<open>sources\<close> and the storage buckets share and that \<open>process\<close> mutates, so they live
  in a heap \<open>objs\<close> and everything else holds references into it. The class variables that come
  from the environment are the record \<open>settings\<close>. The kind, the name and the namespace of a
  resource are strings, as Kubernetes guarantees; its API version and its errors may be any values,
  and the code raises where it needs strings. Every other key is in \<open>ac_attrs\<close>.

  The lemmas: which resources belong to this Ambassador; loading returns whenever there is no
  module and the API versions and errors are strings; every accepted resource is a source, and an invalid one gets an error under its
  key; resources with distinct names and namespaces are all found in their bucket; and the two
  ways in which an error or a resource is misplaced.
\<close>

section \<open>State\<close>

record settings =
  ambassador_id :: string
  ambassador_namespace :: string
  single_namespace :: bool
  certs_single_namespace :: bool
  host_name :: string
  version :: string

record ac =
  ac_rkey :: string
  ac_location :: string
  ac_kind :: string
  ac_name :: string
  ac_namespace :: "string option"
  ac_apiVersion :: pyval
  ac_serialization :: "string option"
  ac_errors :: "pyval option"
  ac_attrs :: "pyval pydict"

record config =
  objs :: "ac list"
  current_resource :: "nat option"
  helm_chart :: "pyval option"
  stores :: "nat pydict pydict"
  counters :: "int pydict"
  sources :: "nat pydict"
  errors :: "pyval pydict list pydict"
  notices :: "string list pydict"
  fatal_errors :: int
  pod_labels :: "string pydict"
  k8s_status_updates :: "(string \<times> string \<times> pyval) pydict"
  invalid :: "pyval list"

definition StorageByKind :: "string pydict" where
  "StorageByKind =
     [(''authservice'', ''auth_configs''), (''consulresolver'', ''resolvers''),
      (''host'', ''hosts''), (''listener'', ''listeners''), (''mapping'', ''mappings''),
      (''kubernetesendpointresolver'', ''resolvers''),
      (''kubernetesserviceresolver'', ''resolvers''),
      (''ratelimitservice'', ''ratelimit_configs''), (''devportal'', ''devportals''),
      (''tcpmapping'', ''tcpmappings''), (''tlscontext'', ''tls_contexts''),
      (''tracingservice'', ''tracing_configs''), (''logservice'', ''log_services'')]"

definition SupportedVersions :: "string pydict" where
  "SupportedVersions =
     [(''v2'', ''is deprecated, consider upgrading''), (''v3alpha1'', ''ok'')]"

section \<open>Resources\<close>

definition acresource_init ::
  "string \<Rightarrow> string \<Rightarrow> string \<Rightarrow> string \<Rightarrow> string option \<Rightarrow> pyval \<Rightarrow> pyval \<Rightarrow> string option \<Rightarrow>
   pyval option \<Rightarrow> pyval pydict \<Rightarrow> ac res" where
  "acresource_init rkey location kind name ns metadata_labels apiVersion serialization errs kwargs =
     (if rkey = [] then Inl (PlainException ''ACResource requires rkey'')
      else if kind = [] then Inl (PlainException ''ACResource requires kind'')
      else if kind \<noteq> ''Pragma'' \<and> name = [] then Inl (PlainException ''ACResource: requires name'')
      else if \<not> truthy apiVersion then Inl (PlainException ''ACResource requires apiVersion'')
      else Inr \<lparr>ac_rkey = rkey, ac_location = location, ac_kind = kind, ac_name = name,
                ac_namespace = ns, ac_apiVersion = apiVersion, ac_serialization = serialization,
                ac_errors = errs,
                ac_attrs = (if truthy metadata_labels
                            then dset ''metadata_labels'' metadata_labels kwargs else kwargs)\<rparr>)"

definition internal_resource :: ac where
  "internal_resource =
     \<lparr>ac_rkey = ''--internal--'', ac_location = ''--internal--'', ac_kind = ''Internal'',
      ac_name = ''Ambassador Internals'', ac_namespace = None,
      ac_apiVersion = PStr ''getambassador.io/v0'', ac_serialization = None, ac_errors = None,
      ac_attrs = [(''version'', PStr ''getambassador.io/v0''),
        (''description'', PStr (''The '' @ [CHR 0x27] @ ''--internal--'' @ [CHR 0x27] @
           '' source marks objects created by Ambassador'' @ [CHR 0x27] @ ''s internal logic.''))]\<rparr>"

definition diagnostics_resource :: ac where
  "diagnostics_resource =
     \<lparr>ac_rkey = ''--diagnostics--'', ac_location = ''--diagnostics--'', ac_kind = ''Diagnostics'',
      ac_name = ''Ambassador Diagnostics'', ac_namespace = None,
      ac_apiVersion = PStr ''getambassador.io/v0'', ac_serialization = None, ac_errors = None,
      ac_attrs = [(''version'', PStr ''getambassador.io/v0''),
        (''description'', PStr (''The '' @ [CHR 0x27] @ ''--diagnostics--'' @ [CHR 0x27] @
           '' source marks objects created by Ambassador to assist with diagnostic output.''))]\<rparr>"

definition obj_at :: "config \<Rightarrow> nat \<Rightarrow> ac" where
  "obj_at c i = objs c ! i"

definition alloc :: "ac \<Rightarrow> config \<Rightarrow> nat \<times> config" where
  "alloc r c = (length (objs c), c\<lparr>objs := objs c @ [r]\<rparr>)"

definition upd_obj :: "nat \<Rightarrow> (ac \<Rightarrow> ac) \<Rightarrow> config \<Rightarrow> config" where
  "upd_obj i f c = c\<lparr>objs := (objs c)[i := f (objs c ! i)]\<rparr>"

definition save_source :: "nat \<Rightarrow> config \<Rightarrow> config" where
  "save_source i c = c\<lparr>sources := dset (ac_rkey (obj_at c i)) i (sources c)\<rparr>"

definition config_reset :: "config \<Rightarrow> config" where
  "config_reset c =
     (let c0 = c\<lparr>current_resource := None, helm_chart := None, stores := [], counters := [],
                 invalid := [], sources := []\<rparr>;
          (i, c1) = alloc internal_resource c0;
          c2 = save_source i c1;
          (j, c3) = alloc diagnostics_resource c2;
          c4 = save_source j c3
      in c4\<lparr>errors := [], notices := [], fatal_errors := 0\<rparr>)"

definition config_init :: config where
  "config_init = config_reset
     \<lparr>objs = [], current_resource = None, helm_chart = None, stores = [], counters = [],
      sources = [], errors = [], notices = [], fatal_errors = 0, pod_labels = [],
      k8s_status_updates = [], invalid = []\<rparr>"

section \<open>Who a resource belongs to\<close>

text \<open>The result \<open>None\<close> is Python's: the function falls off its end for an empty list of IDs.\<close>

definition good_ambassador_id :: "settings \<Rightarrow> pyval pydict \<Rightarrow> bool option" where
  "good_ambassador_id st resource =
     (let allowed_ids = (if pget resource ''ambassadorId'' = PNone
                         then dget_or resource ''ambassador_id'' (PStr ''default'')
                         else pget resource ''ambassadorId'')
      in if allowed_ids = PList [PStr ''_automatic_''] then Some True
         else if truthy allowed_ids
         then (let ids = (case allowed_ids of PList xs \<Rightarrow> xs | v \<Rightarrow> [v])
               in if PStr (ambassador_id st) \<in> set ids then Some True else Some False)
         else None)"

definition incr_count :: "string \<Rightarrow> config \<Rightarrow> config" where
  "incr_count k c = c\<lparr>counters := dset k (dget_or (counters c) k 0 + 1) (counters c)\<rparr>"

definition get_count :: "config \<Rightarrow> string \<Rightarrow> int" where
  "get_count c k = dget_or (counters c) k 0"

definition load_invalid :: "pyval list \<Rightarrow> config \<Rightarrow> config" where
  "load_invalid xs c = c\<lparr>invalid := xs\<rparr>"

section \<open>Notices and errors\<close>

text \<open>
  The \<open>resource\<close> argument of the posting methods: none, a configuration resource (which is
  saved as a source), or a resource of another class, of which only the key matters.
\<close>

datatype rsrc = NoResource | AC nat | Other string

definition or_current :: "rsrc \<Rightarrow> config \<Rightarrow> rsrc" where
  "or_current r c = (case r of NoResource \<Rightarrow>
     (case current_resource c of None \<Rightarrow> NoResource | Some i \<Rightarrow> AC i) | _ \<Rightarrow> r)"

definition rsrc_key :: "rsrc \<Rightarrow> config \<Rightarrow> string" where
  "rsrc_key r c = (case r of NoResource \<Rightarrow> ''-global-'' | AC i \<Rightarrow> ac_rkey (obj_at c i) | Other k \<Rightarrow> k)"

definition post_notice :: "string \<Rightarrow> rsrc \<Rightarrow> config \<Rightarrow> config" where
  "post_notice msg r c =
     (let rkey = rsrc_key (or_current r c) c
      in c\<lparr>notices := dset rkey (dget_or (notices c) rkey [] @ [msg]) (notices c)\<rparr>)"

definition post_error_richstatus ::
  "rich_status \<Rightarrow> rsrc \<Rightarrow> string option \<Rightarrow> config \<Rightarrow> config" where
  "post_error_richstatus rc r rkey c =
     (let r1 = or_current r c;
          (key, c1) =
            (if rkey \<noteq> None \<and> rkey \<noteq> Some [] then (the rkey, c)
             else (rsrc_key r1 c, (case r1 of AC i \<Rightarrow> save_source i c | _ \<Rightarrow> c)))
      in c1\<lparr>errors := dset key (dget_or (errors c1) key [] @ [rs_as_dict rc]) (errors c1)\<rparr>)"

definition from_error :: "settings \<Rightarrow> string \<Rightarrow> rich_status" where
  "from_error st msg = rs_from_error (host_name st) (version st) msg []"

definition post_error_string ::
  "settings \<Rightarrow> string \<Rightarrow> rsrc \<Rightarrow> string option \<Rightarrow> config \<Rightarrow> config" where
  "post_error_string st msg r rkey c = post_error_richstatus (from_error st msg) r None c"

section \<open>Storing\<close>

definition ns_str :: "ac \<Rightarrow> string" where
  "ns_str r = (case ac_namespace r of Some s \<Rightarrow> s | None \<Rightarrow> ''None'')"

definition safe_store :: "settings \<Rightarrow> string \<Rightarrow> nat \<Rightarrow> config \<Rightarrow> config" where
  "safe_store st storage_name i c =
     (let storage = dget_or (stores c) storage_name [];
          c0 = c\<lparr>stores := dsetdefault storage_name [] (stores c)\<rparr>;
          r = obj_at c0 i;
          c1 = (case dget storage (ac_name r) of
                  None \<Rightarrow> c0
                | Some j \<Rightarrow>
                    if ac_namespace r = ac_namespace (obj_at c0 j)
                    then post_error_string st (ac_name r @ '' is already defined by '' @
                           ac_location (obj_at c0 j)) (AC i) None c0
                    else upd_obj i (\<lambda>r. r\<lparr>ac_name := ac_name r @ ''.'' @ ns_str r\<rparr>) c0)
      in c1\<lparr>stores := dset storage_name (dset (ac_name (obj_at c1 i)) i storage) (stores c1)\<rparr>)"

definition save_object :: "settings \<Rightarrow> nat \<Rightarrow> config \<Rightarrow> config" where
  "save_object st i c = safe_store st (ac_kind (obj_at c i)) i c"

definition store_by_rkey :: "settings \<Rightarrow> string \<Rightarrow> nat \<Rightarrow> config \<Rightarrow> config" where
  "store_by_rkey st storage_name i c =
     (let storage = dget_or (stores c) storage_name [];
          c0 = c\<lparr>stores := dsetdefault storage_name [] (stores c)\<rparr>;
          key = ac_rkey (obj_at c0 i);
          c1 = (case dget storage key of
                  None \<Rightarrow> c0
                | Some j \<Rightarrow> post_error_string st (key @ '' is already defined by '' @
                              ac_location (obj_at c0 j)) (AC i) None c0)
      in c1\<lparr>stores := dset storage_name (dset key i storage) (stores c1)\<rparr>)"

definition handle_secret :: "settings \<Rightarrow> nat \<Rightarrow> config \<Rightarrow> config" where
  "handle_secret st i c = store_by_rkey st ''secrets'' i c"

definition handle_ingress :: "settings \<Rightarrow> nat \<Rightarrow> config \<Rightarrow> config" where
  "handle_ingress st i c = store_by_rkey st ''ingresses'' i c"

definition handle_service :: "settings \<Rightarrow> nat \<Rightarrow> config \<Rightarrow> config" where
  "handle_service st i c =
     (let c1 = store_by_rkey st ''service'' i c;
          chart = pget (ac_attrs (obj_at c1 i)) ''helm_chart''
      in if truthy chart then c1\<lparr>helm_chart := Some chart\<rparr> else c1)"

fun str_or :: "pyval \<Rightarrow> string \<Rightarrow> string res" where
  "str_or (PStr s) d = Inr (if s = [] then d else s)"
| "str_or v d = (if truthy v then Inl (TypeError ''str'') else Inr d)"

definition ac_from_resource :: "ac \<Rightarrow> string \<Rightarrow> pyval pydict \<Rightarrow> ac res" where
  "ac_from_resource other kind kwargs =
     (if dhas kwargs ''kind'' \<or> dhas kwargs ''other'' \<or> dhas kwargs ''cls''
      then Inl (TypeError ''multiple values for keyword argument'')
      else
        rbind (str_or (pget kwargs ''rkey'') (ac_rkey other)) (\<lambda>new_rkey.
        rbind (str_or (pget kwargs ''location'') (ac_location other)) (\<lambda>new_location.
        rbind (str_or (pget kwargs ''name'') (ac_name other)) (\<lambda>new_name.
        rbind (if truthy (pget kwargs ''namespace'')
               then rbind (str_or (pget kwargs ''namespace'') []) (\<lambda>s. Inr (Some s))
               else Inr (ac_namespace other)) (\<lambda>new_namespace.
        rbind (if truthy (pget kwargs ''serialization'')
               then rbind (str_or (pget kwargs ''serialization'') []) (\<lambda>s. Inr (Some s))
               else Inr (if ac_serialization other = Some [] then None else ac_serialization other))
          (\<lambda>new_serialization.
        acresource_init new_rkey new_location kind new_name new_namespace
          (por (pget kwargs ''metadata_labels'') (pget (ac_attrs other) ''metadata_labels''))
          (por (pget kwargs ''apiVersion'') (ac_apiVersion other)) new_serialization (dget kwargs ''errors'')
          (fold ddel [''rkey'', ''location'', ''name'', ''apiVersion'', ''namespace'', ''serialization'',
             ''metadata_labels'', ''errors'', ''_errors'', ''_errored'', ''_referenced_by''] kwargs)))))))"

definition handle_module :: "settings \<Rightarrow> nat \<Rightarrow> config \<Rightarrow> config res" where
  "handle_module st i c =
     (case dget (ac_attrs (obj_at c i)) ''config'' of
        None \<Rightarrow> Inl (AttributeError ''config'')
      | Some (PDict kwargs) \<Rightarrow>
          rbind (ac_from_resource (obj_at c i) ''Module'' kwargs) (\<lambda>r.
            let (j, c1) = alloc r c in Inr (safe_store st ''modules'' j c1))
      | Some v \<Rightarrow> Inl (TypeError ''argument after ** must be a mapping''))"

definition get_module :: "config \<Rightarrow> string \<Rightarrow> nat option" where
  "get_module c module_name =
     (case dget (stores c) ''modules'' of None \<Rightarrow> None | Some modules \<Rightarrow> dget modules module_name)"

definition module_lookup :: "config \<Rightarrow> string \<Rightarrow> string \<Rightarrow> pyval \<Rightarrow> pyval" where
  "module_lookup c module_name key dflt =
     (case get_module c module_name of
        None \<Rightarrow> dflt
      | Some i \<Rightarrow> dget_or (ac_attrs (obj_at c i)) key dflt)"

section \<open>Loading\<close>

definition rs_good :: "settings \<Rightarrow> string \<Rightarrow> rich_status" where
  "rs_good st msg = rs_OK (host_name st) (version st) [(''msg'', PStr msg)]"

definition after_slash :: "string \<Rightarrow> string" where
  "after_slash s = tl (dropWhile (\<lambda>x. x \<noteq> CHR ''/'') s)"

definition watt_errors :: "string \<Rightarrow> string" where
  "watt_errors s = join_with ''; '' (filter (\<lambda>e. e \<noteq> []) (split_on (CHR 0x0A) s))"

text \<open>
  The validation of a resource. The API version and the errors are whatever the input has there: a
  value that is not a string has no \<open>startswith\<close> and no \<open>split\<close>.
\<close>

definition validate_errors :: "settings \<Rightarrow> nat \<Rightarrow> config \<Rightarrow> (rich_status \<times> config) res" where
  "validate_errors st i c =
     (let r = obj_at c i; good = rs_good st (''good '' @ ac_kind r) in
      case ac_errors r of
        None \<Rightarrow> Inr (good, c)
      | Some (PStr e) \<Rightarrow>
          Inr (if watt_errors e \<noteq> [] then from_error st (watt_errors e) else good,
               upd_obj i (\<lambda>r. r\<lparr>ac_errors := None\<rparr>) c)
      | Some _ \<Rightarrow> Inl (AttributeError ''split''))"

definition validate_object :: "settings \<Rightarrow> nat \<Rightarrow> config \<Rightarrow> (rich_status \<times> config) res" where
  "validate_object st i c =
     (case ac_apiVersion (obj_at c i) of
        PStr api \<Rightarrow>
          if startswith api ''getambassador.io/''
          then (let status = dget_or SupportedVersions (str_lower (after_slash api)) ''is not supported''
                in validate_errors st i
                     (if status \<noteq> ''ok'' then post_notice (''apiVersion '' @ api @ '' '' @ status) (AC i) c else c))
          else if startswith api ''networking.internal.knative.dev'' then validate_errors st i c
          else Inr (from_error st (''apiVersion '' @ api @ '' unsupported''), c)
      | _ \<Rightarrow> Inl (AttributeError ''startswith''))"

definition handle :: "settings \<Rightarrow> string \<Rightarrow> nat \<Rightarrow> config \<Rightarrow> config res" where
  "handle st lkind i c =
     (if lkind = ''module'' then handle_module st i c
      else if lkind = ''secret'' then Inr (handle_secret st i c)
      else if lkind = ''ingress'' then Inr (handle_ingress st i c)
      else if lkind = ''service'' then Inr (handle_service st i c)
      else Inr (save_object st i c))"

definition process :: "settings \<Rightarrow> nat \<Rightarrow> config \<Rightarrow> (rich_status \<times> config) res" where
  "process st i c =
     (let c0 = c\<lparr>current_resource := Some i\<rparr>; r = obj_at c0 i in
      if \<not> truthy (ac_apiVersion r) then Inr (from_error st ''need apiVersion'', c0)
      else if ac_kind r = [] then Inr (from_error st ''need kind'', c0)
      else
        (let c1 = (if ac_namespace r = None \<or> ac_namespace r = Some []
                   then upd_obj i (\<lambda>r. r\<lparr>ac_namespace := Some (ambassador_namespace st)\<rparr>) c0
                   else c0);
             c2 = save_source i c1
         in rbind (validate_object st i c2) (\<lambda>(rc, c3).
            if \<not> rs_ok rc then Inr (rc, c3)
            else
              (let lkind = str_lower (ac_kind r)
               in rbind (case dget StorageByKind lkind of
                           Some store_as \<Rightarrow> Inr (safe_store st store_as i c3)
                         | None \<Rightarrow> handle st lkind i c3)
                    (\<lambda>c4. Inr (rs_good st (ac_kind r @ '' object processed successfully''),
                              c4\<lparr>current_resource := None\<rparr>))))))"

definition load_one :: "settings \<Rightarrow> ac \<Rightarrow> config \<Rightarrow> config res" where
  "load_one st r c =
     (if good_ambassador_id st (ac_attrs r) \<noteq> Some True then Inr c
      else
        (let (i, c0) = alloc r c
         in rbind (process st i c0) (\<lambda>(rc, c1).
              Inr (if \<not> rs_ok rc then post_error_richstatus rc (AC i) None c1 else c1))))"

definition load_all :: "settings \<Rightarrow> ac list \<Rightarrow> config \<Rightarrow> config res" where
  "load_all st rs c =
     rbind (rfold (load_one st) rs c) (\<lambda>c1.
       if fatal_errors c1 \<noteq> 0 then Inl (PlainException ''Unparseable configuration; exiting'')
       else Inr c1)"

section \<open>What the posting operations leave alone\<close>

lemma obj_at_alloc:
  "alloc r c = (i, c') \<Longrightarrow> i = length (objs c) \<and> c' = c\<lparr>objs := objs c @ [r]\<rparr>"
  by (auto simp: alloc_def)

lemma save_source_fields [simp]:
  "objs (save_source i c) = objs c" "stores (save_source i c) = stores c"
  "current_resource (save_source i c) = current_resource c"
  "errors (save_source i c) = errors c" "fatal_errors (save_source i c) = fatal_errors c"
  "notices (save_source i c) = notices c"
  by (simp_all add: save_source_def)

lemma post_notice_fields [simp]:
  "objs (post_notice m r c) = objs c" "stores (post_notice m r c) = stores c"
  "current_resource (post_notice m r c) = current_resource c"
  "errors (post_notice m r c) = errors c" "fatal_errors (post_notice m r c) = fatal_errors c"
  "sources (post_notice m r c) = sources c"
  by (simp_all add: post_notice_def Let_def)

lemma post_error_fields [simp]:
  "objs (post_error_richstatus rc r k c) = objs c"
  "stores (post_error_richstatus rc r k c) = stores c"
  "current_resource (post_error_richstatus rc r k c) = current_resource c"
  "fatal_errors (post_error_richstatus rc r k c) = fatal_errors c"
  by (simp_all add: post_error_richstatus_def Let_def split: rsrc.split)

lemma post_error_errors:
  "errors (post_error_richstatus rc (AC i) None c) =
     (let k = ac_rkey (obj_at c i) in dset k (dget_or (errors c) k [] @ [rs_as_dict rc]) (errors c))"
  by (simp add: post_error_richstatus_def or_current_def rsrc_key_def Let_def)

lemma post_error_sources:
  "sources (post_error_richstatus rc (AC i) None c) = dset (ac_rkey (obj_at c i)) i (sources c)"
  by (simp add: post_error_richstatus_def or_current_def rsrc_key_def Let_def save_source_def)

lemma upd_obj_fields [simp]:
  "stores (upd_obj i f c) = stores c" "sources (upd_obj i f c) = sources c"
  "current_resource (upd_obj i f c) = current_resource c" "errors (upd_obj i f c) = errors c"
  "fatal_errors (upd_obj i f c) = fatal_errors c" "length (objs (upd_obj i f c)) = length (objs c)"
  by (simp_all add: upd_obj_def)

lemma obj_at_upd:
  "i < length (objs c) \<Longrightarrow> obj_at (upd_obj i f c) j = (if i = j then f (obj_at c i) else obj_at c j)"
  by (auto simp: obj_at_def upd_obj_def)

lemma obj_at_same [simp]:
  "obj_at (save_source i c) = obj_at c" "obj_at (post_notice m r c) = obj_at c"
  "obj_at (post_error_richstatus rc r k c) = obj_at c"
  "obj_at (c\<lparr>stores := x\<rparr>) = obj_at c" "obj_at (c\<lparr>current_resource := y\<rparr>) = obj_at c"
  "obj_at (c\<lparr>sources := v\<rparr>) = obj_at c" "obj_at (c\<lparr>helm_chart := z\<rparr>) = obj_at c"
  "obj_at (c\<lparr>errors := w\<rparr>) = obj_at c"
  by (simp_all add: obj_at_def fun_eq_iff)

section \<open>The invariant of the store\<close>

text \<open>
  Every source is filed under its own key; every stored resource under its name or its key;
  every reference points into the heap; and there are no fatal errors, since nothing counts
  one.
\<close>

definition cfg_inv :: "config \<Rightarrow> bool" where
  "cfg_inv c \<longleftrightarrow>
     (\<forall>k i. dget (sources c) k = Some i \<longrightarrow> i < length (objs c) \<and> ac_rkey (obj_at c i) = k) \<and>
     (\<forall>b d k i. dget (stores c) b = Some d \<longrightarrow> dget d k = Some i \<longrightarrow>
        i < length (objs c) \<and> (ac_name (obj_at c i) = k \<or> ac_rkey (obj_at c i) = k)) \<and>
     (\<forall>i. current_resource c = Some i \<longrightarrow> i < length (objs c)) \<and>
     fatal_errors c = 0"

definition stored_in :: "nat pydict pydict \<Rightarrow> nat \<Rightarrow> bool" where
  "stored_in ss i \<longleftrightarrow> (\<exists>b d k. dget ss b = Some d \<and> dget d k = Some i)"

definition unstored :: "nat \<Rightarrow> config \<Rightarrow> bool" where
  "unstored i c \<longleftrightarrow> i < length (objs c) \<and> \<not> stored_in (stores c) i"

lemma cfg_invI:
  assumes "\<And>k i. dget (sources c) k = Some i \<Longrightarrow> i < length (objs c) \<and> ac_rkey (obj_at c i) = k"
    and "\<And>b d k i. dget (stores c) b = Some d \<Longrightarrow> dget d k = Some i \<Longrightarrow>
        i < length (objs c) \<and> (ac_name (obj_at c i) = k \<or> ac_rkey (obj_at c i) = k)"
    and "\<And>i. current_resource c = Some i \<Longrightarrow> i < length (objs c)"
    and "fatal_errors c = 0"
  shows "cfg_inv c"
  using assms unfolding cfg_inv_def by blast

lemma cfg_invD:
  assumes "cfg_inv c"
  shows "dget (sources c) k = Some i \<Longrightarrow> i < length (objs c) \<and> ac_rkey (obj_at c i) = k"
    and "dget (stores c) b = Some d \<Longrightarrow> dget d k = Some i \<Longrightarrow>
        i < length (objs c) \<and> (ac_name (obj_at c i) = k \<or> ac_rkey (obj_at c i) = k)"
    and "current_resource c = Some i \<Longrightarrow> i < length (objs c)"
    and "fatal_errors c = 0"
  using assms unfolding cfg_inv_def by blast+

lemma cfg_inv_alloc:
  assumes "cfg_inv c" and "alloc r c = (i, c')"
  shows "cfg_inv c'" and "unstored i c'" and "obj_at c' i = r" and "i = length (objs c)"
    and "\<And>j. j < length (objs c) \<Longrightarrow> obj_at c' j = obj_at c j"
proof -
  have i: "i = length (objs c)" and c': "c' = c\<lparr>objs := objs c @ [r]\<rparr>"
    using obj_at_alloc [OF assms(2)] by simp_all
  show at: "obj_at c' j = obj_at c j" if "j < length (objs c)" for j
    using that by (simp add: c' obj_at_def nth_append)
  have fields: "sources c' = sources c" "stores c' = stores c"
      "current_resource c' = current_resource c" "fatal_errors c' = fatal_errors c"
      "length (objs c') = Suc (length (objs c))"
    by (simp_all add: c')
  note D = cfg_invD [OF assms(1)]
  show "cfg_inv c'"
  proof (rule cfg_invI)
    show "j < length (objs c') \<and> ac_rkey (obj_at c' j) = k" if "dget (sources c') k = Some j" for k j
      using D(1) [of k j] that at [of j] by (simp add: fields)
    show "j < length (objs c') \<and> (ac_name (obj_at c' j) = k \<or> ac_rkey (obj_at c' j) = k)"
      if "dget (stores c') b = Some d" "dget d k = Some j" for b d k j
      using D(2) [of b d k j] that at [of j] by (simp add: fields)
    show "j < length (objs c')" if "current_resource c' = Some j" for j
      using D(3) [of j] that by (simp add: fields)
    show "fatal_errors c' = 0" using D(4) by (simp add: fields)
  qed
  show "unstored i c'"
    unfolding unstored_def stored_in_def
  proof (intro conjI notI; (elim exE conjE)?)
    show "i < length (objs c')" by (simp add: fields i)
    show False if "dget (stores c') b = Some d" "dget d k = Some i" for b d k
      using D(2) [of b d k i] that by (simp add: fields i)
  qed
  show "obj_at c' i = r" by (simp add: c' i obj_at_def)
  show "i = length (objs c)" by (rule i)
qed

lemma cfg_inv_save_source:
  assumes "cfg_inv c" and "i < length (objs c)"
  shows "cfg_inv (save_source i c)"
proof (rule cfg_invI)
  show "j < length (objs (save_source i c)) \<and> ac_rkey (obj_at (save_source i c) j) = k"
    if "dget (sources (save_source i c)) k = Some j" for k j
    using that cfg_invD(1) [OF assms(1), of k j] assms(2)
    by (auto simp: save_source_def split: if_splits)
qed (use cfg_invD [OF assms(1)] in simp_all)

lemma cfg_inv_post_notice: "cfg_inv c \<Longrightarrow> cfg_inv (post_notice m r c)"
  by (simp add: cfg_inv_def)

lemma cfg_inv_post_error:
  assumes "cfg_inv c" and "i < length (objs c)"
  shows "cfg_inv (post_error_richstatus rc (AC i) None c)"
proof (rule cfg_invI)
  let ?c = "post_error_richstatus rc (AC i) None c"
  show "j < length (objs ?c) \<and> ac_rkey (obj_at ?c j) = k" if "dget (sources ?c) k = Some j" for k j
    using that cfg_invD(1) [OF assms(1), of k j] assms(2)
    by (auto simp: post_error_sources split: if_splits)
qed (use cfg_invD [OF assms(1)] in simp_all)

lemma cfg_inv_upd:
  assumes "cfg_inv c" and "unstored i c" and f: "\<And>r. ac_rkey (f r) = ac_rkey r"
  shows "cfg_inv (upd_obj i f c)"
proof -
  have i: "i < length (objs c)" and no: "dget (stores c) b = Some d \<Longrightarrow> dget d k \<noteq> Some i" for b d k
    using assms(2) unfolding unstored_def stored_in_def by blast+
  show ?thesis
  proof (rule cfg_invI)
    show "j < length (objs (upd_obj i f c)) \<and> ac_rkey (obj_at (upd_obj i f c) j) = k"
      if "dget (sources (upd_obj i f c)) k = Some j" for k j
      using that cfg_invD(1) [OF assms(1), of k j] by (auto simp: obj_at_upd [OF i] f)
    show "j < length (objs (upd_obj i f c)) \<and>
        (ac_name (obj_at (upd_obj i f c) j) = k \<or> ac_rkey (obj_at (upd_obj i f c) j) = k)"
      if "dget (stores (upd_obj i f c)) b = Some d" "dget d k = Some j" for b d k j
      using that cfg_invD(2) [OF assms(1), of b d k j] no [of b d k] by (auto simp: obj_at_upd [OF i])
  qed (use cfg_invD [OF assms(1)] in simp_all)
qed

lemma unstored_upd: "unstored i c \<Longrightarrow> unstored i (upd_obj j f c)"
  by (simp add: unstored_def)

lemma cfg_inv_store:
  assumes "cfg_inv c" and "i < length (objs c)"
    and "ac_name (obj_at c i) = k \<or> ac_rkey (obj_at c i) = k"
    and st: "\<And>k j. dget st k = Some j \<Longrightarrow> \<exists>d. dget (stores c) b = Some d \<and> dget d k = Some j"
  shows "cfg_inv (c\<lparr>stores := dset b (dset k i st) (stores c)\<rparr>)" (is "cfg_inv ?c")
proof (rule cfg_invI)
  show "j < length (objs ?c) \<and> (ac_name (obj_at ?c j) = k' \<or> ac_rkey (obj_at ?c j) = k')"
    if "dget (stores ?c) b' = Some d" "dget d k' = Some j" for b' d k' j
  proof (cases "b' = b")
    case True
    with that(1) have d: "d = dset k i st" by simp
    show ?thesis
    proof (cases "k' = k")
      case True
      with that(2) d have "j = i" by simp
      with True show ?thesis using assms(2,3) by simp
    next
      case False
      with that(2) d have "dget st k' = Some j" by simp
      from st [OF this] obtain d' where "dget (stores c) b = Some d'" "dget d' k' = Some j" by blast
      from cfg_invD(2) [OF assms(1) this] show ?thesis by simp
    qed
  next
    case False
    with that have "dget (stores c) b' = Some d" by simp
    from cfg_invD(2) [OF assms(1) this that(2)] show ?thesis by simp
  qed
qed (use cfg_invD [OF assms(1)] in simp_all)

definition with_bucket :: "string \<Rightarrow> config \<Rightarrow> config" where
  "with_bucket b c = c\<lparr>stores := dsetdefault b [] (stores c)\<rparr>"

lemma with_bucket_fields [simp]:
  "objs (with_bucket b c) = objs c" "obj_at (with_bucket b c) = obj_at c"
  "sources (with_bucket b c) = sources c" "errors (with_bucket b c) = errors c"
  "stores (with_bucket b c) = dsetdefault b [] (stores c)"
  "current_resource (with_bucket b c) = current_resource c"
  "fatal_errors (with_bucket b c) = fatal_errors c"
  by (simp_all add: with_bucket_def)

lemma bucket_lookup:
  "dget (dsetdefault b [] ss) b' = Some d \<Longrightarrow> dget d k = Some i \<Longrightarrow> dget ss b' = Some d"
  by (auto split: if_splits)

lemma cfg_inv_with_bucket:
  assumes "cfg_inv c"
  shows "cfg_inv (with_bucket b c)"
proof (rule cfg_invI)
  show "j < length (objs (with_bucket b c)) \<and>
      (ac_name (obj_at (with_bucket b c) j) = k \<or> ac_rkey (obj_at (with_bucket b c) j) = k)"
    if "dget (stores (with_bucket b c)) b' = Some d" "dget d k = Some j" for b' d k j
  proof -
    have "dget (stores c) b' = Some d"
      by (rule bucket_lookup [OF _ that(2)]) (use that(1) in \<open>simp only: with_bucket_fields\<close>)
    from cfg_invD(2) [OF assms this that(2)] show ?thesis by simp
  qed
qed (use cfg_invD(1,3,4) [OF assms] in simp_all)

lemma unstored_with_bucket: "unstored i c \<Longrightarrow> unstored i (with_bucket b c)"
  unfolding unstored_def stored_in_def with_bucket_fields using bucket_lookup by fast

definition store_prep :: "settings \<Rightarrow> string \<Rightarrow> nat \<Rightarrow> config \<Rightarrow> config" where
  "store_prep st b i c =
     (let c0 = with_bucket b c; r = obj_at c i in
      case dget (dget_or (stores c) b []) (ac_name r) of
        None \<Rightarrow> c0
      | Some j \<Rightarrow>
          if ac_namespace r = ac_namespace (obj_at c j)
          then post_error_richstatus (from_error st (ac_name r @ '' is already defined by '' @
                 ac_location (obj_at c j))) (AC i) None c0
          else upd_obj i (\<lambda>r. r\<lparr>ac_name := ac_name r @ ''.'' @ ns_str r\<rparr>) c0)"

lemma safe_store_eq:
  "safe_store st b i c =
     (let c1 = store_prep st b i c in
      c1\<lparr>stores := dset b (dset (ac_name (obj_at c1 i)) i (dget_or (stores c) b [])) (stores c1)\<rparr>)"
  by (simp add: safe_store_def store_prep_def with_bucket_def post_error_string_def Let_def
      split: option.split)

lemma store_prep_inv:
  assumes "cfg_inv c" and "unstored i c"
  shows "cfg_inv (store_prep st b i c)"
proof -
  have i: "i < length (objs c)" using assms(2) by (simp add: unstored_def)
  have c0: "cfg_inv (with_bucket b c)" "unstored i (with_bucket b c)"
    using assms by (simp_all add: cfg_inv_with_bucket unstored_with_bucket)
  then have "cfg_inv (post_error_richstatus rc (AC i) None (with_bucket b c))"
    "cfg_inv (upd_obj i (\<lambda>r. r\<lparr>ac_name := ac_name r @ ''.'' @ ns_str r\<rparr>) (with_bucket b c))" for rc
    using i by (simp_all add: cfg_inv_post_error cfg_inv_upd)
  with c0 show ?thesis by (simp add: store_prep_def Let_def split: option.split)
qed

lemma store_prep_fields [simp]:
  "length (objs (store_prep st b i c)) = length (objs c)"
  "stores (store_prep st b i c) = dsetdefault b [] (stores c)"
  "current_resource (store_prep st b i c) = current_resource c"
  by (simp_all add: store_prep_def Let_def split: option.split)

lemma store_prep_obj:
  assumes "i < length (objs c)"
  shows "j \<noteq> i \<Longrightarrow> obj_at (store_prep st b i c) j = obj_at c j"
    and "ac_rkey (obj_at (store_prep st b i c) j) = ac_rkey (obj_at c j)"
    and "ac_namespace (obj_at (store_prep st b i c) j) = ac_namespace (obj_at c j)"
    and "ac_name (obj_at (store_prep st b i c) i) =
      (case dget (dget_or (stores c) b []) (ac_name (obj_at c i)) of
         None \<Rightarrow> ac_name (obj_at c i)
       | Some j \<Rightarrow> if ac_namespace (obj_at c i) = ac_namespace (obj_at c j) then ac_name (obj_at c i)
                  else ac_name (obj_at c i) @ ''.'' @ ns_str (obj_at c i))"
  using assms by (simp_all add: store_prep_def Let_def obj_at_upd split: option.split)

lemma safe_store_inv:
  assumes "cfg_inv c" and "unstored i c"
  shows "cfg_inv (safe_store st b i c)"
  unfolding safe_store_eq Let_def
proof (rule cfg_inv_store)
  show "cfg_inv (store_prep st b i c)" using assms by (rule store_prep_inv)
  show "i < length (objs (store_prep st b i c))" using assms(2) by (simp add: unstored_def)
  show "\<exists>d. dget (stores (store_prep st b i c)) b = Some d \<and> dget d k = Some j"
    if "dget (dget_or (stores c) b []) k = Some j" for k j
    using that by (auto simp: dget_or_def dhas_def split: option.splits)
qed simp

lemma safe_store_fields [simp]:
  "length (objs (safe_store st b i c)) = length (objs c)"
  "current_resource (safe_store st b i c) = current_resource c"
  by (simp_all add: safe_store_eq Let_def)

lemma store_by_rkey_inv:
  assumes "cfg_inv c" and "unstored i c"
  shows "cfg_inv (store_by_rkey st b i c)"
proof -
  have i: "i < length (objs c)" using assms(2) by (simp add: unstored_def)
  define c1 where "c1 = (case dget (dget_or (stores c) b []) (ac_rkey (obj_at c i)) of
      None \<Rightarrow> with_bucket b c
    | Some j \<Rightarrow> post_error_richstatus (from_error st (ac_rkey (obj_at c i) @ '' is already defined by '' @
                  ac_location (obj_at c j))) (AC i) None (with_bucket b c))"
  have eq: "store_by_rkey st b i c =
      c1\<lparr>stores := dset b (dset (ac_rkey (obj_at c i)) i (dget_or (stores c) b [])) (stores c1)\<rparr>"
    by (simp add: store_by_rkey_def with_bucket_def post_error_string_def Let_def c1_def
        split: option.split)
  have c1: "cfg_inv c1" "stores c1 = dsetdefault b [] (stores c)" "objs c1 = objs c"
    "obj_at c1 = obj_at c"
    using assms(1) i by (simp_all add: c1_def cfg_inv_with_bucket cfg_inv_post_error split: option.split)
  show ?thesis
    unfolding eq
  proof (rule cfg_inv_store)
    show "\<exists>d. dget (stores c1) b = Some d \<and> dget d k = Some j"
      if "dget (dget_or (stores c) b []) k = Some j" for k j
      using that by (auto simp: c1 dget_or_def dhas_def split: option.splits)
  qed (use c1 i in simp_all)
qed

lemma cfg_inv_other_fields [simp]:
  "cfg_inv (c\<lparr>helm_chart := h\<rparr>) = cfg_inv c"
  "cfg_inv c \<Longrightarrow> cfg_inv (c\<lparr>current_resource := None\<rparr>)"
  by (auto simp: cfg_inv_def obj_at_def)

lemma handle_service_inv: "cfg_inv c \<Longrightarrow> unstored i c \<Longrightarrow> cfg_inv (handle_service st i c)"
  by (simp add: handle_service_def Let_def store_by_rkey_inv)

lemma handle_module_inv:
  assumes "cfg_inv c" and "handle_module st i c = Inr c'"
  shows "cfg_inv c'"
proof -
  obtain r where c': "c' = safe_store st ''modules'' (fst (alloc r c)) (snd (alloc r c))"
    using assms(2)
    by (auto simp: handle_module_def res_simps Let_def split_beta split: option.splits pyval.splits)
  have "alloc r c = (fst (alloc r c), snd (alloc r c))" by simp
  from cfg_inv_alloc(1,2) [OF assms(1) this] show ?thesis
    unfolding c' by (rule safe_store_inv)
qed

lemma handle_inv:
  assumes "cfg_inv c" and "unstored i c" and "handle st lkind i c = Inr c'"
  shows "cfg_inv c'"
  using assms
  by (auto simp: handle_def handle_secret_def handle_ingress_def save_object_def
      intro: store_by_rkey_inv safe_store_inv handle_service_inv handle_module_inv split: if_splits)

section \<open>Valid and invalid resources\<close>

definition known_api :: "string \<Rightarrow> bool" where
  "known_api api \<longleftrightarrow> startswith api ''getambassador.io/'' \<or>
     startswith api ''networking.internal.knative.dev''"

definition readable :: "ac \<Rightarrow> bool" where
  "readable r \<longleftrightarrow> is_str (ac_apiVersion r) \<and> (case ac_errors r of None \<Rightarrow> True | Some e \<Rightarrow> is_str e)"

definition accepted :: "ac \<Rightarrow> bool" where
  "accepted r \<longleftrightarrow> (case ac_apiVersion r of PStr api \<Rightarrow> known_api api | _ \<Rightarrow> False) \<and>
     (case ac_errors r of None \<Rightarrow> True | Some (PStr e) \<Rightarrow> watt_errors e = [] | Some _ \<Rightarrow> False)"

definition valid_ac :: "ac \<Rightarrow> bool" where
  "valid_ac r \<longleftrightarrow> truthy (ac_apiVersion r) \<and> ac_kind r \<noteq> [] \<and> accepted r"

lemma accepted_readable: "accepted r \<Longrightarrow> readable r"
  by (cases "ac_apiVersion r"; cases "ac_errors r"; cases "the (ac_errors r)") (simp_all add: accepted_def readable_def)

lemma rs_ok_simps [simp]: "rs_ok (from_error st m)  = False" "rs_ok (rs_good st m) = True"
  by (simp_all add: from_error_def rs_from_error_def rich_status_init_def rs_good_def rs_OK_def)

lemma validate_errors_result:
  assumes "validate_errors st i c = Inr (rc, c')"
  shows "rs_ok rc \<longleftrightarrow> (case ac_errors (obj_at c i) of None \<Rightarrow> True | Some (PStr e) \<Rightarrow> watt_errors e = [] | Some _ \<Rightarrow> False)"
    and "c' = c \<or> c' = upd_obj i (\<lambda>r. r\<lparr>ac_errors := None\<rparr>) c"
  using assms by (auto simp: validate_errors_def Let_def split: option.splits pyval.splits if_splits)

lemma validate_object_result:
  assumes "validate_object st i c = Inr (rc, c')"
  shows "rs_ok rc \<longleftrightarrow> accepted (obj_at c i)"
    and "\<exists>c1. (c1 = c \<or> (\<exists>m. c1 = post_notice m (AC i) c)) \<and> (c' = c1 \<or> c' = upd_obj i (\<lambda>r. r\<lparr>ac_errors := None\<rparr>) c1)"
proof -
  obtain api where api: "ac_apiVersion (obj_at c i) = PStr api"
    using assms by (auto simp: validate_object_def split: pyval.splits)
  consider (unknown) "\<not> known_api api" "rc = from_error st (''apiVersion '' @ api @ '' unsupported'')" "c' = c"
    | (known) c1 where "known_api api" "c1 = c \<or> (\<exists>m. c1 = post_notice m (AC i) c)" "validate_errors st i c1 = Inr (rc, c')"
    using assms by (auto simp: validate_object_def api known_api_def Let_def split: if_splits)
  then show "rs_ok rc \<longleftrightarrow> accepted (obj_at c i)"
    and "\<exists>c1. (c1 = c \<or> (\<exists>m. c1 = post_notice m (AC i) c)) \<and> (c' = c1 \<or> c' = upd_obj i (\<lambda>r. r\<lparr>ac_errors := None\<rparr>) c1)"
  proof (atomize (full), cases)
    case unknown
    then show "rs_ok rc = accepted (obj_at c i) \<and>
        (\<exists>c1. (c1 = c \<or> (\<exists>m. c1 = post_notice m (AC i) c)) \<and> (c' = c1 \<or> c' = upd_obj i (\<lambda>r. r\<lparr>ac_errors := None\<rparr>) c1))"
      by (auto simp: accepted_def api)
  next
    case known
    have "obj_at c1 i = obj_at c i" using known(2) by auto
    then show "rs_ok rc = accepted (obj_at c i) \<and>
        (\<exists>c1. (c1 = c \<or> (\<exists>m. c1 = post_notice m (AC i) c)) \<and> (c' = c1 \<or> c' = upd_obj i (\<lambda>r. r\<lparr>ac_errors := None\<rparr>) c1))"
      using known(1,2) validate_errors_result [OF known(3)] by (auto simp: accepted_def api)
  qed
qed

lemma validate_object_returns: "readable (obj_at c i) \<Longrightarrow> \<exists>rc c'. validate_object st i c = Inr (rc, c')"
  by (auto simp: readable_def validate_object_def validate_errors_def Let_def split: pyval.splits option.splits)

lemma validate_object_raises: "validate_object st i c = Inl e \<Longrightarrow> \<not> readable (obj_at c i)"
  using validate_object_returns [of c i st] by auto

lemma validate_object_fields:
  assumes "validate_object st i c = Inr (rc, c')"
  shows "length (objs c') = length (objs c)" "stores c' = stores c" "current_resource c' = current_resource c"
    "errors c' = errors c" "sources c' = sources c"
  using validate_object_result(2) [OF assms] by auto

lemma validate_object_obj:
  assumes "validate_object st i c = Inr (rc, c')" and "i < length (objs c)"
  shows "j \<noteq> i \<Longrightarrow> obj_at c' j = obj_at c j"
    and "ac_rkey (obj_at c' j) = ac_rkey (obj_at c j)" and "ac_name (obj_at c' j) = ac_name (obj_at c j)"
    and "ac_namespace (obj_at c' j) = ac_namespace (obj_at c j)"
  using validate_object_result(2) [OF assms(1)] assms(2) by (auto simp: obj_at_upd)

lemma validate_object_inv:
  assumes "validate_object st i c = Inr (rc, c')" and "cfg_inv c" and "unstored i c"
  shows "cfg_inv c'" and "unstored i c'"
proof -
  have "unstored i (post_notice m r c)" for m r using assms(3) by (simp add: unstored_def)
  then show "cfg_inv c'"
    using validate_object_result(2) [OF assms(1)] assms(2,3) by (auto simp: cfg_inv_upd cfg_inv_post_notice)
  show "unstored i c'" using validate_object_fields [OF assms(1)] assms(3) by (simp add: unstored_def)
qed

definition claimed :: "settings \<Rightarrow> nat \<Rightarrow> config \<Rightarrow> config" where
  "claimed st i c =
     save_source i (if ac_namespace (obj_at c i) = None \<or> ac_namespace (obj_at c i) = Some []
       then upd_obj i (\<lambda>r. r\<lparr>ac_namespace := Some (ambassador_namespace st)\<rparr>)
              (c\<lparr>current_resource := Some i\<rparr>)
       else c\<lparr>current_resource := Some i\<rparr>)"

lemma process_eq:
  "process st i c =
     (let r = obj_at c i in
      if \<not> truthy (ac_apiVersion r) then Inr (from_error st ''need apiVersion'', c\<lparr>current_resource := Some i\<rparr>)
      else if ac_kind r = [] then Inr (from_error st ''need kind'', c\<lparr>current_resource := Some i\<rparr>)
      else rbind (validate_object st i (claimed st i c)) (\<lambda>(rc, c3).
        if \<not> rs_ok rc then Inr (rc, c3)
        else rbind (case dget StorageByKind (str_lower (ac_kind r)) of
                      Some store_as \<Rightarrow> Inr (safe_store st store_as i c3)
                    | None \<Rightarrow> handle st (str_lower (ac_kind r)) i c3)
               (\<lambda>c4. Inr (rs_good st (ac_kind r @ '' object processed successfully''),
                         c4\<lparr>current_resource := None\<rparr>))))"
  unfolding process_def claimed_def Let_def obj_at_same by (rule refl)

lemma claimed_fields [simp]:
  "length (objs (claimed st i c)) = length (objs c)" "stores (claimed st i c) = stores c"
  "current_resource (claimed st i c) = Some i" "errors (claimed st i c) = errors c"
  by (simp_all add: claimed_def)

lemma claimed_obj:
  assumes "i < length (objs c)"
  shows "j \<noteq> i \<Longrightarrow> obj_at (claimed st i c) j = obj_at c j"
    and "ac_rkey (obj_at (claimed st i c) j) = ac_rkey (obj_at c j)"
    and "ac_name (obj_at (claimed st i c) j) = ac_name (obj_at c j)"
    and "ac_kind (obj_at (claimed st i c) j) = ac_kind (obj_at c j)"
    and "ac_apiVersion (obj_at (claimed st i c) j) = ac_apiVersion (obj_at c j)"
    and "ac_errors (obj_at (claimed st i c) j) = ac_errors (obj_at c j)"
  using assms by (simp_all add: claimed_def obj_at_upd)

lemma claimed_inv:
  assumes "cfg_inv c" and "unstored i c"
  shows "cfg_inv (claimed st i c)" and "unstored i (claimed st i c)"
proof -
  have i: "i < length (objs c)" using assms(2) by (simp add: unstored_def)
  have c0: "cfg_inv (c\<lparr>current_resource := Some i\<rparr>)" "unstored i (c\<lparr>current_resource := Some i\<rparr>)"
    using assms i by (auto simp: cfg_inv_def unstored_def)
  then show "cfg_inv (claimed st i c)"
    using i by (simp add: claimed_def cfg_inv_save_source cfg_inv_upd)
  show "unstored i (claimed st i c)"
    using assms(2) by (simp add: unstored_def)
qed

lemma claimed_source: "i < length (objs c) \<Longrightarrow> dget (sources (claimed st i c)) (ac_rkey (obj_at c i)) = Some i"
  by (simp add: claimed_def save_source_def obj_at_upd)

lemma claimed_checks:
  assumes "i < length (objs c)"
  shows "accepted (obj_at (claimed st i c) i) = accepted (obj_at c i)" "readable (obj_at (claimed st i c) i) = readable (obj_at c i)"
  using claimed_obj(5,6) [OF assms, of st i] by (simp_all add: accepted_def readable_def)

lemma process_bad:
  assumes "i < length (objs c)" and "\<not> valid_ac (obj_at c i)"
  obtains (raises) e where "process st i c = Inl e" and "\<not> readable (obj_at c i)"
  | (reports) rc c' where "process st i c = Inr (rc, c')" and "\<not> rs_ok rc"
    and "length (objs c') = length (objs c)" and "current_resource c' = Some i"
    and "errors c' = errors c" and "ac_rkey (obj_at c' i) = ac_rkey (obj_at c i)"
    and "cfg_inv c \<longrightarrow> unstored i c \<longrightarrow> cfg_inv c'"
proof (cases "truthy (ac_apiVersion (obj_at c i)) \<and> ac_kind (obj_at c i) \<noteq> []")
  case False
  show thesis
    by (rule reports [of "if \<not> truthy (ac_apiVersion (obj_at c i)) then from_error st ''need apiVersion''
          else from_error st ''need kind''" "c\<lparr>current_resource := Some i\<rparr>"])
      (use False assms(1) in \<open>auto simp: process_eq Let_def cfg_inv_def\<close>)
next
  case True
  show thesis
  proof (cases "validate_object st i (claimed st i c)")
    case (Inl e)
    then have "process st i c = Inl e" using True by (simp add: process_eq Let_def)
    with validate_object_raises [OF Inl] show thesis by (intro raises) (simp_all add: claimed_checks assms(1))
  next
    case (Inr p)
    then obtain rc c3 where v: "validate_object st i (claimed st i c) = Inr (rc, c3)" by (cases p) simp
    have "\<not> rs_ok rc" using validate_object_result(1) [OF v] True assms by (simp add: valid_ac_def claimed_checks)
    moreover from this have "process st i c = Inr (rc, c3)" using True by (simp add: process_eq Let_def v)
    ultimately show thesis
      by (intro reports [of rc c3])
        (simp_all add: validate_object_fields [OF v] validate_object_obj [OF v] claimed_obj assms(1) validate_object_inv [OF v] claimed_inv)
  qed
qed

lemma process_good:
  assumes "i < length (objs c)" and "valid_ac (obj_at c i)"
  obtains rc c3 where "validate_object st i (claimed st i c) = Inr (rc, c3)"
    and "process st i c =
      rbind (case dget StorageByKind (str_lower (ac_kind (obj_at c i))) of
               Some store_as \<Rightarrow> Inr (safe_store st store_as i c3)
             | None \<Rightarrow> handle st (str_lower (ac_kind (obj_at c i))) i c3)
        (\<lambda>c4. Inr (rs_good st (ac_kind (obj_at c i) @ '' object processed successfully''), c4\<lparr>current_resource := None\<rparr>))"
proof -
  have "readable (obj_at (claimed st i c) i)"
    using assms accepted_readable by (simp add: claimed_checks valid_ac_def)
  then obtain rc c3 where v: "validate_object st i (claimed st i c) = Inr (rc, c3)" using validate_object_returns by blast
  moreover have "rs_ok rc" using validate_object_result(1) [OF v] assms by (simp add: valid_ac_def claimed_checks)
  ultimately show thesis using assms(2) by (intro that [of rc c3]) (simp_all add: process_eq Let_def valid_ac_def)
qed

lemma process_good_inv:
  assumes "cfg_inv c" and "unstored i c" and "valid_ac (obj_at c i)"
    and "process st i c = Inr (rc, c')"
  shows "cfg_inv c'" and "rs_ok rc"
proof -
  have i: "i < length (objs c)" using assms(2) by (simp add: unstored_def)
  obtain rc3 c3 where v: "validate_object st i (claimed st i c) = Inr (rc3, c3)" and p: "process st i c =
      rbind (case dget StorageByKind (str_lower (ac_kind (obj_at c i))) of
               Some store_as \<Rightarrow> Inr (safe_store st store_as i c3)
             | None \<Rightarrow> handle st (str_lower (ac_kind (obj_at c i))) i c3)
        (\<lambda>c4. Inr (rs_good st (ac_kind (obj_at c i) @ '' object processed successfully''), c4\<lparr>current_resource := None\<rparr>))"
    using process_good [OF i assms(3)] by blast
  have "cfg_inv c3" "unstored i c3" using validate_object_inv [OF v] assms(1,2) by (simp_all add: claimed_inv)
  then show "cfg_inv c'" and "rs_ok rc"
    using assms(4) unfolding p
    by (auto simp: res_simps intro!: cfg_inv_other_fields(2) intro: safe_store_inv handle_inv split: option.splits)
qed

lemma load_one_cases:
  assumes "cfg_inv c"
  obtains (skip) "good_ambassador_id st (ac_attrs r) \<noteq> Some True" "load_one st r c = Inr c"
  | (raises) e where "\<not> readable r" "load_one st r c = Inl e"
  | (bad) c1 rc where "good_ambassador_id st (ac_attrs r) = Some True" "\<not> valid_ac r"
      "load_one st r c = Inr (post_error_richstatus rc (AC (length (objs c))) None c1)"
      "errors c1 = errors c" "current_resource c1 = Some (length (objs c))" "cfg_inv c1"
      "length (objs c1) = Suc (length (objs c))" "ac_rkey (obj_at c1 (length (objs c))) = ac_rkey r"
  | (good) c0 where "good_ambassador_id st (ac_attrs r) = Some True" "valid_ac r"
      "alloc r c = (length (objs c), c0)" "cfg_inv c0" "unstored (length (objs c)) c0"
      "obj_at c0 (length (objs c)) = r"
      "load_one st r c = rbind (process st (length (objs c)) c0) (\<lambda>(rc, c1). Inr c1)"
      "\<And>rc c1. process st (length (objs c)) c0 = Inr (rc, c1) \<Longrightarrow> cfg_inv c1"
proof (cases "good_ambassador_id st (ac_attrs r) = Some True")
  case g: True
  let ?i = "length (objs c)"
  define c0 where "c0 = snd (alloc r c)"
  have a: "alloc r c = (?i, c0)" by (simp add: c0_def alloc_def)
  note c0 = cfg_inv_alloc [OF assms a]
  have i: "?i < length (objs c0)" using c0(2) by (simp add: unstored_def)
  have len: "length (objs c0) = Suc ?i" and err: "errors c0 = errors c"
    by (simp_all add: c0_def alloc_def)
  show thesis
  proof (cases "valid_ac r")
    case False
    then have "\<not> valid_ac (obj_at c0 ?i)" by (simp add: c0(3))
    with i show thesis
    proof (cases rule: process_bad [where st = st])
      case (raises e)
      then show thesis by (intro that(2) [of e]) (use g a c0(3) in \<open>simp_all add: load_one_def\<close>)
    next
      case (reports rc c')
      show thesis
        by (rule bad [of rc c']) (use g False reports c0 a len err in \<open>simp_all add: load_one_def\<close>)
    qed
  next
    case True
    have v: "valid_ac (obj_at c0 ?i)" using True by (simp add: c0(3))
    note good_p = process_good_inv [OF c0(1,2) v]
    have "load_one st r c = rbind (process st ?i c0) (\<lambda>(rc, c1). Inr c1)"
      using g a good_p(2) [of st]
      by (cases "process st ?i c0") (auto simp: load_one_def)
    with g True a c0(1-3) good_p(1) show thesis by (intro good)
  qed
qed (use skip in \<open>simp add: load_one_def\<close>)

lemma load_one_inv:
  assumes "cfg_inv c" and "load_one st r c = Inr c'"
  shows "cfg_inv c'"
  using assms(1)
proof (cases rule: load_one_cases [where st = st and r = r])
  case (bad c1 rc)
  then show ?thesis using assms(2) by (auto simp: cfg_inv_post_error)
next
  case (good c0)
  from assms(2) obtain rc c1 where "process st (length (objs c)) c0 = Inr (rc, c1)" "c' = c1"
    unfolding good(7) by (auto simp: res_simps)
  then show ?thesis using good(8) by simp
qed (use assms in auto)

lemma load_all_inv_aux: "cfg_inv c \<Longrightarrow> rfold (load_one st) rs c = Inr c' \<Longrightarrow> cfg_inv c'"
  by (erule rfold_invariant [where P = cfg_inv, rotated]) (auto intro: load_one_inv)

section \<open>Errors accumulate\<close>

lemma post_error_keeps:
  "dhas (errors c) k \<Longrightarrow> dhas (errors (post_error_richstatus rc r rk c)) k"
  by (simp add: post_error_richstatus_def Let_def split: rsrc.split)

lemma safe_store_keeps_errors: "dhas (errors c) k \<Longrightarrow> dhas (errors (safe_store st b i c)) k"
  by (simp add: safe_store_eq store_prep_def Let_def post_error_keeps split: option.split)

lemma store_by_rkey_keeps_errors:
  "dhas (errors c) k \<Longrightarrow> dhas (errors (store_by_rkey st b i c)) k"
  by (simp add: store_by_rkey_def Let_def post_error_string_def post_error_keeps split: option.split)

lemma handle_keeps_errors:
  "dhas (errors c) k \<Longrightarrow> handle st lkind i c = Inr c' \<Longrightarrow> dhas (errors c') k"
  by (auto simp: handle_def handle_secret_def handle_ingress_def handle_service_def save_object_def
      handle_module_def alloc_def res_simps Let_def safe_store_keeps_errors
      store_by_rkey_keeps_errors split: if_splits option.splits pyval.splits)

lemma load_one_keeps_errors:
  assumes "cfg_inv c" and "load_one st r c = Inr c'" and "dhas (errors c) k"
  shows "dhas (errors c') k"
  using assms(1)
proof (cases rule: load_one_cases [where st = st and r = r])
  case (bad c1 rc)
  then show ?thesis using assms(2,3) by (auto simp: post_error_keeps)
next
  case (good c0)
  have i: "length (objs c) < length (objs c0)" using good(5) by (simp add: unstored_def)
  have v: "valid_ac (obj_at c0 (length (objs c)))" using good(2,6) by simp
  have e: "errors c0 = errors c" using good(3) by (auto simp: alloc_def)
  from assms(2) obtain rc where p: "process st (length (objs c)) c0 = Inr (rc, c')"
    unfolding good(7) by (auto simp: res_simps)
  obtain rc3 c3 where w: "validate_object st (length (objs c)) (claimed st (length (objs c)) c0) = Inr (rc3, c3)"
    and q: "process st (length (objs c)) c0 =
      rbind (case dget StorageByKind (str_lower (ac_kind r)) of
               Some store_as \<Rightarrow> Inr (safe_store st store_as (length (objs c)) c3)
             | None \<Rightarrow> handle st (str_lower (ac_kind r)) (length (objs c)) c3)
        (\<lambda>c4. Inr (rs_good st (ac_kind r @ '' object processed successfully''), c4\<lparr>current_resource := None\<rparr>))"
    using process_good [OF i v] unfolding good(6) by blast
  have "dhas (errors c3) k" using validate_object_fields(4) [OF w] assms(3) by (simp add: e)
  then show ?thesis
    using p unfolding q
    by (auto simp: res_simps safe_store_keeps_errors elim!: handle_keeps_errors [rotated] split: option.splits)
qed (use assms in auto)

lemma rfold_load_keeps_errors:
  assumes "cfg_inv c" and "rfold (load_one st) rs c = Inr c'" and "dhas (errors c) k"
  shows "dhas (errors c') k"
  using assms
proof (induction rs arbitrary: c)
  case (Cons r rs)
  then obtain c1 where "load_one st r c = Inr c1" "rfold (load_one st) rs c1 = Inr c'"
    by (auto simp: res_simps)
  with Cons show ?case using load_one_inv load_one_keeps_errors by blast
qed simp

lemma load_one_reports:
  assumes "cfg_inv c" and "load_one st r c = Inr c'"
    and "good_ambassador_id st (ac_attrs r) = Some True" and "\<not> valid_ac r"
  shows "dhas (errors c') (ac_rkey r)" and "current_resource c' = Some (length (objs c))"
    and "length (objs c) < length (objs c')" and "ac_rkey (obj_at c' (length (objs c))) = ac_rkey r"
proof -
  from assms(1) obtain c1 rc where *:
      "load_one st r c = Inr (post_error_richstatus rc (AC (length (objs c))) None c1)"
      "current_resource c1 = Some (length (objs c))" "length (objs c1) = Suc (length (objs c))"
      "ac_rkey (obj_at c1 (length (objs c))) = ac_rkey r"
    by (cases rule: load_one_cases [where st = st and r = r]) (use assms(2-4) in auto)
  with assms(2) show "dhas (errors c') (ac_rkey r)"
    "current_resource c' = Some (length (objs c))"
    "length (objs c) < length (objs c')" "ac_rkey (obj_at c' (length (objs c))) = ac_rkey r"
    by (auto simp: post_error_errors Let_def)
qed

lemma load_one_returns:
  assumes "cfg_inv c" and "str_lower (ac_kind r) \<noteq> ''module''" and "readable r"
  shows "\<exists>c'. load_one st r c = Inr c'"
  using assms(1)
proof (cases rule: load_one_cases [where st = st and r = r])
  case (good c0)
  have i: "length (objs c) < length (objs c0)" using good(5) by (simp add: unstored_def)
  have v: "valid_ac (obj_at c0 (length (objs c)))" using good(2,6) by simp
  show ?thesis
    using i v
  proof (rule process_good [where st = st])
    fix rc3 c3
    assume p: "process st (length (objs c)) c0 =
      rbind (case dget StorageByKind (str_lower (ac_kind (obj_at c0 (length (objs c))))) of
               Some store_as \<Rightarrow> Inr (safe_store st store_as (length (objs c)) c3)
             | None \<Rightarrow> handle st (str_lower (ac_kind (obj_at c0 (length (objs c))))) (length (objs c)) c3)
        (\<lambda>c4. Inr (rs_good st (ac_kind (obj_at c0 (length (objs c))) @ '' object processed successfully''),
           c4\<lparr>current_resource := None\<rparr>))"
    show ?thesis unfolding good(7) p by (simp add: good(6) handle_def assms(2) split: option.split)
  qed
qed (use assms(3) in auto)

section \<open>Resources with their own names\<close>

definition bucket :: "config \<Rightarrow> string \<Rightarrow> nat pydict" where
  "bucket c b = dget_or (stores c) b []"

text \<open>What holds of a bucket after storing the references \<open>ps\<close> (names \<open>N\<close>, namespaces \<open>S\<close>).\<close>

definition filed :: "(nat \<Rightarrow> string) \<Rightarrow> (nat \<Rightarrow> string) \<Rightarrow> string \<Rightarrow> nat set \<Rightarrow> nat set \<Rightarrow> config \<Rightarrow> bool" where
  "filed N S b I P c \<longleftrightarrow>
     (\<forall>i \<in> P. \<exists>k. dget (bucket c b) k = Some i) \<and>
     (\<forall>k i. dget (bucket c b) k = Some i \<longrightarrow> i \<in> P \<and> (k = N i \<or> k = N i @ ''.'' @ S i)) \<and>
     (\<forall>i \<in> I. i < length (objs c) \<and> ac_namespace (obj_at c i) = Some (S i)) \<and>
     (\<forall>i \<in> I - P. ac_name (obj_at c i) = N i)"

lemma bucket_safe_store:
  "bucket (safe_store st b i c) b = dset (ac_name (obj_at (store_prep st b i c) i)) i (bucket c b)"
  by (simp add: bucket_def safe_store_eq Let_def dget_or_def [of "dset _ _ _"])

lemma obj_at_safe_store: "obj_at (safe_store st b i c) = obj_at (store_prep st b i c)"
  by (simp add: safe_store_eq Let_def)

lemma dot_neq: "CHR ''.'' \<notin> set n \<Longrightarrow> m @ ''.'' @ s \<noteq> n"
  by auto

lemma dotted_name:
  "CHR ''.'' \<notin> set m \<Longrightarrow> CHR ''.'' \<notin> set n \<Longrightarrow> m @ ''.'' @ s = n @ ''.'' @ t \<Longrightarrow> m = n \<and> s = t"
proof (induction m arbitrary: n)
  case Nil
  then show ?case by (cases n) auto
next
  case (Cons x m)
  then show ?case by (cases n) auto
qed

lemma filed_step:
  assumes f: "filed N S b I P c" and i: "i \<in> I" "i \<notin> P" "P \<subseteq> I"
    and dot: "\<And>j. j \<in> I \<Longrightarrow> CHR ''.'' \<notin> set (N j)"
    and inj: "\<And>j. j \<in> I \<Longrightarrow> N j = N i \<Longrightarrow> S j = S i \<Longrightarrow> j = i"
  shows "filed N S b I (insert i P) (safe_store st b i c)"
    and "errors (safe_store st b i c) = errors c"
proof -
  have len: "i < length (objs c)" and ns: "\<And>j. j \<in> I \<Longrightarrow> ac_namespace (obj_at c j) = Some (S j)"
    and nm: "ac_name (obj_at c i) = N i"
    using f i by (auto simp: filed_def)
  have B: "j \<in> P \<and> (k = N j \<or> k = N j @ ''.'' @ S j)" if "dget (bucket c b) k = Some j" for j k
    using f that by (auto simp: filed_def)
  have dotted: "N i @ ''.'' @ s \<noteq> N j" "N i \<noteq> N j @ ''.'' @ s" if "j \<in> I" for j s
    using dot_neq [OF dot [OF that]] dot_neq [OF dot [OF i(1)]] by metis+
  have plain: "ac_namespace (obj_at c i) \<noteq> ac_namespace (obj_at c j)"
    if "dget (bucket c b) (N i) = Some j" for j
  proof -
    have j: "j \<in> P" "N i = N j" using B [OF that] dotted(2) i(3) by auto
    then have "S j \<noteq> S i" using inj [of j] i(2,3) by auto
    then show ?thesis using ns j i by auto
  qed
  define k where "k = ac_name (obj_at (store_prep st b i c) i)"
  have k: "k = (if dhas (bucket c b) (N i) then N i @ ''.'' @ S i else N i)"
    using plain ns [OF i(1)]
    by (auto simp: k_def store_prep_obj(4) [OF len] nm bucket_def dhas_def ns_str_def
        split: option.split)
  have free: "dget (bucket c b) k = None"
  proof (cases "dget (bucket c b) k")
    case (Some j)
    from B [OF this] have j: "j \<in> P" "k = N j \<or> k = N j @ ''.'' @ S j" by auto
    show ?thesis
    proof (cases "dhas (bucket c b) (N i)")
      case True
      then have "N i @ ''.'' @ S i = N j @ ''.'' @ S j" using j k dotted i(3) by auto
      then have "N j = N i \<and> S j = S i"
        using dotted_name [of "N i" "N j" "S i" "S j"] dot i j(1) by auto
      then show ?thesis using inj [of j] i j(1) by auto
    next
      case False
      with k Some show ?thesis by (simp add: dhas_def)
    qed
  qed
  show "filed N S b I (insert i P) (safe_store st b i c)"
    unfolding filed_def bucket_safe_store k_def [symmetric] obj_at_safe_store
  proof (intro conjI ballI allI impI)
    show "\<exists>k'. dget (dset k i (bucket c b)) k' = Some j" if "j \<in> insert i P" for j
    proof (cases "j = i")
      case False
      with that f obtain k' where k': "dget (bucket c b) k' = Some j" by (auto simp: filed_def)
      with free have "k' \<noteq> k" by auto
      with k' show ?thesis by (intro exI [of _ k']) simp
    qed auto
    show "j \<in> insert i P" "k' = N j \<or> k' = N j @ ''.'' @ S j"
      if "dget (dset k i (bucket c b)) k' = Some j" for k' j
      using that B [of k' j] k by (auto split: if_splits)
    show "j < length (objs (safe_store st b i c))"
      "ac_namespace (obj_at (store_prep st b i c) j) = Some (S j)" if "j \<in> I" for j
      using that f ns by (auto simp: store_prep_obj(3) [OF len] filed_def)
    show "ac_name (obj_at (store_prep st b i c) j) = N j" if "j \<in> I - insert i P" for j
      using that f by (auto simp: store_prep_obj(1) [OF len] filed_def)
  qed
  show "errors (safe_store st b i c) = errors c"
    using plain by (auto simp: safe_store_eq store_prep_def Let_def nm bucket_def [symmetric]
        split: option.split)
qed

lemma filed_all:
  assumes "filed N S b I P c" and "set is \<subseteq> I" and "distinct is" and "set is \<inter> P = {}" and "P \<subseteq> I"
    and "\<And>j. j \<in> I \<Longrightarrow> CHR ''.'' \<notin> set (N j)"
    and "\<And>i j. i \<in> I \<Longrightarrow> j \<in> I \<Longrightarrow> N j = N i \<Longrightarrow> S j = S i \<Longrightarrow> j = i"
  shows "filed N S b I (set is \<union> P) (fold (safe_store st b) is c) \<and>
    errors (fold (safe_store st b) is c) = errors c"
  using assms(1-5)
proof (induction "is" arbitrary: c P)
  case (Cons i "is")
  have step: "filed N S b I (insert i P) (safe_store st b i c)"
    "errors (safe_store st b i c) = errors c"
    using Cons.prems assms(6,7) by (intro filed_step [of N S b I P c i]; auto)+
  from Cons.IH [OF step(1)] Cons.prems step(2) show ?case by simp
qed simp

lemma cfg_inv_init: "cfg_inv config_init"
  unfolding config_init_def config_reset_def alloc_def save_source_def obj_at_def
    internal_resource_def diagnostics_resource_def Let_def
  by (rule cfg_invI) (auto simp: obj_at_def dset_def split: if_splits)

lemma load_all_fold:
  assumes "cfg_inv c"
  shows "load_all st rs c = rfold (load_one st) rs c"
proof (cases "rfold (load_one st) rs c")
  case (Inr c')
  then have "fatal_errors c' = 0" using load_all_inv_aux [OF assms] cfg_invD(4) by blast
  with Inr show ?thesis by (simp add: load_all_def)
qed (simp add: load_all_def)

section \<open>Properties\<close>

definition demo_settings :: settings where
  "demo_settings = \<lparr>ambassador_id = ''default'', ambassador_namespace = ''default'',
     single_namespace = False, certs_single_namespace = False, host_name = ''h'', version = ''v''\<rparr>"

definition demo_ac :: "string \<Rightarrow> string \<Rightarrow> string \<Rightarrow> string \<Rightarrow> ac" where
  "demo_ac kind api name ns =
     \<lparr>ac_rkey = name @ ''.'' @ ns, ac_location = name @ ''.'' @ ns, ac_kind = kind, ac_name = name,
      ac_namespace = Some ns, ac_apiVersion = PStr api, ac_serialization = None, ac_errors = None,
      ac_attrs = []\<rparr>"

text \<open>
  C30: loading resources keeps the store consistent: every source stays filed under its own
  key, every stored resource under its name or its key, and every reference points to an
  existing object.
\<close>

theorem load_all_keeps_inv:
  assumes "cfg_inv c" and "load_all st rs c = Inr c'"
  shows "cfg_inv c'"
  using assms load_all_inv_aux by (simp add: load_all_fold)

theorem load_all_keeps_inv_witness:
  "\<exists>c'. load_all demo_settings [demo_ac ''Host'' ''getambassador.io/v3alpha1'' ''a'' ''x''] config_init
      = Inr c' \<and> length (stores c') = 1 \<and> cfg_inv c'"
proof -
  have "map_sum (\<lambda>_. ()) (\<lambda>c. length (stores c))
      (load_all demo_settings [demo_ac ''Host'' ''getambassador.io/v3alpha1'' ''a'' ''x''] config_init)
      = Inr 1"
    by code_simp
  then obtain c' where c': "load_all demo_settings
      [demo_ac ''Host'' ''getambassador.io/v3alpha1'' ''a'' ''x''] config_init = Inr c'"
    "length (stores c') = 1"
    by (cases "load_all demo_settings
      [demo_ac ''Host'' ''getambassador.io/v3alpha1'' ''a'' ''x''] config_init") auto
  from load_all_keeps_inv [OF cfg_inv_init c'(1)] c' show ?thesis by blast
qed

text \<open>
  C31: loading returns for every list of resources in which no resource is a Module and each has
  a string as its API version and, if it has errors, a string of them: bad resources become posted
  errors. (Any other API version or errors raise, as does a Module without a configuration.)
\<close>

theorem load_all_returns:
  assumes "cfg_inv c" and "\<And>r. r \<in> set rs \<Longrightarrow> str_lower (ac_kind r) \<noteq> ''module'' \<and> readable r"
  shows "\<exists>c'. load_all st rs c = Inr c'"
proof -
  have "\<exists>c'. rfold (load_one st) rs c = Inr c'"
    using assms
  proof (induction rs arbitrary: c)
    case (Cons r rs)
    then obtain c1 where c1: "load_one st r c = Inr c1" using load_one_returns by fastforce
    with Cons.prems have "cfg_inv c1" using load_one_inv by blast
    from Cons.IH [OF this] Cons.prems(2) show ?case by (simp add: c1)
  qed simp
  then show ?thesis using assms(1) by (simp add: load_all_fold)
qed

theorem load_all_returns_witness:
  "\<exists>c'. load_all demo_settings [demo_ac ''Bogus'' ''v1'' ''a'' ''x''] config_init = Inr c'"
proof (rule load_all_returns [OF cfg_inv_init])
  show "str_lower (ac_kind r) \<noteq> ''module'' \<and> readable r" if "r \<in> set [demo_ac ''Bogus'' ''v1'' ''a'' ''x'']" for r
  proof -
    have "str_lower (ac_kind (demo_ac ''Bogus'' ''v1'' ''a'' ''x'')) \<noteq> ''module'' \<and>
      readable (demo_ac ''Bogus'' ''v1'' ''a'' ''x'')" by code_simp
    with that show ?thesis by simp
  qed
qed

text \<open>
  C8: no invalid resource is dropped silently: if a resource belongs to this Ambassador and
  has an unsupported API version or carries errors from the validation upstream, then after
  loading there is an error under its key.
\<close>

theorem invalid_resource_reported:
  assumes "cfg_inv c" and "load_all st rs c = Inr c'" and "r \<in> set rs"
    and "good_ambassador_id st (ac_attrs r) = Some True" and "\<not> valid_ac r"
  shows "dhas (errors c') (ac_rkey r)"
proof -
  obtain rs1 rs2 where rs: "rs = rs1 @ r # rs2" using assms(3) by (meson split_list)
  with assms(1,2) obtain c1 c2 where c1: "rfold (load_one st) rs1 c = Inr c1"
      "load_one st r c1 = Inr c2" "rfold (load_one st) rs2 c2 = Inr c'"
    by (auto simp: load_all_fold rfold_append res_simps)
  have i1: "cfg_inv c1" using load_all_inv_aux [OF assms(1) c1(1)] .
  have "dhas (errors c2) (ac_rkey r)" using load_one_reports(1) [OF i1 c1(2) assms(4,5)] .
  with load_one_inv [OF i1 c1(2)] c1(3) show ?thesis by (rule rfold_load_keeps_errors)
qed

theorem invalid_resource_reported_witness:
  "\<exists>c'. load_all demo_settings [demo_ac ''Host'' ''v1'' ''a'' ''x''] config_init = Inr c' \<and>
     dhas (errors c') ''a.x''"
proof -
  let ?r = "demo_ac ''Host'' ''v1'' ''a'' ''x''"
  have "map_sum (\<lambda>_. ()) (\<lambda>_. ()) (load_all demo_settings [?r] config_init) = Inr ()"
    by code_simp
  then obtain c' where c': "load_all demo_settings [?r] config_init = Inr c'"
    by (cases "load_all demo_settings [?r] config_init") auto
  have "good_ambassador_id demo_settings (ac_attrs ?r) = Some True" "\<not> valid_ac ?r"
    "ac_rkey ?r = ''a.x''"
    by code_simp+
  with invalid_resource_reported [OF cfg_inv_init c', of ?r] c' show ?thesis by simp
qed

text \<open>
  C10: storing resources whose names have no dot and that differ in name or namespace loses
  none of them and posts no error: every one is in the bucket afterwards.
\<close>

theorem distinct_resources_kept:
  assumes "dget (stores c) b = None" and "distinct is"
    and "\<And>i. i \<in> set is \<Longrightarrow> i < length (objs c) \<and> ac_namespace (obj_at c i) = Some (S i) \<and>
           CHR ''.'' \<notin> set (ac_name (obj_at c i))"
    and "\<And>i j. i \<in> set is \<Longrightarrow> j \<in> set is \<Longrightarrow> ac_name (obj_at c j) = ac_name (obj_at c i) \<Longrightarrow>
           S j = S i \<Longrightarrow> j = i"
  shows "(\<forall>i \<in> set is. \<exists>k. dget (bucket (fold (safe_store st b) is c) b) k = Some i) \<and>
    errors (fold (safe_store st b) is c) = errors c"
proof -
  have "filed (\<lambda>i. ac_name (obj_at c i)) S b (set is) {} c"
    using assms(1,3) by (auto simp: filed_def bucket_def dget_or_def)
  from filed_all [OF this, of "is" st] assms(2-4) show ?thesis
    by (auto simp: filed_def)
qed

definition demo_config :: config where
  "demo_config = config_init\<lparr>objs := [demo_ac ''Host'' ''a'' ''n'' ''x'', demo_ac ''Host'' ''a'' ''n'' ''y'']\<rparr>"

theorem distinct_resources_kept_witness:
  "(\<exists>k. dget (bucket (fold (safe_store demo_settings ''hosts'') [0, 1] demo_config) ''hosts'') k = Some 0) \<and>
   (\<exists>k. dget (bucket (fold (safe_store demo_settings ''hosts'') [0, 1] demo_config) ''hosts'') k = Some 1)"
proof -
  let ?S = "\<lambda>i. if i = (0::nat) then ''x'' else ''y''"
  have objs: "obj_at demo_config 0 = demo_ac ''Host'' ''a'' ''n'' ''x''"
    "obj_at demo_config 1 = demo_ac ''Host'' ''a'' ''n'' ''y''" "length (objs demo_config) = 2"
    "dget (stores demo_config) ''hosts'' = None"
    by (simp_all add: demo_config_def obj_at_def config_init_def config_reset_def alloc_def
        save_source_def Let_def)
  have "(\<forall>i \<in> set [0, 1]. \<exists>k. dget (bucket (fold (safe_store demo_settings ''hosts'') [0, 1] demo_config)
      ''hosts'') k = Some i) \<and>
    errors (fold (safe_store demo_settings ''hosts'') [0, 1] demo_config) = errors demo_config"
    by (rule distinct_resources_kept [where S = ?S]) (use objs in \<open>auto simp: demo_ac_def\<close>)
  then show ?thesis by simp
qed

text \<open>
  C37: renaming can lose a resource in silence. When the name of a resource is taken in another
  namespace, it is filed as its name, a dot and its namespace. If a resource is filed under that
  name already, it is replaced: nothing refers to it any more, every other entry stays, and no error
  is posted.
\<close>

theorem renamed_resource_overwrites:
  assumes "i < length (objs c)" and "dget (bucket c b) (ac_name (obj_at c i)) = Some k"
    and "ac_namespace (obj_at c k) \<noteq> ac_namespace (obj_at c i)"
    and "full = ac_name (obj_at c i) @ ''.'' @ ns_str (obj_at c i)" and "dget (bucket c b) full = Some j" and "j \<noteq> i"
    and "\<forall>n. dget (bucket c b) n = Some j \<longrightarrow> n = full"
  shows "errors (safe_store st b i c) = errors c \<and>
    (\<forall>n. dget (bucket (safe_store st b i c) b) n = (if n = full then Some i else dget (bucket c b) n)) \<and>
    (\<forall>n. dget (bucket (safe_store st b i c) b) n \<noteq> Some j)"
proof -
  have "ac_name (obj_at (upd_obj i (\<lambda>r. r\<lparr>ac_name := ac_name r @ ''.'' @ ns_str r\<rparr>) c') i) = full"
    if "objs c' = objs c" for c'
    using that assms(1,4) by (simp add: obj_at_upd) (simp add: obj_at_def)
  moreover have "obj_at (c\<lparr>stores := x\<rparr>) = obj_at c" for x by simp
  ultimately have s: "errors (safe_store st b i c) = errors c"
      "bucket (safe_store st b i c) b = dset full i (bucket c b)"
    using assms(2,3) by (simp_all add: safe_store_def Let_def bucket_def dget_or_def)
  then show ?thesis using assms(6,7) by auto
qed

text \<open>
  The resources of the witness: the Hosts \<open>foo.bar\<close> of the namespace \<open>x\<close> and \<open>foo\<close> of \<open>default\<close> are
  filed, and the Host \<open>foo\<close> of \<open>bar\<close> comes next.
\<close>

definition demo_hosts :: config where
  "demo_hosts =
     fold (safe_store demo_settings ''hosts'') [2, 3]
       (snd (alloc (demo_ac ''Host'' ''getambassador.io/v3alpha1'' ''foo'' ''bar'')
       (snd (alloc (demo_ac ''Host'' ''getambassador.io/v3alpha1'' ''foo'' ''default'')
       (snd (alloc (demo_ac ''Host'' ''getambassador.io/v3alpha1'' ''foo.bar'' ''x'') config_init))))))"

theorem renamed_resource_overwrites_witness:
  "dget (bucket demo_hosts ''hosts'') ''foo.bar'' = Some 2 \<and>
   dget (bucket (safe_store demo_settings ''hosts'' 4 demo_hosts) ''hosts'') ''foo.bar'' = Some 4 \<and>
   errors (safe_store demo_settings ''hosts'' 4 demo_hosts) = errors demo_hosts"
proof -
  have d: "bucket demo_hosts ''hosts'' = [(''foo.bar'', 2), (''foo'', 3)]" "length (objs demo_hosts) = 5"
    "ac_name (obj_at demo_hosts 4) = ''foo''" "ns_str (obj_at demo_hosts 4) = ''bar''"
    "ac_namespace (obj_at demo_hosts 4) = Some ''bar''" "ac_namespace (obj_at demo_hosts 3) = Some ''default''"
    by code_simp+
  have "errors (safe_store demo_settings ''hosts'' 4 demo_hosts) = errors demo_hosts \<and>
    (\<forall>n. dget (bucket (safe_store demo_settings ''hosts'' 4 demo_hosts) ''hosts'') n =
       (if n = ''foo.bar'' then Some 4 else dget (bucket demo_hosts ''hosts'') n)) \<and>
    (\<forall>n. dget (bucket (safe_store demo_settings ''hosts'' 4 demo_hosts) ''hosts'') n \<noteq> Some 2)"
    by (rule renamed_resource_overwrites [where k = 3]) (simp_all add: d)
  then show ?thesis by (simp add: d)
qed

text \<open>
  C38: after a load whose last resource is invalid, that resource is still the current one, so
  an error that is later posted without a resource is filed under its key and not under the
  global one.
\<close>

theorem stale_current_resource:
  assumes "cfg_inv c" and "load_all st (rs @ [r]) c = Inr c'"
    and "good_ambassador_id st (ac_attrs r) = Some True" and "\<not> valid_ac r"
  shows "dget (errors (post_error_string st msg NoResource None c')) (ac_rkey r) =
      Some (the (dget (errors c') (ac_rkey r)) @ [rs_as_dict (from_error st msg)]) \<and>
    (ac_rkey r \<noteq> ''-global-'' \<longrightarrow>
      dget (errors (post_error_string st msg NoResource None c')) ''-global-'' =
      dget (errors c') ''-global-'')"
proof -
  obtain c1 where c1: "rfold (load_one st) rs c = Inr c1" "load_one st r c1 = Inr c'"
    using assms(1,2) by (auto simp: load_all_fold rfold_append res_simps)
  have "cfg_inv c1" using load_all_inv_aux [OF assms(1) c1(1)] .
  note rep = load_one_reports [OF this c1(2) assms(3,4)]
  have "errors (post_error_string st msg NoResource None c') =
      dset (ac_rkey r) (dget_or (errors c') (ac_rkey r) [] @ [rs_as_dict (from_error st msg)]) (errors c')"
    using rep(2,4)
    by (simp add: post_error_string_def post_error_richstatus_def or_current_def rsrc_key_def Let_def)
  then show ?thesis using rep(1) by (auto simp: dget_or_def elim: dhasE)
qed

theorem stale_current_resource_witness:
  "\<exists>c'. load_all demo_settings ([] @ [demo_ac ''Host'' ''v1'' ''a'' ''x'']) config_init = Inr c' \<and>
     dhas (errors (post_error_string demo_settings ''late'' NoResource None c')) ''a.x'' \<and>
     dget (errors (post_error_string demo_settings ''late'' NoResource None c')) ''-global-'' =
     dget (errors c') ''-global-''"
proof -
  let ?r = "demo_ac ''Host'' ''v1'' ''a'' ''x''"
  have "map_sum (\<lambda>_. ()) (\<lambda>_. ()) (load_all demo_settings ([] @ [?r]) config_init) = Inr ()"
    by code_simp
  then obtain c' where c': "load_all demo_settings ([] @ [?r]) config_init = Inr c'"
    by (cases "load_all demo_settings ([] @ [?r]) config_init") auto
  have "good_ambassador_id demo_settings (ac_attrs ?r) = Some True" "\<not> valid_ac ?r"
    and k: "ac_rkey ?r = ''a.x''"
    by code_simp+
  from stale_current_resource [OF cfg_inv_init c' this(1,2), of "''late''"] c' show ?thesis
    unfolding k by (auto intro: dhasI)
qed

end
