(* ===== verification/KObject.thy ===== *)
theory KObject
  imports ConfigStore
begin

text \<open>
  Kubernetes objects, \<open>fetch/k8sobject.py\<close>: the type \<open>gvk\<close> (API group, version and kind), the
  identity \<open>kkey\<close> of an object, and the object itself, a raw dictionary. \<open>kobject_init\<close> is the
  constructor: it turns a missing \<open>apiVersion\<close>, \<open>kind\<close>, \<open>metadata\<close> or \<open>name\<close> into a \<open>ValueError\<close> and
  lets every other exception through. Kubernetes makes these four strings; a value of another
  type is a \<open>TypeError\<close> of the model.
\<close>

record gvk =
  api_version :: string
  gvk_kind :: string

definition split_slash :: "string \<Rightarrow> string list" where
  "split_slash s = (if CHR ''/'' \<in> set s
     then [takeWhile (\<lambda>x. x \<noteq> CHR ''/'') s, tl (dropWhile (\<lambda>x. x \<noteq> CHR ''/'') s)] else [s])"

definition api_group :: "gvk \<Rightarrow> string option" where
  "api_group g = (case split_slash (api_version g) of [grp, _] \<Rightarrow> Some grp | _ \<Rightarrow> None)"

definition gvk_version :: "gvk \<Rightarrow> string" where
  "gvk_version g = last (split_slash (api_version g))"

definition gvk_domain :: "gvk \<Rightarrow> string" where
  "gvk_domain g =
     (case api_group g of
        None \<Rightarrow> str_lower (gvk_kind g)
      | Some grp \<Rightarrow> if grp = [] then str_lower (gvk_kind g) else str_lower (gvk_kind g) @ ''.'' @ grp)"

definition for_ambassador :: "string \<Rightarrow> string \<Rightarrow> gvk" where
  "for_ambassador kind vers = \<lparr>api_version = ''getambassador.io/'' @ vers, gvk_kind = kind\<rparr>"

definition for_knative_networking :: "string \<Rightarrow> gvk" where
  "for_knative_networking kind =
     \<lparr>api_version = ''networking.internal.knative.dev/v1alpha1'', gvk_kind = kind\<rparr>"

datatype scope = CLUSTER | NAMESPACE

record kkey =
  key_gvk :: gvk
  key_namespace :: "string option"
  key_name :: string

definition key_scope :: "kkey \<Rightarrow> scope" where
  "key_scope k = (if key_namespace k = None then CLUSTER else NAMESPACE)"

definition from_object_reference :: "pyval \<Rightarrow> kkey res" where
  "from_object_reference ref =
     rbind (pv_index ref ''kind'') (\<lambda>k. rbind (pv_str k) (\<lambda>kind.
     rbind (pv_get ref ''namespace'' PNone) (\<lambda>ns.
     rbind (pv_index ref ''name'') (\<lambda>n. rbind (pv_str n) (\<lambda>name.
       case ns of
         PNone \<Rightarrow> Inr \<lparr>key_gvk = \<lparr>api_version = ''v1'', gvk_kind = kind\<rparr>, key_namespace = None,
                       key_name = name\<rparr>
       | PStr s \<Rightarrow> Inr \<lparr>key_gvk = \<lparr>api_version = ''v1'', gvk_kind = kind\<rparr>, key_namespace = Some s,
                        key_name = name\<rparr>
       | _ \<Rightarrow> Inl (TypeError ''namespace''))))))"

record kobj =
  raw :: "pyval pydict"
  ko_gvk :: gvk
  ko_metadata :: "pyval pydict"
  ko_name :: string

definition key_error_to_value_error :: "'a res \<Rightarrow> 'a res" where
  "key_error_to_value_error m =
     (case m of
        Inl (KeyError k) \<Rightarrow> Inl (ValueError ''delegate is not a valid Kubernetes object'')
      | _ \<Rightarrow> m)"

definition kobject_init :: "pyval pydict \<Rightarrow> kobj res" where
  "kobject_init d =
     key_error_to_value_error
       (rbind (pv_index (PDict d) ''apiVersion'') (\<lambda>a.
        rbind (pv_index (PDict d) ''kind'') (\<lambda>k.
        rbind (pv_index (PDict d) ''metadata'') (\<lambda>m.
        rbind (pv_index m ''name'') (\<lambda>n.
        rbind (pv_str a) (\<lambda>api. rbind (pv_str k) (\<lambda>kind. rbind (pv_str n) (\<lambda>name.
        rbind (pv_items m) (\<lambda>md.
          Inr \<lparr>raw = d, ko_gvk = \<lparr>api_version = api, gvk_kind = kind\<rparr>, ko_metadata = md,
               ko_name = name\<rparr>)))))))))"

definition ko_namespace :: "settings \<Rightarrow> kobj \<Rightarrow> string res" where
  "ko_namespace st ob =
     (case pget (ko_metadata ob) ''namespace'' of
        PNone \<Rightarrow> Inl (AttributeError ''has no namespace (it is cluster-scoped)'')
      | PStr s \<Rightarrow> Inr (if s = ''_automatic_'' then ambassador_namespace st else s)
      | _ \<Rightarrow> Inl (TypeError ''namespace''))"

definition ko_key :: "settings \<Rightarrow> kobj \<Rightarrow> kkey" where
  "ko_key st ob =
     \<lparr>key_gvk = ko_gvk ob,
      key_namespace = (case ko_namespace st ob of Inr s \<Rightarrow> Some s | Inl _ \<Rightarrow> None),
      key_name = ko_name ob\<rparr>"

definition ko_generation :: "kobj \<Rightarrow> pyval" where
  "ko_generation ob = dget_or (ko_metadata ob) ''generation'' (PInt 1)"

definition ko_annotations :: "kobj \<Rightarrow> pyval" where
  "ko_annotations ob = dget_or (ko_metadata ob) ''annotations'' (PDict [])"

definition ko_ambassador_id :: "kobj \<Rightarrow> pyval res" where
  "ko_ambassador_id ob = pv_get (ko_annotations ob) ''getambassador.io/ambassador-id'' (PStr ''default'')"

definition ko_labels :: "kobj \<Rightarrow> pyval" where
  "ko_labels ob = dget_or (ko_metadata ob) ''labels'' (PDict [])"

definition ko_spec :: "kobj \<Rightarrow> pyval" where
  "ko_spec ob = dget_or (raw ob) ''spec'' (PDict [])"

definition ko_status :: "kobj \<Rightarrow> pyval" where
  "ko_status ob = dget_or (raw ob) ''status'' (PDict [])"

lemma takeWhile_split:
  "c \<in> set s \<Longrightarrow> takeWhile (\<lambda>x. x \<noteq> c) s @ c # tl (dropWhile (\<lambda>x. x \<noteq> c) s) = s"
  by (induction s) auto

lemma split_slash_no [simp]: "CHR ''/'' \<notin> set s \<Longrightarrow> split_slash s = [s]"
  by (simp add: split_slash_def)

lemma kev_Inr [res_simps]: "key_error_to_value_error m = Inr x \<longleftrightarrow> m = Inr x"
  by (auto simp: key_error_to_value_error_def split: sum.splits py_error.splits)

lemma kev_not_KeyError: "key_error_to_value_error m \<noteq> Inl (KeyError k)"
  by (auto simp: key_error_to_value_error_def split: sum.splits py_error.splits)

lemma kev_ValueError:
  "(\<exists>e. key_error_to_value_error m = Inl (ValueError e)) \<longleftrightarrow>
     (\<exists>k. m = Inl (KeyError k)) \<or> (\<exists>e. m = Inl (ValueError e))"
  by (auto simp: key_error_to_value_error_def split: sum.splits py_error.splits)

section \<open>Properties\<close>

text \<open>
  C32: the group and the version of an object type recompose its API version, and the version
  alone is it when there is no group; the group never contains a slash.
\<close>

theorem gvk_recompose:
  "api_version g =
     (case api_group g of None \<Rightarrow> gvk_version g | Some grp \<Rightarrow> grp @ ''/'' @ gvk_version g) \<and>
   (case api_group g of None \<Rightarrow> CHR ''/'' \<notin> set (gvk_version g) | Some grp \<Rightarrow> CHR ''/'' \<notin> set grp)"
  by (auto simp: api_group_def gvk_version_def split_slash_def takeWhile_split
      dest: set_takeWhileD)

text \<open>
  C36: the constructor rejects a dictionary with a \<open>ValueError\<close>, which the fetcher skips, exactly
  if \<open>apiVersion\<close>, \<open>kind\<close> or \<open>metadata\<close> is missing or the metadata have no \<open>name\<close>; and it never
  raises a \<open>KeyError\<close>.
\<close>

theorem kobject_init_rejects:
  "((\<exists>m. kobject_init d = Inl (ValueError m)) \<longleftrightarrow>
     \<not> (dhas d ''apiVersion'' \<and> dhas d ''kind'' \<and> dhas d ''metadata'' \<and>
        (case pget d ''metadata'' of PDict md \<Rightarrow> dhas md ''name'' | _ \<Rightarrow> True))) \<and>
   kobject_init d \<noteq> Inl (KeyError key)"
proof -
  have s: "pv_str v \<noteq> Inl (KeyError k)" "pv_str v \<noteq> Inl (ValueError k)"
    "pv_items v \<noteq> Inl (KeyError k)" "pv_items v \<noteq> Inl (ValueError k)"
    "pv_index v k' \<noteq> Inl (ValueError k)" for v k k'
    by (cases v; simp split: option.split)+
  have i: "pv_index v k' = Inl (KeyError k) \<longleftrightarrow> (\<exists>e. v = PDict e \<and> \<not> dhas e k' \<and> k = k')" for v k k'
    by (cases v) (auto simp: dhas_def split: option.split)
  have r: "rbind m f = Inl (KeyError k) \<longleftrightarrow>
      m = Inl (KeyError k) \<or> (\<exists>x. m = Inr x \<and> f x = Inl (KeyError k))" for m :: "'z res" and f k
    by (cases m) auto
  have "(\<exists>m. kobject_init d = Inl (ValueError m)) \<longleftrightarrow>
     \<not> dhas d ''apiVersion'' \<or> \<not> dhas d ''kind'' \<or> \<not> dhas d ''metadata'' \<or>
     (\<exists>md. dget d ''metadata'' = Some (PDict md) \<and> \<not> dhas md ''name'')"
    unfolding kobject_init_def kev_ValueError
    by (cases "dget d ''apiVersion''"; cases "dget d ''kind''"; cases "dget d ''metadata''")
      (auto simp: rbind_eq_Inl s i pv_Inr dhas_def simp del: pv_index.simps pv_items.simps pv_str.simps)
  also have "\<dots> \<longleftrightarrow> \<not> (dhas d ''apiVersion'' \<and> dhas d ''kind'' \<and> dhas d ''metadata'' \<and>
        (case pget d ''metadata'' of PDict md \<Rightarrow> dhas md ''name'' | _ \<Rightarrow> True))"
    by (cases "dget d ''metadata''") (auto simp: pget_def dget_or_def dhas_def split: pyval.split)
  finally show ?thesis by (simp add: kobject_init_def kev_not_KeyError)
qed

end
