(* ===== verification/Location.thy ===== *)
theory Location
  imports PyVal
begin

text \<open>
  Parsing locations, \<open>fetch/location.py\<close>. A \<open>Location\<close> is a file name and an object count; the
  \<open>LocationManager\<close> keeps a stack of them. \<open>push\<close>, \<open>push_reset\<close> and \<open>mark_annotated\<close> are used in
  \<open>with\<close> statements; a \<open>block\<close> is a program made of such statements and of the two updates that
  the resource manager makes of the current location (the count after an emission, the file
  name of a Pragma). \<open>exec\<close> runs a program with the semantics of \<open>contextlib.contextmanager\<close>: the
  code after the \<open>yield\<close> runs when the block ends normally and is skipped when it raises, because
  there is no \<open>finally\<close>.

  The lemmas: programs that do not raise leave the stack as it was; a block that raises leaves
  its location on the stack.
\<close>

record location =
  filename :: "string option"
  ocount :: int

record loc_manager =
  previous :: "location list"
  current :: location

definition location_init :: location where
  "location_init = \<lparr>filename = None, ocount = 1\<rparr>"

definition loc_manager_init :: loc_manager where
  "loc_manager_init = \<lparr>previous = [], current = location_init\<rparr>"

definition filename_default :: "location \<Rightarrow> string \<Rightarrow> string" where
  "filename_default l dflt =
     (case filename l of None \<Rightarrow> dflt | Some f \<Rightarrow> if f = [] then dflt else f)"

definition location_str :: "location \<Rightarrow> string" where
  "location_str l = filename_default l ''anonymous YAML'' @ ''.'' @ str_int (ocount l)"

definition push :: "string option \<Rightarrow> int \<Rightarrow> loc_manager \<Rightarrow> loc_manager" where
  "push f n m = \<lparr>previous = previous m @ [current m], current = \<lparr>filename = f, ocount = n\<rparr>\<rparr>"

definition push_reset :: "loc_manager \<Rightarrow> loc_manager" where
  "push_reset m = push (filename (current m)) 1 m"

definition pop :: "loc_manager \<Rightarrow> (location \<times> loc_manager) res" where
  "pop m = (if previous m = [] then Inl IndexError
            else Inr (current m, \<lparr>previous = butlast (previous m), current = last (previous m)\<rparr>))"

definition mark_annotated :: "loc_manager \<Rightarrow> string option \<times> loc_manager" where
  "mark_annotated m =
     (let previous_filename = filename (current m) in
      (previous_filename,
       case previous_filename of
         None \<Rightarrow> m
       | Some f \<Rightarrow> if f \<noteq> [] \<and> \<not> endswith f '':annotation''
                   then m\<lparr>current := (current m)\<lparr>filename := Some (f @ '':annotation'')\<rparr>\<rparr> else m))"

definition clean_annotated :: "string option \<Rightarrow> loc_manager \<Rightarrow> loc_manager" where
  "clean_annotated f m = m\<lparr>current := (current m)\<lparr>filename := f\<rparr>\<rparr>"

definition bump :: "loc_manager \<Rightarrow> loc_manager" where
  "bump m = m\<lparr>current := (current m)\<lparr>ocount := ocount (current m) + 1\<rparr>\<rparr>"

definition retitle :: "string \<Rightarrow> loc_manager \<Rightarrow> loc_manager" where
  "retitle f m = m\<lparr>current := (current m)\<lparr>filename := Some f\<rparr>\<rparr>"

section \<open>Programs over locations\<close>

datatype block =
    Bump
  | Retitle string
  | Raise py_error
  | WithPush "string option" int "block list"
  | WithReset "block list"
  | WithAnnotated "block list"

fun exec :: "block list \<Rightarrow> loc_manager \<Rightarrow> loc_manager \<times> py_error option" where
  "exec [] m = (m, None)"
| "exec (Bump # bs) m = exec bs (bump m)"
| "exec (Retitle f # bs) m = exec bs (retitle f m)"
| "exec (Raise e # bs) m = (m, Some e)"
| "exec (WithPush f n body # bs) m =
     (case exec body (push f n m) of
        (m1, Some e) \<Rightarrow> (m1, Some e)
      | (m1, None) \<Rightarrow> (case pop m1 of Inl e \<Rightarrow> (m1, Some e) | Inr (_, m2) \<Rightarrow> exec bs m2))"
| "exec (WithReset body # bs) m =
     (case exec body (push_reset m) of
        (m1, Some e) \<Rightarrow> (m1, Some e)
      | (m1, None) \<Rightarrow> (case pop m1 of Inl e \<Rightarrow> (m1, Some e) | Inr (_, m2) \<Rightarrow> exec bs m2))"
| "exec (WithAnnotated body # bs) m =
     (let (f, m0) = mark_annotated m in
      case exec body m0 of
        (m1, Some e) \<Rightarrow> (m1, Some e)
      | (m1, None) \<Rightarrow> exec bs (clean_annotated f m1))"

fun quiet :: "block list \<Rightarrow> bool" where
  "quiet [] = True"
| "quiet (Raise e # bs) = False"
| "quiet (WithPush f n body # bs) = (quiet body \<and> quiet bs)"
| "quiet (WithReset body # bs) = (quiet body \<and> quiet bs)"
| "quiet (WithAnnotated body # bs) = (quiet body \<and> quiet bs)"
| "quiet (_ # bs) = quiet bs"

text \<open>How often the current location is counted, and the file name it ends with.\<close>

fun bumps :: "block list \<Rightarrow> int" where
  "bumps [] = 0"
| "bumps (Bump # bs) = 1 + bumps bs"
| "bumps (WithAnnotated body # bs) = bumps body + bumps bs"
| "bumps (_ # bs) = bumps bs"

fun final_title :: "string option \<Rightarrow> block list \<Rightarrow> string option" where
  "final_title f [] = f"
| "final_title f (Retitle g # bs) = final_title (Some g) bs"
| "final_title f (_ # bs) = final_title f bs"

lemma push_fields [simp]:
  "previous (push f n m) = previous m @ [current m]"
  "current (push f n m) = \<lparr>filename = f, ocount = n\<rparr>"
  "previous (push_reset m) = previous m @ [current m]"
  by (simp_all add: push_def push_reset_def)

lemma small_fields [simp]:
  "previous (bump m) = previous m" "filename (current (bump m)) = filename (current m)"
  "ocount (current (bump m)) = ocount (current m) + 1"
  "previous (retitle g m) = previous m" "filename (current (retitle g m)) = Some g"
  "ocount (current (retitle g m)) = ocount (current m)"
  "previous (clean_annotated f m) = previous m" "filename (current (clean_annotated f m)) = f"
  "ocount (current (clean_annotated f m)) = ocount (current m)"
  by (simp_all add: bump_def retitle_def clean_annotated_def)

lemma mark_annotated_fields [simp]:
  "fst (mark_annotated m) = filename (current m)"
  "previous (snd (mark_annotated m)) = previous m"
  "ocount (current (snd (mark_annotated m))) = ocount (current m)"
  by (auto simp: mark_annotated_def Let_def split: option.split)

lemma pop_pushed:
  "previous m1 = ps @ [l] \<Longrightarrow> pop m1 = Inr (current m1, \<lparr>previous = ps, current = l\<rparr>)"
  by (simp add: pop_def)

lemma exec_quiet:
  "quiet bs \<Longrightarrow> \<exists>m'. exec bs m = (m', None) \<and> previous m' = previous m \<and>
     ocount (current m') = ocount (current m) + bumps bs \<and>
     filename (current m') = final_title (filename (current m)) bs"
proof (induction bs m rule: exec.induct)
  case (5 f n body bs m)
  then obtain m1 where m1: "exec body (push f n m) = (m1, None)" "previous m1 = previous m @ [current m]"
    by auto
  note pop_pushed [OF m1(2)]
  with "5.IH"(2) [OF m1(1) [symmetric] refl this refl] "5.prems" m1 show ?case by auto
next
  case (6 body bs m)
  then obtain m1 where m1: "exec body (push_reset m) = (m1, None)" "previous m1 = previous m @ [current m]"
    by auto
  note pop_pushed [OF m1(2)]
  with "6.IH"(2) [OF m1(1) [symmetric] refl this refl] "6.prems" m1 show ?case by auto
next
  case (7 body bs m)
  obtain f m0 where ma: "mark_annotated m = (f, m0)" by (cases "mark_annotated m")
  then have m0: "f = filename (current m)" "previous m0 = previous m"
    "ocount (current m0) = ocount (current m)"
    using mark_annotated_fields [of m] by auto
  obtain m1 where m1: "exec body m0 = (m1, None)" "previous m1 = previous m0"
    "ocount (current m1) = ocount (current m0) + bumps body"
    using "7.IH"(1) [OF ma [symmetric] refl] "7.prems" by auto
  from "7.IH"(2) [OF ma [symmetric] refl m1(1) [symmetric] refl] "7.prems"
  show ?case by (auto simp: ma m1 m0)
qed auto

section \<open>Properties\<close>

text \<open>
  C19: a program of \<open>with\<close> statements that does not raise never pops an empty stack; it leaves
  the stack of locations as it found it, leaves the current file name except for a Pragma
  directly in it, and counts exactly the objects emitted directly in it or in an annotation.
\<close>

theorem locations_balanced:
  assumes "quiet bs"
  shows "\<exists>m'. exec bs m = (m', None) \<and> previous m' = previous m \<and>
    ocount (current m') = ocount (current m) + bumps bs \<and>
    filename (current m') = final_title (filename (current m)) bs"
  using assms by (rule exec_quiet)

theorem locations_balanced_witness:
  "\<exists>m'. exec [WithPush (Some ''a'') 1 [WithReset [Bump, WithAnnotated [Bump]]], Bump] loc_manager_init
     = (m', None) \<and> previous m' = [] \<and> ocount (current m') = 2"
  using locations_balanced [of "[WithPush (Some ''a'') 1 [WithReset [Bump, WithAnnotated [Bump]]], Bump]"
      loc_manager_init]
  by (auto simp: loc_manager_init_def location_init_def)

text \<open>
  A block that raises is not popped: the location it pushed stays on top of the stack, and
  the exception leaves with it.
\<close>

theorem raise_leaks_location:
  assumes "quiet body"
  shows "\<exists>m'. exec (WithPush f n (body @ [Raise e]) # bs) m = (m', Some e) \<and>
    previous m' = previous m @ [current m]"
proof -
  have "\<exists>m1. exec (body @ [Raise e]) m0 = (m1, Some e) \<and> previous m1 = previous m0" for m0
    using assms
  proof (induction body m0 rule: exec.induct)
    case (5 f n body bs m)
    obtain m1 where m1: "exec body (push f n m) = (m1, None)" "previous m1 = previous m @ [current m]"
      using exec_quiet [of body "push f n m"] "5.prems" by auto
    note pop_pushed [OF m1(2)]
    with "5.IH"(2) [OF m1(1) [symmetric] refl this refl] "5.prems" m1 show ?case by auto
  next
    case (6 body bs m)
    obtain m1 where m1: "exec body (push_reset m) = (m1, None)" "previous m1 = previous m @ [current m]"
      using exec_quiet [of body "push_reset m"] "6.prems" by auto
    note pop_pushed [OF m1(2)]
    with "6.IH"(2) [OF m1(1) [symmetric] refl this refl] "6.prems" m1 show ?case by auto
  next
    case (7 body bs m)
    obtain f m0 where ma: "mark_annotated m = (f, m0)" by (cases "mark_annotated m")
    then have m0: "previous m0 = previous m"
      using mark_annotated_fields [of m] by auto
    obtain m1 where m1: "exec body m0 = (m1, None)" "previous m1 = previous m0"
      using exec_quiet [of body m0] "7.prems" by auto
    from "7.IH"(2) [OF ma [symmetric] refl m1(1) [symmetric] refl] "7.prems"
    show ?case by (auto simp: ma m1 m0)
  qed auto
  from this [of "push f n m"] show ?thesis by auto
qed

theorem raise_leaks_location_witness:
  "\<exists>m'. exec [WithPush None 1 ([Bump] @ [Raise IndexError])] loc_manager_init = (m', Some IndexError) \<and>
     previous m' = [location_init]"
  using raise_leaks_location [of "[Bump]" None 1 IndexError "[]" loc_manager_init]
  by (auto simp: loc_manager_init_def)

end
