(* ===== verification/PyText.thy ===== *)
theory PyText
  imports PyVal
begin

text \<open>
  Text operations of Python on dynamic values: equality \<open>==\<close> (\<open>pv_eq\<close>, in which the order of a
  dictionary does not count and booleans are numbers), \<open>repr\<close> and formatting in f-strings
  (\<open>pv_repr\<close>, \<open>pv_fmt\<close>), \<open>int(v)\<close> (\<open>py_int\<close>), \<open>str.strip\<close> and \<open>str.replace\<close>. Strings are ASCII.
\<close>

section \<open>Equality\<close>

fun num_of :: "pyval \<Rightarrow> int option" where
  "num_of (PBool b) = Some (if b then 1 else 0)"
| "num_of (PInt i) = Some i"
| "num_of _ = None"

fun pv_eq :: "pyval \<Rightarrow> pyval \<Rightarrow> bool"
  and pv_eqs :: "pyval list \<Rightarrow> pyval list \<Rightarrow> bool"
  and pv_sub :: "(string \<times> pyval) list \<Rightarrow> (string \<times> pyval) list \<Rightarrow> bool" where
  "pv_eq PNone w = (w = PNone)"
| "pv_eq (PBool b) w = (num_of w = Some (if b then 1 else 0))"
| "pv_eq (PInt i) w = (num_of w = Some i)"
| "pv_eq (PStr s) w = (w = PStr s)"
| "pv_eq (PList xs) w = (case w of PList ys \<Rightarrow> pv_eqs xs ys | _ \<Rightarrow> False)"
| "pv_eq (PDict d) w = (case w of PDict e \<Rightarrow> length d = length e \<and> pv_sub d e | _ \<Rightarrow> False)"
| "pv_eqs [] ys = (ys = [])"
| "pv_eqs (x # xs) ys = (case ys of [] \<Rightarrow> False | y # ys' \<Rightarrow> pv_eq x y \<and> pv_eqs xs ys')"
| "pv_sub [] e = True"
| "pv_sub (kv # d) e =
     (case dget e (fst kv) of None \<Rightarrow> False | Some w \<Rightarrow> pv_eq (snd kv) w \<and> pv_sub d e)"

section \<open>Text of values\<close>

definition hex_char :: "nat \<Rightarrow> char" where
  "hex_char n = (if n < 10 then char_of (n + 48) else char_of (n + 87))"

definition repr_char :: "char \<Rightarrow> char \<Rightarrow> string" where
  "repr_char q c =
     (if c = q \<or> c = CHR 92 then [CHR 92, c]
      else if c = CHR 10 then [CHR 92, CHR ''n'']
      else if c = CHR 13 then [CHR 92, CHR ''r'']
      else if c = CHR 9 then [CHR 92, CHR ''t'']
      else if (of_char c :: nat) < 32 \<or> (of_char c :: nat) = 127
      then [CHR 92, CHR ''x'', hex_char (of_char c div 16), hex_char (of_char c mod 16)]
      else [c])"

definition repr_str :: "string \<Rightarrow> string" where
  "repr_str s =
     (let q = (if CHR 39 \<in> set s \<and> CHR 34 \<notin> set s then CHR 34 else CHR 39)
      in [q] @ concat (map (repr_char q) s) @ [q])"

fun pv_repr :: "pyval \<Rightarrow> string" where
  "pv_repr PNone = ''None''"
| "pv_repr (PBool b) = (if b then ''True'' else ''False'')"
| "pv_repr (PInt i) = str_int i"
| "pv_repr (PStr s) = repr_str s"
| "pv_repr (PList xs) = ''['' @ join_with '', '' (map pv_repr xs) @ '']''"
| "pv_repr (PDict d) = ''{'' @ join_with '', '' (map (\<lambda>kv. repr_str (fst kv) @ '': '' @ pv_repr (snd kv)) d) @ ''}''"

definition pv_fmt :: "pyval \<Rightarrow> string" where
  "pv_fmt v = (case v of PStr s \<Rightarrow> s | _ \<Rightarrow> pv_repr v)"

lemma pv_fmt_simps [simp]:
  "pv_fmt (PStr s) = s" "pv_fmt (PInt i) = str_int i" "pv_fmt PNone = ''None''"
  by (simp_all add: pv_fmt_def)

section \<open>Numbers from text\<close>

definition is_space :: "char \<Rightarrow> bool" where
  "is_space c \<longleftrightarrow> c = CHR 32 \<or> (9 \<le> (of_char c :: nat) \<and> (of_char c :: nat) \<le> 13) \<or>
     (28 \<le> (of_char c :: nat) \<and> (of_char c :: nat) \<le> 31)"

definition strip :: "string \<Rightarrow> string" where
  "strip s = rev (dropWhile is_space (rev (dropWhile is_space s)))"

text \<open>A digit sequence in which single underscores may stand between two digits.\<close>

fun int_digits :: "bool \<Rightarrow> string \<Rightarrow> string option" where
  "int_digits after_digit [] = (if after_digit then Some [] else None)"
| "int_digits after_digit (c # s) =
     (if is_digit c then map_option ((#) c) (int_digits True s)
      else if c = CHR ''_'' \<and> after_digit then int_digits False s
      else None)"

definition int_of_str :: "string \<Rightarrow> int option" where
  "int_of_str s =
     (case strip s of
        [] \<Rightarrow> None
      | c # t \<Rightarrow>
          if c = CHR ''-'' then map_option (\<lambda>ds. - int (nat_of_digits ds)) (int_digits False t)
          else if c = CHR ''+'' then map_option (\<lambda>ds. int (nat_of_digits ds)) (int_digits False t)
          else map_option (\<lambda>ds. int (nat_of_digits ds)) (int_digits False (c # t)))"

definition py_int :: "pyval \<Rightarrow> int res" where
  "py_int v =
     (case num_of v of
        Some i \<Rightarrow> Inr i
      | None \<Rightarrow> (case v of
            PStr s \<Rightarrow> (case int_of_str s of Some i \<Rightarrow> Inr i | None \<Rightarrow> Inl (ValueError ''invalid literal for int()''))
          | _ \<Rightarrow> Inl (TypeError ''int() argument'')))"

section \<open>Replacement\<close>

definition replace_char :: "char \<Rightarrow> string \<Rightarrow> string \<Rightarrow> string" where
  "replace_char c r s = concat (map (\<lambda>x. if x = c then r else [x]) s)"

fun replace_first :: "char \<Rightarrow> string \<Rightarrow> string \<Rightarrow> string" where
  "replace_first c r [] = []"
| "replace_first c r (x # s) = (if x = c then r @ s else x # replace_first c r s)"

section \<open>Dictionaries of strings\<close>

text \<open>Labels and selectors as the matching functions take them: Kubernetes makes all values strings.\<close>

definition str_dict :: "pyval \<Rightarrow> string pydict" where
  "str_dict v = (case v of
     PDict d \<Rightarrow> List.map_filter (\<lambda>(k, x). case x of PStr t \<Rightarrow> Some (k, t) | _ \<Rightarrow> None) d | _ \<Rightarrow> [])"

definition str_dicts :: "pyval \<Rightarrow> string pydict pydict" where
  "str_dicts v = (case v of PDict d \<Rightarrow> map (\<lambda>(k, x). (k, str_dict x)) d | _ \<Rightarrow> [])"

section \<open>Facts\<close>

lemma dget_str_dict: "dget d k = Some (PStr t) \<Longrightarrow> dget (str_dict (PDict d)) k = Some t"
  by (induction d) (auto simp: str_dict_def map_filter_simps split: if_splits pyval.split)



lemma int_digits_all: "(\<And>c. c \<in> set s \<Longrightarrow> is_digit c) \<Longrightarrow> s \<noteq> [] \<or> b \<Longrightarrow> int_digits b s = Some s"
  by (induction s arbitrary: b) auto

lemma not_space: "is_digit c \<Longrightarrow> \<not> is_space c" "\<not> is_space (CHR ''-'')"
  by (auto simp: is_digit_def is_space_def less_eq_char_def)

lemma dropWhile_hd: "s \<noteq> [] \<Longrightarrow> \<not> P (hd s) \<Longrightarrow> dropWhile P s = s"
  by (cases s) auto

lemma strip_no_space: "s \<noteq> [] \<Longrightarrow> \<not> is_space (hd s) \<Longrightarrow> \<not> is_space (last s) \<Longrightarrow> strip s = s"
  by (simp add: strip_def dropWhile_hd hd_rev)

lemma int_of_str_nat: "int_of_str (str_nat n) = Some (int n)"
proof -
  have d: "\<And>c. c \<in> set (str_nat n) \<Longrightarrow> is_digit c" by (rule str_nat_digits)
  obtain c t where ct: "str_nat n = c # t" by (cases "str_nat n") auto
  have "is_digit c" "is_digit (last (str_nat n))"
    using d [of c] d [of "last (str_nat n)"] ct by auto
  then have "strip (str_nat n) = c # t" "c \<noteq> CHR ''-''" "c \<noteq> CHR ''+''"
    by (auto simp: strip_no_space ct not_space is_digit_def less_eq_char_def)
  moreover have "int_digits False (c # t) = Some (c # t)"
    using int_digits_all [of "c # t" False] d ct by simp
  moreover have "nat_of_digits (c # t) = n" using nat_of_str_nat [of n] ct by simp
  ultimately show ?thesis by (simp add: int_of_str_def del: int_digits.simps)
qed

lemma int_of_str_int [simp]: "int_of_str (str_int i) = Some i"
proof (cases "i < 0")
  case True
  let ?s = "CHR ''-'' # str_nat (nat (- i))"
  have "\<not> is_space (last ?s)"
    using str_nat_digits [of "last (str_nat (nat (- i)))" "nat (- i)"] by (simp add: not_space)
  then have "strip ?s = ?s" by (intro strip_no_space) (simp_all add: not_space)
  moreover have "int_digits False (str_nat (nat (- i))) = Some (str_nat (nat (- i)))"
    by (intro int_digits_all str_nat_digits) auto
  ultimately show ?thesis using True by (simp add: int_of_str_def str_int_def)
qed (simp add: str_int_def int_of_str_nat)

end
