(* ===== verification/Emit.thy ===== *)
theory Emit
  imports KObject Location PyText
begin

text \<open>
  Emission of resources, \<open>fetch/resource.py\<close> with \<open>Resource.from_dict\<close> of \<open>resource.py\<close>. A
  \<open>normalized\<close> resource is a raw object with an optional key; the resource manager turns it
  into a configuration resource under the current location, or posts an error. The YAML
  serializer is the argument \<open>dump_yaml\<close>.

  The lemmas: what each call of \<open>emit\<close> does on every branch, and that the resources emitted in
  one location get distinct keys.
\<close>

record normalized =
  nr_object :: pyval
  nr_rkey :: "string option"

record rmanager =
  aconf :: config
  locations :: loc_manager
  elements :: "ac list"

definition rmanager_init :: "config \<Rightarrow> rmanager" where
  "rmanager_init c = \<lparr>aconf = c, locations = loc_manager_init, elements = []\<rparr>"

definition fmt_opt :: "string option \<Rightarrow> string" where
  "fmt_opt x = (case x of None \<Rightarrow> ''None'' | Some s \<Rightarrow> s)"

section \<open>Normalized resources\<close>

definition from_data ::
  "string \<Rightarrow> string \<Rightarrow> string option \<Rightarrow> pyval \<Rightarrow> string \<Rightarrow> string option \<Rightarrow> pyval \<Rightarrow> pyval \<Rightarrow> pyval \<Rightarrow>
   string option \<Rightarrow> normalized res" where
  "from_data kind name ns generation vers grp labels spec errs rkey =
     rbind (case spec of PDict d \<Rightarrow> Inr (dupdate [] d)
                       | _ \<Rightarrow> if truthy spec then Inl (TypeError ''update'') else Inr [])
       (\<lambda>o0.
          let o1 = dset ''name'' (PStr name)
                     (dset ''kind'' (PStr kind)
                       (dset ''apiVersion'' (PStr (fmt_opt grp @ ''/'' @ vers)) o0));
              o2 = (case ns of None \<Rightarrow> o1 | Some s \<Rightarrow> dset ''namespace'' (PStr s) o1);
              o3 = (if generation = PNone then o2 else dset ''generation'' generation o2);
              o4 = dset ''metadata_labels'' (por labels (PDict [])) o3;
              o5 = (if truthy errs then dset ''errors'' errs o4 else o4)
          in Inr \<lparr>nr_object = PDict o5,
                  nr_rkey = Some (case rkey of None \<Rightarrow> name @ ''.'' @ fmt_opt ns | Some k \<Rightarrow> k)\<rparr>)"

definition from_kubernetes_object ::
  "settings \<Rightarrow> kobj \<Rightarrow> string option \<Rightarrow> normalized res" where
  "from_kubernetes_object st ob rkey =
     rbind (ko_namespace st ob) (\<lambda>ns.
     rbind (case ko_labels ob of PDict d \<Rightarrow> Inr d | _ \<Rightarrow> Inl (TypeError ''dict'')) (\<lambda>labels0.
       let (key, labels) =
             (if rkey = None \<or> rkey = Some []
              then (ko_name ob @ ''.'' @ ns,
                    dset ''ambassador_crd'' (PStr (ko_name ob @ ''.'' @ ns)) labels0)
              else (the rkey, ddel ''ambassador_crd'' labels0))
       in from_data (gvk_kind (ko_gvk ob)) (ko_name ob) (Some ns) (ko_generation ob)
            (gvk_version (ko_gvk ob)) (api_group (ko_gvk ob)) (PDict labels) (ko_spec ob)
            (pget (raw ob) ''errors'') (Some key)))"

section \<open>Resources from dictionaries\<close>

text \<open>
  The names that the package \<open>ambassador\<close> has as attributes: a kind of that name selects an
  object that cannot be called with the arguments of a resource. No attribute is named after
  the prefix \<open>AC\<close>, so every other kind selects \<open>ACResource\<close>.
\<close>

definition package_names :: "string list" where
  "package_names = [''IR'', ''Cache'', ''Config'', ''Commit'', ''Version'', ''EnvoyConfig'', ''Diagnostics'',
     ''cache'', ''config'', ''constants'', ''diagnostics'', ''envoy'', ''fetch'', ''ir'', ''resource'',
     ''utils'', ''VERSION'']"

definition opt_str :: "pyval pydict \<Rightarrow> string \<Rightarrow> string \<Rightarrow> string res" where
  "opt_str d k dflt =
     (case dget d k of
        None \<Rightarrow> Inr dflt
      | Some PNone \<Rightarrow> Inr []
      | Some (PStr s) \<Rightarrow> Inr s
      | Some _ \<Rightarrow> Inl (TypeError k))"

definition from_dict :: "string \<Rightarrow> string \<Rightarrow> string option \<Rightarrow> pyval pydict \<Rightarrow> ac res" where
  "from_dict rkey location serialization attrs =
     rbind (pv_index (PDict attrs) ''kind'') (\<lambda>k.
     rbind (pv_str k) (\<lambda>kind.
       if kind \<in> set package_names then Inl (TypeError kind)
       else if dhas attrs ''rkey'' \<or> dhas attrs ''location'' \<or> dhas attrs ''serialization''
       then Inl (TypeError ''multiple values for keyword argument'')
       else
         rbind (opt_str attrs ''name'' []) (\<lambda>name.
         rbind (opt_str attrs ''namespace'' []) (\<lambda>ns.
           acresource_init rkey location kind name
             (if dget attrs ''namespace'' = None \<or> dget attrs ''namespace'' = Some PNone then None else Some ns)
             (pget attrs ''metadata_labels'') (dget_or attrs ''apiVersion'' (PStr ''getambassador.io/v0'')) serialization
             (dget attrs ''errors'')
             (fold ddel [''kind'', ''name'', ''namespace'', ''metadata_labels'', ''apiVersion'', ''errors'']
                attrs)))))"

section \<open>Emission\<close>

definition err_msg :: "py_error \<Rightarrow> string" where
  "err_msg e = (case e of KeyError s \<Rightarrow> s | IndexError \<Rightarrow> [] | AttributeError s \<Rightarrow> s | TypeError s \<Rightarrow> s
     | ValueError s \<Rightarrow> s | AssertionError s \<Rightarrow> s | RuntimeError s \<Rightarrow> s | PlainException s \<Rightarrow> s)"

definition post_rm :: "settings \<Rightarrow> string \<Rightarrow> rmanager \<Rightarrow> rmanager" where
  "post_rm st msg m = m\<lparr>aconf := post_error_string st msg NoResource None (aconf m)\<rparr>"

definition element_key :: "rmanager \<Rightarrow> string option \<Rightarrow> pyval \<Rightarrow> string" where
  "element_key m rkey kind =
     (let base = (if rkey = None \<or> rkey = Some []
                  then filename_default (current (locations m)) ''unknown'' else the rkey)
      in if kind \<noteq> PStr ''Service'' then base @ ''.'' @ str_int (ocount (current (locations m)))
         else base)"

definition emit_core ::
  "settings \<Rightarrow> (pyval \<Rightarrow> string) \<Rightarrow> normalized \<Rightarrow> rmanager \<Rightarrow> bool \<times> rmanager" where
  "emit_core st dump_yaml r m =
     (case nr_object r of
        PDict obj \<Rightarrow>
          if good_ambassador_id st obj \<noteq> Some True then (True, m)
          else (case dget obj ''kind'' of
            None \<Rightarrow> (True, post_rm st (location_str (current (locations m)) @ '' is missing kind'') m)
          | Some kind \<Rightarrow>
              if kind = PStr ''Pragma'' then
                (False,
                 if truthy (pget obj ''source'')
                 then m\<lparr>locations := retitle (pv_fmt (pget obj ''source'')) (locations m)\<rparr> else m)
              else
                (let rkey = element_key m (nr_rkey r) kind;
                     serialization = dump_yaml (PDict obj)
                 in (True,
                     case from_dict rkey rkey (Some serialization) obj of
                       Inr e \<Rightarrow> m\<lparr>elements := elements m @ [e]\<rparr>
                     | Inl x \<Rightarrow> post_rm st (err_msg x) m)))
      | v \<Rightarrow> (True, post_rm st (location_str (current (locations m)) @
               (if \<not> truthy v then '' is empty'' else '' is not a dictionary'')) m))"

definition emit :: "settings \<Rightarrow> (pyval \<Rightarrow> string) \<Rightarrow> normalized \<Rightarrow> rmanager \<Rightarrow> rmanager" where
  "emit st dump_yaml r m =
     (let (counted, m1) = emit_core st dump_yaml r m
      in if counted then m1\<lparr>locations := bump (locations m1)\<rparr> else m1)"

section \<open>Keys of emitted resources\<close>

lemma post_rm_fields [simp]:
  "locations (post_rm st msg m) = locations m" "elements (post_rm st msg m) = elements m"
  by (simp_all add: post_rm_def)

definition emits_pragma :: "settings \<Rightarrow> normalized \<Rightarrow> bool" where
  "emits_pragma st r = (case nr_object r of
     PDict obj \<Rightarrow> good_ambassador_id st obj = Some True \<and> dget obj ''kind'' = Some (PStr ''Pragma'')
   | _ \<Rightarrow> False)"

lemma emit_count:
  "ocount (current (locations (emit st dy r m))) =
     ocount (current (locations m)) + (if emits_pragma st r then 0 else 1)"
  by (auto simp: emit_def emit_core_def emits_pragma_def Let_def split: pyval.splits option.splits sum.splits)

lemma from_dict_fields:
  "from_dict rkey loc s attrs = Inr e \<Longrightarrow> ac_rkey e = rkey \<and> dget attrs ''kind'' = Some (PStr (ac_kind e))"
  by (auto simp: from_dict_def acresource_init_def res_simps split: if_splits option.splits)

lemma emit_elements:
  "elements (emit st dy r m) = elements m \<or>
     (\<exists>e base. elements (emit st dy r m) = elements m @ [e] \<and> \<not> emits_pragma st r \<and>
        (ac_kind e \<noteq> ''Service'' \<longrightarrow>
          ac_rkey e = base @ ''.'' @ str_int (ocount (current (locations m)))))"
proof -
  have "elements (snd (emit_core st dy r m)) = elements m \<or>
      (\<exists>obj kind e. nr_object r = PDict obj \<and> dget obj ''kind'' = Some kind \<and> kind \<noteq> PStr ''Pragma'' \<and>
        from_dict (element_key m (nr_rkey r) kind) (element_key m (nr_rkey r) kind)
           (Some (dy (PDict obj))) obj = Inr e \<and>
        elements (snd (emit_core st dy r m)) = elements m @ [e])"
    by (cases "nr_object r")
      (auto simp: emit_core_def Let_def split: option.split sum.split pyval.split)
  then consider "elements (snd (emit_core st dy r m)) = elements m"
    | obj kind e where "nr_object r = PDict obj" "dget obj ''kind'' = Some kind" "kind \<noteq> PStr ''Pragma''"
        "from_dict (element_key m (nr_rkey r) kind) (element_key m (nr_rkey r) kind)
           (Some (dy (PDict obj))) obj = Inr e"
        "elements (snd (emit_core st dy r m)) = elements m @ [e]"
    by blast
  then show ?thesis
  proof cases
    case 1
    then show ?thesis by (simp add: emit_def split_beta Let_def)
  next
    case (2 obj kind e)
    have k: "ac_rkey e = element_key m (nr_rkey r) kind" "kind = PStr (ac_kind e)"
      using from_dict_fields [OF 2(4)] 2(2) by auto
    have "elements (emit st dy r m) = elements m @ [e]"
      using 2(5) by (simp add: emit_def split_beta Let_def)
    moreover have "\<not> emits_pragma st r" using 2 by (simp add: emits_pragma_def)
    moreover have "ac_kind e \<noteq> ''Service'' \<longrightarrow>
        (\<exists>base. ac_rkey e = base @ ''.'' @ str_int (ocount (current (locations m))))"
      using k by (auto simp: element_key_def Let_def)
    ultimately show ?thesis by blast
  qed
qed

lemma str_int_no_dot: "CHR ''.'' \<notin> set (str_int i)"
proof
  assume "CHR ''.'' \<in> set (str_int i)"
  then obtain n where "CHR ''.'' \<in> set (str_nat n)" by (auto simp: str_int_def split: if_splits)
  then show False using str_nat_digits by (fastforce simp: is_digit_def less_eq_char_def)
qed

lemma counted_key_inject:
  assumes "b @ ''.'' @ str_int i = c @ ''.'' @ str_int j"
  shows "i = j"
proof -
  have "rev (str_int i) @ CHR ''.'' # rev b = rev (str_int j) @ CHR ''.'' # rev c"
    using arg_cong [OF assms, of rev] by simp
  then have "rev (str_int i) = rev (str_int j)"
    using str_int_no_dot [of i] str_int_no_dot [of j]
      dotted_name [of "rev (str_int i)" "rev (str_int j)" "rev b" "rev c"] by simp
  then show ?thesis by simp
qed

text \<open>
  The keys of a list of elements that came from one location with the given count on: each is
  numbered, and the numbers increase.
\<close>

fun numbered :: "int \<Rightarrow> int \<Rightarrow> ac list \<Rightarrow> bool" where
  "numbered lo hi [] = (lo \<le> hi)"
| "numbered lo hi (e # es) = (\<exists>n base. lo \<le> n \<and> n < hi \<and> ac_rkey e = base @ ''.'' @ str_int n \<and>
     numbered (n + 1) hi es)"

lemma numbered_lower: "numbered lo hi es \<Longrightarrow> lo' \<le> lo \<Longrightarrow> numbered lo' hi es"
proof (cases es)
  case (Cons e es')
  assume "numbered lo hi es" "lo' \<le> lo"
  then obtain n base where "lo \<le> n" "n < hi" "ac_rkey e = base @ ''.'' @ str_int n" "numbered (n + 1) hi es'"
    by (auto simp: Cons)
  with \<open>lo' \<le> lo\<close> show ?thesis by (auto simp: Cons intro!: exI [of _ n])
qed simp

lemma numbered_le: "numbered lo hi es \<Longrightarrow> lo \<le> hi"
  by (induction lo hi es rule: numbered.induct) auto

lemma numbered_bound:
  "numbered lo hi es \<Longrightarrow> e \<in> set es \<Longrightarrow> \<exists>n base. lo \<le> n \<and> ac_rkey e = base @ ''.'' @ str_int n"
proof (induction lo hi es rule: numbered.induct)
  case (2 lo hi e' es)
  then obtain n base where n: "lo \<le> n" "ac_rkey e' = base @ ''.'' @ str_int n" "numbered (n + 1) hi es"
    by auto
  show ?case
  proof (cases "e = e'")
    case False
    with "2.prems"(2) have "e \<in> set es" by simp
    from "2.IH" [OF n(3) this] obtain n' base'
      where "n + 1 \<le> n'" "ac_rkey e = base' @ ''.'' @ str_int n'" by blast
    with n(1) show ?thesis by (intro exI [of _ n'] exI [of _ base']) simp
  qed (use n in blast)
qed simp

lemma numbered_distinct: "numbered lo hi es \<Longrightarrow> distinct (map ac_rkey es)"
proof (induction lo hi es rule: numbered.induct)
  case (2 lo hi e es)
  then obtain n base where n: "ac_rkey e = base @ ''.'' @ str_int n" "numbered (n + 1) hi es" by auto
  have "ac_rkey e \<notin> ac_rkey ` set es"
  proof
    assume "ac_rkey e \<in> ac_rkey ` set es"
    then obtain e' where "e' \<in> set es" "ac_rkey e = ac_rkey e'" by auto
    moreover from numbered_bound [OF n(2) this(1)] obtain n' base'
      where "n + 1 \<le> n'" "ac_rkey e' = base' @ ''.'' @ str_int n'" by auto
    ultimately have "n = n'" using n(1) counted_key_inject by metis
    with \<open>n + 1 \<le> n'\<close> show False by simp
  qed
  with 2 n show ?case by auto
qed simp


definition counted :: "ac list \<Rightarrow> ac list" where
  "counted es = filter (\<lambda>e. ac_kind e \<noteq> ''Service'') es"

lemma emit_all_numbered:
  "\<exists>new. elements (fold (emit st dy) rs m) = elements m @ new \<and>
     numbered (ocount (current (locations m)))
       (ocount (current (locations (fold (emit st dy) rs m)))) (counted new)"
proof (induction rs arbitrary: m)
  case (Cons r rs)
  let ?n = "ocount (current (locations m))" and ?m1 = "emit st dy r m"
  from Cons.IH [of ?m1] obtain new where
    new: "elements (fold (emit st dy) rs ?m1) = elements ?m1 @ new"
      "numbered (ocount (current (locations ?m1)))
         (ocount (current (locations (fold (emit st dy) rs ?m1)))) (counted new)"
    by blast
  have le: "?n \<le> ocount (current (locations ?m1))" by (simp add: emit_count)
  from emit_elements [of st dy r m] show ?case
  proof
    assume "elements ?m1 = elements m"
    with new le show ?thesis by (intro exI [of _ new]) (auto intro: numbered_lower)
  next
    assume "\<exists>e base. elements ?m1 = elements m @ [e] \<and> \<not> emits_pragma st r \<and>
        (ac_kind e \<noteq> ''Service'' \<longrightarrow> ac_rkey e = base @ ''.'' @ str_int ?n)"
    then obtain e base where e: "elements ?m1 = elements m @ [e]" "\<not> emits_pragma st r"
      "ac_kind e \<noteq> ''Service'' \<longrightarrow> ac_rkey e = base @ ''.'' @ str_int ?n" by blast
    have n1: "ocount (current (locations ?m1)) = ?n + 1" using e(2) by (simp add: emit_count)
    have "numbered ?n (ocount (current (locations (fold (emit st dy) rs ?m1)))) (counted (e # new))"
    proof (cases "ac_kind e = ''Service''")
      case True
      then show ?thesis using new(2) le by (auto simp: counted_def intro: numbered_lower)
    next
      case False
      with e(3) have "ac_rkey e = base @ ''.'' @ str_int ?n" by simp
      with False new(2) numbered_le [OF new(2)] show ?thesis
        by (auto simp: counted_def n1 intro!: exI [of _ ?n] exI [of _ base])
    qed
    with new(1) e(1) show ?thesis by (intro exI [of _ "e # new"]) simp
  qed
qed (simp add: counted_def)

section \<open>Properties\<close>

text \<open>
  C13: the resources that a sequence of emissions adds in one location, other than Services,
  have pairwise distinct keys, whatever keys and file names the emissions come with.
\<close>

theorem emitted_keys_distinct:
  "\<exists>new. elements (fold (emit st dy) rs m) = elements m @ new \<and>
     distinct (map ac_rkey (filter (\<lambda>e. ac_kind e \<noteq> ''Service'') new))"
  using emit_all_numbered [of st dy rs m] numbered_distinct by (auto simp: counted_def)

text \<open>
  Across locations keys are not unique: two objects of different kinds with the same name
  and namespace, each handled in its own location as the fetcher does, get the same key.
\<close>

theorem keys_collide_across_locations:
  "map ac_rkey (elements
     (emit demo_settings (\<lambda>_. []) \<lparr>nr_object = PDict [(''kind'', PStr ''Host''), (''name'', PStr ''a'')],
          nr_rkey = Some ''a.default''\<rparr>
       (let m = emit demo_settings (\<lambda>_. []) \<lparr>nr_object = PDict [(''kind'', PStr ''Mapping''), (''name'', PStr ''a'')],
              nr_rkey = Some ''a.default''\<rparr>
            (rmanager_init config_init\<lparr>locations := push_reset loc_manager_init\<rparr>)
        in m\<lparr>locations := push_reset (snd (projr (pop (locations m))))\<rparr>))) =
   [''a.default.1'', ''a.default.1'']"
  by code_simp

end
