(* ===== verification/Processors.thy ===== *)
theory Processors
  imports Emit PyText
begin

text \<open>
  Kubernetes processors, \<open>fetch/k8sprocessor.py\<close>, and the processors for Ambassador's own
  resources (\<open>fetch/ambassador.py\<close>), Secrets (\<open>fetch/secret.py\<close>), Services and Endpoints
  (\<open>fetch/service.py\<close>). A \<open>processor\<close> has the kinds it wants, its admission rule and its
  \<open>_process\<close> method; \<open>aggregate\<close> and \<open>deduplicating\<close> build processors from processors as the
  classes of that name do. The state \<open>fstate\<close> holds the resource manager and what the
  processors share: the dependencies (discovered services, the Ambassador service, ingress
  classes), the discovered endpoints and the keys already seen.

  Kubernetes makes port numbers integers and port names strings; the integer keys of the
  \<open>endpoints\<close> dictionary are written as decimal strings.

  The lemmas: what a target port resolves to, which endpoints a service is emitted with, and
  that no object is processed twice.
\<close>

record endpoint_address =
  ip :: string
  node :: pyval
  target :: "kkey option"

record endpoints =
  ep_addresses :: "endpoint_address list"
  ep_ports :: "(string \<times> int) list"
  ep_labels :: pyval

record fstate =
  mgr :: rmanager
  discovered_services :: "(kkey \<times> kobj) list"
  ambassador_service :: "kobj option"
  ingress_classes :: "string list"
  discovered_endpoints :: "(kkey \<times> endpoints) list"
  svc_helm_chart :: pyval
  seen :: "kkey list"

definition fstate_init :: "config \<Rightarrow> fstate" where
  "fstate_init c = \<lparr>mgr = rmanager_init c, discovered_services = [], ambassador_service = None,
     ingress_classes = [], discovered_endpoints = [], svc_helm_chart = PNone, seen = []\<rparr>"

definition emit_res ::
  "settings \<Rightarrow> (pyval \<Rightarrow> string) \<Rightarrow> normalized res \<Rightarrow> fstate \<Rightarrow> fstate res" where
  "emit_res st dy r s = rbind r (\<lambda>nr. Inr (s\<lparr>mgr := emit st dy nr (mgr s)\<rparr>))"

definition upd_aconf :: "(config \<Rightarrow> config) \<Rightarrow> fstate \<Rightarrow> fstate" where
  "upd_aconf f s = s\<lparr>mgr := (mgr s)\<lparr>aconf := f (aconf (mgr s))\<rparr>\<rparr>"

section \<open>Processors\<close>

record processor =
  kinds :: "gvk list"
  admit :: "kobj \<Rightarrow> bool"
  run :: "kobj \<Rightarrow> fstate \<Rightarrow> fstate res"

definition default_admit :: "settings \<Rightarrow> kobj \<Rightarrow> bool" where
  "default_admit st ob =
     (case key_namespace (ko_key st ob) of
        None \<Rightarrow> True
      | Some ns \<Rightarrow> \<not> (single_namespace st \<and> ns \<noteq> ambassador_namespace st))"

definition try_process :: "processor \<Rightarrow> kobj \<Rightarrow> fstate \<Rightarrow> (bool \<times> fstate) res" where
  "try_process p ob s =
     (if ko_gvk ob \<notin> set (kinds p) \<or> \<not> admit p ob then Inr (False, s)
      else rbind (run p ob s) (\<lambda>s1. Inr (True, s1)))"

definition proc_step :: "processor \<Rightarrow> kobj \<Rightarrow> fstate \<Rightarrow> fstate res" where
  "proc_step p ob s = rbind (try_process p ob s) (\<lambda>(_, s1). Inr s1)"

definition aggregate :: "settings \<Rightarrow> processor list \<Rightarrow> processor" where
  "aggregate st ps =
     \<lparr>kinds = remdups (concat (map kinds ps)), admit = default_admit st,
      run = (\<lambda>ob s. rfold (\<lambda>p. proc_step p ob) (filter (\<lambda>p. ko_gvk ob \<in> set (kinds p)) ps) s)\<rparr>"

definition deduplicating :: "settings \<Rightarrow> processor \<Rightarrow> processor" where
  "deduplicating st p =
     \<lparr>kinds = kinds p, admit = default_admit st,
      run = (\<lambda>ob s. if ko_key st ob \<in> set (seen s) then Inr s
                    else proc_step p ob (s\<lparr>seen := ko_key st ob # seen s\<rparr>))\<rparr>"

definition counting :: "settings \<Rightarrow> gvk \<Rightarrow> string \<Rightarrow> processor" where
  "counting st g k =
     \<lparr>kinds = [g], admit = default_admit st, run = (\<lambda>ob s. Inr (upd_aconf (incr_count k) s))\<rparr>"

section \<open>Ambassador resources and Secrets\<close>

definition ambassador_processor :: "settings \<Rightarrow> (pyval \<Rightarrow> string) \<Rightarrow> processor" where
  "ambassador_processor st dy =
     \<lparr>kinds = concat (map (\<lambda>kind. map (for_ambassador kind) [''v1'', ''v2'', ''v3alpha1''])
        [''AuthService'', ''ConsulResolver'', ''Host'', ''KubernetesEndpointResolver'',
         ''KubernetesServiceResolver'', ''Listener'', ''LogService'', ''Mapping'', ''Module'',
         ''RateLimitService'', ''DevPortal'', ''TCPMapping'', ''TLSContext'', ''TracingService'']),
      admit = default_admit st,
      run = (\<lambda>ob s. emit_res st dy (from_kubernetes_object st ob None) s)\<rparr>"

definition KNOWN_TYPES :: "string list" where
  "KNOWN_TYPES = [''Opaque'', ''kubernetes.io/tls'', ''istio.io/key-and-cert'']"

definition KNOWN_DATA_KEYS :: "string list" where
  "KNOWN_DATA_KEYS = [''tls.crt'', ''tls.key'', ''user.key'', ''cert-chain.pem'', ''key.pem'',
     ''root-cert.pem'', ''crl.pem'']"

definition secret_spec :: "settings \<Rightarrow> string \<Rightarrow> pyval pydict \<Rightarrow> pyval pydict" where
  "secret_spec st secret_type data =
     fold (\<lambda>(k, v) d. dset (replace_char (CHR ''.'') ''_'' k) v d) data
       [(''ambassador_id'', PStr (ambassador_id st)), (''secret_type'', PStr secret_type)]"

fun any_known :: "pyval \<Rightarrow> string list \<Rightarrow> bool res" where
  "any_known data [] = Inr False"
| "any_known data (k # ks) = rbind (pv_contains data k) (\<lambda>b. if b then Inr True else any_known data ks)"

definition secret_process ::
  "settings \<Rightarrow> (pyval \<Rightarrow> string) \<Rightarrow> kobj \<Rightarrow> fstate \<Rightarrow> fstate res" where
  "secret_process st dy ob s =
     (case pget (raw ob) ''type'' of
        PStr secret_type \<Rightarrow>
          if secret_type \<notin> set KNOWN_TYPES then Inr s
          else if \<not> truthy (pget (raw ob) ''data'') then Inr s
          else
            rbind (any_known (pget (raw ob) ''data'') KNOWN_DATA_KEYS) (\<lambda>known.
              if \<not> known then rbind (ko_namespace st ob) (\<lambda>_. Inr s)
              else
                rbind (pv_items (pget (raw ob) ''data'')) (\<lambda>data.
                rbind (ko_namespace st ob) (\<lambda>ns.
                  emit_res st dy
                    (from_data ''Secret'' (ko_name ob) (Some ns) PNone ''v3alpha1'' (Some ''getambassador.io'')
                       (ko_labels ob) (PDict (secret_spec st secret_type data)) (pget (raw ob) ''errors'') None) s)))
      | _ \<Rightarrow> Inr s)"

definition secret_processor :: "settings \<Rightarrow> (pyval \<Rightarrow> string) \<Rightarrow> processor" where
  "secret_processor st dy =
     \<lparr>kinds = [\<lparr>api_version = ''v1'', gvk_kind = ''Secret''\<rparr>],
      admit = (\<lambda>ob. if \<not> certs_single_namespace st then True else default_admit st ob),
      run = secret_process st dy\<rparr>"

section \<open>Services\<close>

fun labels_match :: "string pydict \<Rightarrow> (string \<times> pyval) list \<Rightarrow> bool" where
  "labels_match pod [] = True"
| "labels_match pod ((k, v) # sel) =
     (if (case dget pod k of None \<Rightarrow> PNone | Some x \<Rightarrow> PStr x) \<noteq> v then False
      else labels_match pod sel)"

definition is_ambassador_service :: "settings \<Rightarrow> kobj \<Rightarrow> fstate \<Rightarrow> bool res" where
  "is_ambassador_service st ob s =
     rbind (pv_get (ko_spec ob) ''selector'' (PDict [])) (\<lambda>selector.
     rbind (pv_get (ko_labels ob) ''app.kubernetes.io/component'' (PStr [])) (\<lambda>comp.
     rbind (pv_lower comp) (\<lambda>c.
       if c \<noteq> ''ambassador-service'' then Inr False
       else rbind (ko_namespace st ob) (\<lambda>ns.
         if ns \<noteq> ambassador_namespace st then Inr False
         else rbind (pv_len selector) (\<lambda>n.
           if n = 0 then Inr False
           else rbind (pv_items selector) (\<lambda>sel.
             Inr (labels_match (pod_labels (aconf (mgr s))) sel)))))))"

definition service_process :: "settings \<Rightarrow> kobj \<Rightarrow> fstate \<Rightarrow> fstate res" where
  "service_process st ob s =
     rbind (pv_get (ko_labels ob) ''helm.sh/chart'' PNone) (\<lambda>chart.
       let s1 = (if truthy chart \<and> \<not> truthy (svc_helm_chart s) then s\<lparr>svc_helm_chart := chart\<rparr> else s)
       in rbind (pv_get (ko_spec ob) ''ports'' PNone) (\<lambda>ports.
         if \<not> truthy ports then rbind (ko_namespace st ob) (\<lambda>_. Inr s1)
         else (let s2 = s1\<lparr>discovered_services := dset (ko_key st ob) ob (discovered_services s1)\<rparr>
               in rbind (is_ambassador_service st ob s2) (\<lambda>b.
                    Inr (if b then s2\<lparr>ambassador_service := Some ob\<rparr> else s2)))))"

definition internal_service_processor :: "settings \<Rightarrow> processor" where
  "internal_service_processor st =
     \<lparr>kinds = [\<lparr>api_version = ''v1'', gvk_kind = ''Service''\<rparr>], admit = default_admit st,
      run = service_process st\<rparr>"

section \<open>Endpoints\<close>

definition read_address :: "pyval \<Rightarrow> endpoint_address list \<Rightarrow> endpoint_address list res" where
  "read_address address acc =
     rbind (pv_get address ''ip'' PNone) (\<lambda>i.
       case i of
         PStr a \<Rightarrow>
           if a = [] then Inr acc
           else rbind (pv_get address ''targetRef'' (PDict [])) (\<lambda>ref.
             rbind (case from_object_reference ref of
                      Inr k \<Rightarrow> Inr (Some k)
                    | Inl (KeyError _) \<Rightarrow> Inr None
                    | Inl e \<Rightarrow> Inl e) (\<lambda>tgt.
             rbind (pv_get address ''nodeName'' PNone) (\<lambda>nd.
               Inr (acc @ [\<lparr>ip = a, node = nd, target = tgt\<rparr>]))))
       | v \<Rightarrow> if truthy v then Inl (TypeError ''ip'') else Inr acc)"

definition read_port :: "pyval \<Rightarrow> (string \<times> int) list \<Rightarrow> (string \<times> int) list res" where
  "read_port port acc =
     rbind (pv_get port ''name'' PNone) (\<lambda>port_name.
     rbind (pv_get port ''port'' PNone) (\<lambda>port_number.
     rbind (pv_get port ''protocol'' (PStr ''TCP'')) (\<lambda>proto.
     rbind (pv_str proto) (\<lambda>port_proto.
       if str_upper port_proto \<noteq> ''TCP'' then Inr acc
       else (case port_number of
         PNone \<Rightarrow> Inr acc
       | PInt n \<Rightarrow>
           (let acc1 = dset (str_int n) n acc in
            case port_name of
              PStr nm \<Rightarrow> Inr (if nm = [] then acc1 else dset nm n acc1)
            | v \<Rightarrow> if truthy v then Inl (TypeError ''name'') else Inr acc1)
       | _ \<Rightarrow> Inl (TypeError ''port''))))))"

definition read_subset :: "settings \<Rightarrow> kobj \<Rightarrow> pyval \<Rightarrow> fstate \<Rightarrow> fstate res" where
  "read_subset st ob sub s =
     rbind (pv_get sub ''addresses'' (PList [])) (\<lambda>av.
     rbind (pv_iter av) (\<lambda>as.
     rbind (rfold read_address as []) (\<lambda>addresses.
       if length addresses = 0 then Inr s
       else
         rbind (pv_get sub ''ports'' (PList [])) (\<lambda>pv.
         rbind (pv_iter pv) (\<lambda>ps.
         rbind (rfold read_port ps []) (\<lambda>port_dict.
           if port_dict = [] then rbind (ko_namespace st ob) (\<lambda>_. Inr s)
           else Inr (s\<lparr>discovered_endpoints :=
                  dset (ko_key st ob) \<lparr>ep_addresses = addresses, ep_ports = port_dict,
                    ep_labels = ko_labels ob\<rparr> (discovered_endpoints s)\<rparr>)))))))"

definition endpoints_process :: "settings \<Rightarrow> kobj \<Rightarrow> fstate \<Rightarrow> fstate res" where
  "endpoints_process st ob s =
     (let subsets = pget (raw ob) ''subsets'' in
      if \<not> truthy subsets then rbind (ko_namespace st ob) (\<lambda>_. Inr s)
      else rbind (pv_iter subsets) (\<lambda>xs. rfold (read_subset st ob) xs s))"

definition internal_endpoints_processor :: "settings \<Rightarrow> processor" where
  "internal_endpoints_processor st =
     \<lparr>kinds = [\<lparr>api_version = ''v1'', gvk_kind = ''Endpoints''\<rparr>], admit = default_admit st,
      run = endpoints_process st\<rparr>"

definition service_processor :: "settings \<Rightarrow> processor" where
  "service_processor st =
     (let d = aggregate st [internal_service_processor st, internal_endpoints_processor st]
      in \<lparr>kinds = kinds d, admit = default_admit st, run = proc_step d\<rparr>)"

section \<open>From services to endpoints\<close>

definition int_or_str :: "pyval \<Rightarrow> string res" where
  "int_or_str v = (case v of PInt i \<Rightarrow> Inr (str_int i) | PStr s \<Rightarrow> Inr s | _ \<Rightarrow> Inl (TypeError ''str''))"

definition isdigit :: "string \<Rightarrow> bool" where
  "isdigit s = (s \<noteq> [] \<and> list_all is_digit s)"

text \<open>The loop over \<open>targetPort\<close>, \<open>name\<close>, \<open>port\<close>: whether a key was found, the fallback, the target.\<close>

fun find_target ::
  "(string \<times> int) list \<Rightarrow> pyval \<Rightarrow> string list \<Rightarrow> bool \<times> pyval \<times> int option \<Rightarrow> (bool \<times> pyval \<times> int option) res" where
  "find_target ports port [] acc = Inr acc"
| "find_target ports port (attr # attrs) (found, fallback, tgt) =
     rbind (pv_get port attr PNone) (\<lambda>port_key.
       if \<not> truthy port_key then find_target ports port attrs (found, fallback, tgt)
       else rbind (int_or_str port_key) (\<lambda>sk.
         let fb = (if \<not> truthy fallback \<and> port_key \<noteq> PStr ''name'' \<and> isdigit sk then port_key else fallback);
             t = dget ports sk
         in case t of
              Some n \<Rightarrow> if n \<noteq> 0 then Inr (True, fb, t) else find_target ports port attrs (True, fb, t)
            | None \<Rightarrow> find_target ports port attrs (True, fb, t)))"

definition add_target ::
  "endpoints \<Rightarrow> pyval \<Rightarrow> (pyval \<times> pyval) list \<Rightarrow> (pyval \<times> pyval) list res" where
  "add_target ep port target_ports =
     rbind (pv_get port ''port'' PNone) (\<lambda>src_port.
       if \<not> truthy src_port then Inr target_ports
       else if length (ep_ports ep) = 1
       then Inr (dset src_port (PInt (snd (hd (ep_ports ep)))) target_ports)
       else rbind (find_target (ep_ports ep) port [''targetPort'', ''name'', ''port''] (False, PNone, None))
         (\<lambda>(found, fallback, tgt).
            if \<not> found then Inr target_ports
            else (let t = (case tgt of Some n \<Rightarrow> if n \<noteq> 0 then PInt n else por fallback src_port
                           | None \<Rightarrow> por fallback src_port)
                  in Inr (dset src_port t target_ports))))"

definition endpoint_entry :: "pyval \<Rightarrow> string \<Rightarrow> pyval" where
  "endpoint_entry target_port addr = PDict [(''ip'', PStr addr), (''port'', target_port)]"

definition svc_endpoints :: "(pyval \<times> pyval) list \<Rightarrow> string list \<Rightarrow> pyval pydict res" where
  "svc_endpoints target_ports target_addrs =
     rfold (\<lambda>(src, tgt) d. rbind (int_or_str src) (\<lambda>k.
              Inr (dset k (PList (map (endpoint_entry tgt) target_addrs)) d))) target_ports []"

definition service_targets ::
  "settings \<Rightarrow> bool \<Rightarrow> fstate \<Rightarrow> kobj \<Rightarrow> string \<Rightarrow> ((pyval \<times> pyval) list \<times> string list) res" where
  "service_targets st watch_only s svc ns =
     (if watch_only then Inr ([], [])
      else (case dget (discovered_endpoints s)
                   \<lparr>key_gvk = \<lparr>api_version = ''v1'', gvk_kind = ''Endpoints''\<rparr>, key_namespace = Some ns,
                    key_name = ko_name svc\<rparr> of
          None \<Rightarrow> Inr ([], [])
        | Some ep \<Rightarrow>
            rbind (pv_get (ko_spec svc) ''ports'' (PList [])) (\<lambda>pv.
            rbind (pv_iter pv) (\<lambda>ps.
            rbind (rfold (add_target ep) ps []) (\<lambda>tp.
              Inr (tp, map ip (ep_addresses ep)))))))"

definition finalize_service ::
  "settings \<Rightarrow> (pyval \<Rightarrow> string) \<Rightarrow> bool \<Rightarrow> kobj \<Rightarrow> fstate \<Rightarrow> fstate res" where
  "finalize_service st dy watch_only svc s =
     rbind (ko_namespace st svc) (\<lambda>ns.
     rbind (service_targets st watch_only s svc ns) (\<lambda>(target_ports, addrs).
       let target_addrs = (if addrs = [] then [ko_name svc @ ''.'' @ ns] else addrs)
       in rbind (svc_endpoints target_ports target_addrs) (\<lambda>eps.
         let spec0 = [(''ambassador_id'', PStr (ambassador_id st)), (''endpoints'', PDict eps)];
             spec = (if truthy (svc_helm_chart s) then dset ''helm_chart'' (svc_helm_chart s) spec0 else spec0)
         in emit_res st dy
              (from_data ''Service'' (ko_name svc) (Some ns) PNone ''v3alpha1'' (Some ''getambassador.io'')
                 (ko_labels svc) (PDict spec) PNone
                 (Some (''k8s-'' @ ko_name svc @ ''-'' @ ns))) s)))"

definition service_finalize ::
  "settings \<Rightarrow> (pyval \<Rightarrow> string) \<Rightarrow> bool \<Rightarrow> fstate \<Rightarrow> fstate res" where
  "service_finalize st dy watch_only s =
     rfold (\<lambda>(_, svc). finalize_service st dy watch_only svc) (discovered_services s) s"

section \<open>Target ports\<close>

definition port_key :: "pyval \<Rightarrow> string" where
  "port_key v = projr (int_or_str v)"

definition scalar_port :: "pyval \<Rightarrow> bool" where
  "scalar_port v = (case v of PInt _ \<Rightarrow> True | PStr _ \<Rightarrow> True | _ \<Rightarrow> \<not> truthy v)"

definition port_hit :: "(string \<times> int) list \<Rightarrow> pyval \<Rightarrow> bool" where
  "port_hit ports v = (case dget ports (port_key v) of None \<Rightarrow> False | Some n \<Rightarrow> n \<noteq> 0)"

definition candidates :: "pyval pydict \<Rightarrow> string list \<Rightarrow> pyval list" where
  "candidates d attrs = filter truthy (map (pget d) attrs)"

text \<open>What the resolution promises: the first candidate that names an endpoint port, else the
  first numeric candidate.\<close>

definition resolved_target :: "(string \<times> int) list \<Rightarrow> pyval list \<Rightarrow> pyval \<Rightarrow> pyval" where
  "resolved_target ports cands src =
     (case find (port_hit ports) cands of
        Some v \<Rightarrow> PInt (the (dget ports (port_key v)))
      | None \<Rightarrow> (case find (isdigit \<circ> port_key) cands of Some v \<Rightarrow> v | None \<Rightarrow> src))"

lemma find_target_spec:
  assumes "\<And>a. a \<in> set attrs \<Longrightarrow> scalar_port (pget d a)"
  shows "\<exists>fb' t'. find_target ports (PDict d) attrs (found, fb, t) =
      Inr (found \<or> candidates d attrs \<noteq> [], fb', t') \<and>
    (case find (port_hit ports) (candidates d attrs) of
       Some v \<Rightarrow> t' = dget ports (port_key v)
     | None \<Rightarrow> (fb' = (if truthy fb then fb
                       else case find (isdigit \<circ> port_key) (candidates d attrs) of
                         Some v \<Rightarrow> v | None \<Rightarrow> fb)) \<and>
               (t' = t \<and> candidates d attrs = [] \<or> t' = None \<or> t' = Some 0))"
  using assms
proof (induction attrs arbitrary: found fb t)
  case Nil
  then show ?case by (simp add: candidates_def)
next
  case (Cons a attrs)
  let ?v = "pget d a"
  have g: "pv_get (PDict d) a PNone = Inr ?v" by (simp add: pget_def)
  show ?case
  proof (cases "truthy ?v")
    case False
    then have eqs: "candidates d (a # attrs) = candidates d attrs"
      "find_target ports (PDict d) (a # attrs) (found, fb, t) =
       find_target ports (PDict d) attrs (found, fb, t)"
      using g by (simp_all add: candidates_def)
    show ?thesis unfolding eqs by (rule Cons.IH) (use Cons.prems in simp)
  next
    case True
    have k: "int_or_str ?v = Inr (port_key ?v)"
      using Cons.prems [of a] True by (cases ?v) (auto simp: scalar_port_def port_key_def int_or_str_def)
    have nm: "\<not> isdigit (port_key (PStr ''name''))" by code_simp
    define fb1 where "fb1 = (if \<not> truthy fb \<and> isdigit (port_key ?v) then ?v else fb)"
    have fb1: "(if \<not> truthy fb \<and> ?v \<noteq> PStr ''name'' \<and> isdigit (port_key ?v) then ?v else fb) = fb1"
      using nm by (auto simp: fb1_def)
    have c: "candidates d (a # attrs) = ?v # candidates d attrs"
      using True by (simp add: candidates_def)
    show ?thesis
    proof (cases "port_hit ports ?v")
      case hit: True
      then obtain n where "dget ports (port_key ?v) = Some n" "n \<noteq> 0"
        by (auto simp: port_hit_def split: option.splits)
      with True g k hit show ?thesis by (simp add: c Let_def)
    next
      case miss: False
      have step: "find_target ports (PDict d) (a # attrs) (found, fb, t) =
          find_target ports (PDict d) attrs (True, fb1, dget ports (port_key ?v))"
        unfolding find_target.simps(2) g rbind.simps k Let_def fb1
        using True miss by (auto simp: port_hit_def split: option.splits)
      have t0: "dget ports (port_key ?v) = None \<or> dget ports (port_key ?v) = Some 0"
        using miss by (auto simp: port_hit_def split: option.splits)
      have prems: "\<And>b. b \<in> set attrs \<Longrightarrow> scalar_port (pget d b)" using Cons.prems by simp
      from Cons.IH [OF prems, of True fb1 "dget ports (port_key ?v)"] obtain fb' t' where
        r: "find_target ports (PDict d) attrs (True, fb1, dget ports (port_key ?v)) = Inr (True, fb', t')"
          "case find (port_hit ports) (candidates d attrs) of
             Some v \<Rightarrow> t' = dget ports (port_key v)
           | None \<Rightarrow> (fb' = (if truthy fb1 then fb1
                       else case find (isdigit \<circ> port_key) (candidates d attrs) of
                         Some v \<Rightarrow> v | None \<Rightarrow> fb1)) \<and>
               (t' = dget ports (port_key ?v) \<and> candidates d attrs = [] \<or> t' = None \<or> t' = Some 0)"
        by auto
      show ?thesis
        unfolding step r(1)
        using r(2) t0 miss True
        by (auto simp: c fb1_def split: option.splits)
    qed
  qed
qed

lemma add_target_resolves:
  assumes "\<And>a. a \<in> set [''targetPort'', ''name'', ''port''] \<Longrightarrow> scalar_port (pget d a)"
    and src: "truthy (pget d ''port'')" and "length (ep_ports ep) \<noteq> 1"
  shows "add_target ep (PDict d) tp =
    Inr (dset (pget d ''port'')
      (resolved_target (ep_ports ep) (candidates d [''targetPort'', ''name'', ''port'']) (pget d ''port'')) tp)"
proof -
  let ?as = "[''targetPort'', ''name'', ''port'']"
  let ?c = "candidates d ?as"
  have ne: "?c \<noteq> []" using src by (simp add: candidates_def)
  have t: "truthy v" if "find P ?c = Some v" for P v
    using find_SomeD [OF that] unfolding candidates_def set_filter by blast
  obtain fb' t' where f0: "find_target (ep_ports ep) (PDict d) ?as (False, PNone, None) =
      Inr (False \<or> ?c \<noteq> [], fb', t')"
    and r0: "case find (port_hit (ep_ports ep)) ?c of
         Some v \<Rightarrow> t' = dget (ep_ports ep) (port_key v)
       | None \<Rightarrow> (fb' = (if truthy PNone then PNone
                         else case find (isdigit \<circ> port_key) ?c of Some v \<Rightarrow> v | None \<Rightarrow> PNone)) \<and>
                 (t' = None \<and> ?c = [] \<or> t' = None \<or> t' = Some 0)"
    using find_target_spec [of ?as d "ep_ports ep" False PNone None, OF assms(1)] by blast
  have f: "find_target (ep_ports ep) (PDict d) ?as (False, PNone, None) = Inr (True, fb', t')"
    unfolding f0 using ne by blast
  have r: "case find (port_hit (ep_ports ep)) ?c of
         Some v \<Rightarrow> t' = dget (ep_ports ep) (port_key v)
       | None \<Rightarrow> fb' = (case find (isdigit \<circ> port_key) ?c of Some v \<Rightarrow> v | None \<Rightarrow> PNone) \<and>
                 (t' = None \<or> t' = Some 0)"
    using r0 by (cases "find (port_hit (ep_ports ep)) ?c") auto
  have "(case t' of Some n \<Rightarrow> if n \<noteq> 0 then PInt n else por fb' (pget d ''port'')
         | None \<Rightarrow> por fb' (pget d ''port'')) = resolved_target (ep_ports ep) ?c (pget d ''port'')"
  proof (cases "find (port_hit (ep_ports ep)) ?c")
    case None
    with r t [of "isdigit \<circ> port_key"] show ?thesis
      by (auto simp: resolved_target_def por_def split: option.splits)
  next
    case (Some v)
    then have "port_hit (ep_ports ep) v" by (auto simp: find_Some_iff)
    with Some r show ?thesis
      by (auto simp: resolved_target_def port_hit_def split: option.splits)
  qed
  with assms(3) src f show ?thesis
    unfolding add_target_def by (simp add: pget_def [symmetric] Let_def del: find_target.simps)
qed

section \<open>Endpoints of emitted services\<close>

lemma svc_endpoints_fold:
  assumes "\<And>src. src \<in> fst ` set tp \<Longrightarrow> int_or_str src = Inr (port_key src)"
    and "distinct (map (port_key \<circ> fst) tp)"
  shows "\<exists>eps. rfold (\<lambda>(src, tgt) d. rbind (int_or_str src) (\<lambda>k.
        Inr (dset k (PList (map (endpoint_entry tgt) addrs)) d))) tp d0 = Inr eps \<and>
    (\<forall>src tgt. (src, tgt) \<in> set tp \<longrightarrow>
       dget eps (port_key src) = Some (PList (map (endpoint_entry tgt) addrs))) \<and>
    (\<forall>k. k \<notin> (port_key \<circ> fst) ` set tp \<longrightarrow> dget eps k = dget d0 k)"
  using assms
proof (induction tp arbitrary: d0)
  case (Cons st tp)
  obtain src tgt where st: "st = (src, tgt)" by (cases st)
  let ?d = "dset (port_key src) (PList (map (endpoint_entry tgt) addrs)) d0"
  have "int_or_str src = Inr (port_key src)" using Cons.prems(1) [of src] st by simp
  moreover obtain eps where eps: "rfold (\<lambda>(src, tgt) d. rbind (int_or_str src) (\<lambda>k.
        Inr (dset k (PList (map (endpoint_entry tgt) addrs)) d))) tp ?d = Inr eps"
    "\<And>src tgt. (src, tgt) \<in> set tp \<Longrightarrow>
       dget eps (port_key src) = Some (PList (map (endpoint_entry tgt) addrs))"
    "\<And>k. k \<notin> (port_key \<circ> fst) ` set tp \<Longrightarrow> dget eps k = dget ?d k"
    using Cons.IH [of ?d] Cons.prems by auto
  moreover have "port_key src \<notin> (port_key \<circ> fst) ` set tp" using Cons.prems(2) st by auto
  ultimately show ?case
    by (intro exI [of _ eps]) (auto simp: st)
qed simp

lemma svc_endpoints_complete:
  assumes "\<And>src. src \<in> fst ` set tp \<Longrightarrow> int_or_str src = Inr (port_key src)"
    and "distinct (map (port_key \<circ> fst) tp)"
  obtains eps where "svc_endpoints tp addrs = Inr eps"
    and "\<And>src tgt. (src, tgt) \<in> set tp \<Longrightarrow>
       dget eps (port_key src) = Some (PList (map (endpoint_entry tgt) addrs))"
    and "\<And>k. dhas eps k \<Longrightarrow> k \<in> (port_key \<circ> fst) ` set tp"
proof -
  from svc_endpoints_fold [OF assms, where addrs = addrs and ?d0.0 = "[]"] obtain eps where
    "svc_endpoints tp addrs = Inr eps"
    "\<forall>src tgt. (src, tgt) \<in> set tp \<longrightarrow>
       dget eps (port_key src) = Some (PList (map (endpoint_entry tgt) addrs))"
    "\<forall>k. k \<notin> (port_key \<circ> fst) ` set tp \<longrightarrow> dget eps k = None"
    unfolding svc_endpoints_def by auto
  then show thesis by (intro that) (auto simp: dhas_def)
qed

lemma fold_ddel_other: "k \<notin> set ks \<Longrightarrow> dget (fold ddel ks d) k = dget d k"
  by (induction ks arbitrary: d) auto

lemma emit_service:
  assumes o: "nr_object nr = PDict ob" and "good_ambassador_id st ob = Some True"
    and "dget ob ''kind'' = Some (PStr ''Service'')" and "nr_rkey nr = Some rkey" "rkey \<noteq> []"
    and "dget ob ''name'' = Some (PStr n)" "n \<noteq> []" and "dget ob ''apiVersion'' = Some (PStr a)" "a \<noteq> []"
    and "dget ob ''namespace'' = Some (PStr ns)" and "\<not> dhas ob ''errors''"
    and "\<not> dhas ob ''rkey''" "\<not> dhas ob ''location''" "\<not> dhas ob ''serialization''"
  shows "\<exists>e. elements (emit st dy nr m) = elements m @ [e] \<and> ac_rkey e = rkey \<and>
    ac_kind e = ''Service'' \<and> ac_name e = n \<and> ac_namespace e = Some ns \<and>
    (\<forall>k. k \<notin> {''kind'', ''name'', ''namespace'', ''metadata_labels'', ''apiVersion'', ''errors''} \<longrightarrow>
       dget (ac_attrs e) k = dget ob k)"
proof -
  have key: "element_key m (nr_rkey nr) (PStr ''Service'') = rkey"
    using assms by (simp add: element_key_def Let_def)
  have ser: "\<not> (''Service'' \<in> set package_names)" by code_simp
  have "from_dict rkey rkey (Some (dy (PDict ob))) ob =
      acresource_init rkey rkey ''Service'' n (Some ns) (pget ob ''metadata_labels'') (PStr a)
        (Some (dy (PDict ob))) None
        (fold ddel [''kind'', ''name'', ''namespace'', ''metadata_labels'', ''apiVersion'', ''errors''] ob)"
    using assms ser not_dhas [THEN iffD1, OF assms(11)] by (simp add: from_dict_def opt_str_def dget_or_def)
  then show ?thesis
    using assms key
    by (auto simp: emit_def emit_core_def acresource_init_def Let_def fold_ddel_other)
qed

definition svc_object :: "settings \<Rightarrow> kobj \<Rightarrow> string \<Rightarrow> pyval pydict \<Rightarrow> pyval pydict" where
  "svc_object st svc ns spec =
     dset ''metadata_labels'' (por (ko_labels svc) (PDict []))
       (dset ''namespace'' (PStr ns) (dset ''name'' (PStr (ko_name svc))
         (dset ''kind'' (PStr ''Service'') (dset ''apiVersion'' (PStr ''getambassador.io/v3alpha1'')
           (dupdate [] spec)))))"

lemma svc_spec_get:
  "dget (dupdate [] (if truthy h then dset ''helm_chart'' h [(''ambassador_id'', a), (''endpoints'', e)]
      else [(''ambassador_id'', a), (''endpoints'', e)])) k =
   (if k = ''ambassador_id'' then Some a else if k = ''endpoints'' then Some e
    else if k = ''helm_chart'' \<and> truthy h then Some h else None)"
  by (cases "truthy h") (simp_all add: dset_literal)

lemma finalize_service_emits:
  assumes "finalize_service st dy wo svc s = Inr s'" and "ko_name svc \<noteq> []" and "ambassador_id st \<noteq> []"
  shows "\<exists>ns tp addrs eps e. ko_namespace st svc = Inr ns \<and> service_targets st wo s svc ns = Inr (tp, addrs) \<and>
    svc_endpoints tp (if addrs = [] then [ko_name svc @ ''.'' @ ns] else addrs) = Inr eps \<and>
    s' = s\<lparr>mgr := mgr s'\<rparr> \<and> elements (mgr s') = elements (mgr s) @ [e] \<and>
    ac_rkey e = ''k8s-'' @ ko_name svc @ ''-'' @ ns \<and> ac_kind e = ''Service'' \<and>
    ac_name e = ko_name svc \<and> ac_namespace e = Some ns \<and>
    dget (ac_attrs e) ''endpoints'' = Some (PDict eps)"
proof -
  obtain ns tp addrs eps where ns: "ko_namespace st svc = Inr ns"
    and tp: "service_targets st wo s svc ns = Inr (tp, addrs)"
    and eps: "svc_endpoints tp (if addrs = [] then [ko_name svc @ ''.'' @ ns] else addrs) = Inr eps"
    using assms(1) by (auto simp: finalize_service_def res_simps Let_def split: prod.splits)
  let ?spec0 = "[(''ambassador_id'', PStr (ambassador_id st)), (''endpoints'', PDict eps)]"
  let ?spec = "if truthy (svc_helm_chart s) then dset ''helm_chart'' (svc_helm_chart s) ?spec0 else ?spec0"
  let ?nr = "\<lparr>nr_object = PDict (svc_object st svc ns ?spec),
      nr_rkey = Some (''k8s-'' @ ko_name svc @ ''-'' @ ns)\<rparr>"
  have s': "s' = s\<lparr>mgr := emit st dy ?nr (mgr s)\<rparr>"
    using assms(1) ns tp eps
    by (simp add: finalize_service_def emit_res_def from_data_def svc_object_def fmt_opt_def Let_def)
  have get: "dget (svc_object st svc ns ?spec) k =
      (if k = ''metadata_labels'' then Some (por (ko_labels svc) (PDict []))
       else if k = ''namespace'' then Some (PStr ns) else if k = ''name'' then Some (PStr (ko_name svc))
       else if k = ''kind'' then Some (PStr ''Service'')
       else if k = ''apiVersion'' then Some (PStr ''getambassador.io/v3alpha1'')
       else if k = ''ambassador_id'' then Some (PStr (ambassador_id st))
       else if k = ''endpoints'' then Some (PDict eps)
       else if k = ''helm_chart'' \<and> truthy (svc_helm_chart s) then Some (svc_helm_chart s) else None)" for k
    by (simp add: svc_object_def svc_spec_get)
  have "good_ambassador_id st (svc_object st svc ns ?spec) = Some True"
    using assms(3) by (simp add: good_ambassador_id_def pget_def dget_or_def get)
  then have "\<exists>e. elements (emit st dy ?nr (mgr s)) = elements (mgr s) @ [e] \<and>
      ac_rkey e = ''k8s-'' @ ko_name svc @ ''-'' @ ns \<and> ac_kind e = ''Service'' \<and> ac_name e = ko_name svc \<and>
      ac_namespace e = Some ns \<and>
      (\<forall>k. k \<notin> {''kind'', ''name'', ''namespace'', ''metadata_labels'', ''apiVersion'', ''errors''} \<longrightarrow>
        dget (ac_attrs e) k = dget (svc_object st svc ns ?spec) k)"
    by (intro emit_service [where a = "''getambassador.io/v3alpha1''"])
      (use assms(2) in \<open>simp_all add: get dhas_def\<close>)
  then obtain e where e: "elements (emit st dy ?nr (mgr s)) = elements (mgr s) @ [e]"
      "ac_rkey e = ''k8s-'' @ ko_name svc @ ''-'' @ ns" "ac_kind e = ''Service''" "ac_name e = ko_name svc"
      "ac_namespace e = Some ns"
      "\<forall>k. k \<notin> {''kind'', ''name'', ''namespace'', ''metadata_labels'', ''apiVersion'', ''errors''} \<longrightarrow>
        dget (ac_attrs e) k = dget (svc_object st svc ns ?spec) k"
    by blast
  have "dget (ac_attrs e) ''endpoints'' = Some (PDict eps)"
    using e(6) [rule_format, of "''endpoints''"] get [of "''endpoints''"] by simp
  moreover have "elements (mgr s') = elements (mgr s) @ [e]" unfolding s' using e(1) by simp
  moreover have "s' = s\<lparr>mgr := mgr s'\<rparr>" by (simp add: s')
  ultimately show ?thesis using ns tp eps e(2-5) by blast
qed

section \<open>Deduplication\<close>

text \<open>
  What the deduplicating processor relies on: its delegate leaves the set of seen keys alone.
  Then a run over a list of objects is a run of the delegate over the first objects of each key
  that are wanted and admitted.
\<close>

definition handled :: "settings \<Rightarrow> processor \<Rightarrow> kobj \<Rightarrow> bool" where
  "handled st p ob \<longleftrightarrow> ko_gvk ob \<in> set (kinds p) \<and> default_admit st ob"

fun first_of_key :: "settings \<Rightarrow> processor \<Rightarrow> kkey list \<Rightarrow> kobj list \<Rightarrow> kobj list" where
  "first_of_key st p ks [] = []"
| "first_of_key st p ks (ob # obs) =
     (if handled st p ob \<and> ko_key st ob \<notin> set ks
      then ob # first_of_key st p (ko_key st ob # ks) obs
      else first_of_key st p ks obs)"

definition mark_and_step :: "settings \<Rightarrow> processor \<Rightarrow> kobj \<Rightarrow> fstate \<Rightarrow> fstate res" where
  "mark_and_step st p ob s = proc_step p ob (s\<lparr>seen := ko_key st ob # seen s\<rparr>)"

locale delegate =
  fixes p :: processor
  assumes run_keeps_seen: "run p ob s = Inr s' \<Longrightarrow> seen s' = seen s"
begin

lemma proc_step_keeps_seen: "proc_step p ob s = Inr s' \<Longrightarrow> seen s' = seen s"
  by (auto simp: proc_step_def try_process_def res_simps run_keeps_seen split: if_splits)

lemma dedup_step:
  "proc_step (deduplicating st p) ob s =
     (if handled st p ob \<and> ko_key st ob \<notin> set (seen s) then mark_and_step st p ob s else Inr s)"
proof -
  have fields: "kinds (deduplicating st p) = kinds p" "admit (deduplicating st p) = default_admit st"
    "run (deduplicating st p) ob s = (if ko_key st ob \<in> set (seen s) then Inr s else mark_and_step st p ob s)"
    by (simp_all add: deduplicating_def mark_and_step_def)
  show ?thesis
    unfolding proc_step_def [of "deduplicating st p"] try_process_def fields handled_def
    by (cases "mark_and_step st p ob s") auto
qed

lemma dedup_run:
  "rfold (proc_step (deduplicating st p)) obs s =
     rfold (mark_and_step st p) (first_of_key st p (seen s) obs) s"
proof (induction obs arbitrary: s)
  case (Cons ob obs)
  show ?case
  proof (cases "handled st p ob \<and> ko_key st ob \<notin> set (seen s)")
    case True
    then have *: "proc_step (deduplicating st p) ob s = mark_and_step st p ob s"
      "first_of_key st p (seen s) (ob # obs) = ob # first_of_key st p (ko_key st ob # seen s) obs"
      by (auto simp: dedup_step)
    show ?thesis
    proof (cases "mark_and_step st p ob s")
      case (Inr s1)
      then have "seen s1 = ko_key st ob # seen s"
        by (auto simp: mark_and_step_def dest: proc_step_keeps_seen)
      with * Inr Cons show ?thesis by simp
    qed (use * in simp)
  next
    case False
    then have "proc_step (deduplicating st p) ob s = Inr s"
      "first_of_key st p (seen s) (ob # obs) = first_of_key st p (seen s) obs"
      by (auto simp: dedup_step)
    then show ?thesis using Cons by simp
  qed
qed simp

end

lemma keys_first_of_key:
  "distinct (map (ko_key st) (first_of_key st p ks obs)) \<and>
     (\<forall>ob \<in> set (first_of_key st p ks obs). ko_key st ob \<notin> set ks)"
proof (induction st p ks obs rule: first_of_key.induct)
  case (2 st p ks ob obs)
  show ?case
  proof (cases "handled st p ob \<and> ko_key st ob \<notin> set ks")
    case True
    with "2.IH"(1) show ?thesis by force
  next
    case False
    then have eq: "first_of_key st p ks (ob # obs) = first_of_key st p ks obs" by auto
    show ?thesis unfolding eq by (rule "2.IH"(2) [OF False])
  qed
qed simp

lemma aggregate_keeps_seen:
  assumes "\<And>p ob s s'. p \<in> set ps \<Longrightarrow> run p ob s = Inr s' \<Longrightarrow> seen s' = seen s"
    and "run (aggregate st ps) ob s = Inr s'"
  shows "seen s' = seen s"
proof -
  have step: "seen v = seen u" if "p \<in> set ps" "proc_step p ob u = Inr v" for p u v
    using that assms(1) [OF that(1)]
    by (auto simp: proc_step_def try_process_def res_simps split: if_splits)
  have "rfold (\<lambda>p. proc_step p ob) (filter (\<lambda>p. ko_gvk ob \<in> set (kinds p)) ps) s = Inr s'"
    using assms(2) by (simp add: aggregate_def)
  then show ?thesis
    by (rule rfold_invariant [where P = "\<lambda>u. seen u = seen s"]) (auto dest: step)
qed

lemma emit_res_keeps_seen: "emit_res st dy r s = Inr s' \<Longrightarrow> seen s' = seen s"
  by (auto simp: emit_res_def res_simps)

lemma ambassador_keeps_seen: "run (ambassador_processor st dy) ob s = Inr s' \<Longrightarrow> seen s' = seen s"
  by (simp add: ambassador_processor_def emit_res_keeps_seen)

lemma secret_keeps_seen: "run (secret_processor st dy) ob s = Inr s' \<Longrightarrow> seen s' = seen s"
  by (auto simp: secret_processor_def secret_process_def res_simps emit_res_keeps_seen
      split: pyval.splits if_splits)

lemma counting_keeps_seen: "run (counting st g k) ob s = Inr s' \<Longrightarrow> seen s' = seen s"
  by (auto simp: counting_def upd_aconf_def)

lemma service_process_keeps_seen: "service_process st ob s = Inr s' \<Longrightarrow> seen s' = seen s"
  by (auto simp: service_process_def Let_def res_simps split: if_splits)

lemma endpoints_process_keeps_seen:
  assumes "endpoints_process st ob s = Inr s'"
  shows "seen s' = seen s"
proof -
  have step: "read_subset st ob x u = Inr v \<Longrightarrow> seen v = seen u" for x u v
    by (auto simp: read_subset_def res_simps split: if_splits)
  from assms consider "s' = s" | xs where "rfold (read_subset st ob) xs s = Inr s'"
    by (auto simp: endpoints_process_def Let_def res_simps split: if_splits)
  then show ?thesis
  proof cases
    case 2
    then show ?thesis
      by (rule rfold_invariant [where P = "\<lambda>u. seen u = seen s"]) (auto dest: step)
  qed simp
qed

lemma service_keeps_seen: "run (service_processor st) ob s = Inr s' \<Longrightarrow> seen s' = seen s"
proof -
  let ?ps = "[internal_service_processor st, internal_endpoints_processor st]"
  assume "run (service_processor st) ob s = Inr s'"
  then have "proc_step (aggregate st ?ps) ob s = Inr s'"
    by (simp add: service_processor_def Let_def)
  then consider "s' = s" | "run (aggregate st ?ps) ob s = Inr s'"
    by (auto simp: proc_step_def try_process_def res_simps split: if_splits)
  then show "seen s' = seen s"
  proof cases
    case 2
    then show ?thesis
      by (rule aggregate_keeps_seen [rotated])
        (auto simp: internal_service_processor_def internal_endpoints_processor_def
          dest: service_process_keeps_seen endpoints_process_keeps_seen)
  qed simp
qed

section \<open>Properties\<close>

text \<open>
  C16: for a Service port whose entries are numbers or names, the target is the only entry in the
  dictionary of endpoint ports if it has one entry. Otherwise it is the endpoint port that the
  first matching entry among \<open>targetPort\<close>, \<open>name\<close> and \<open>port\<close> names; if none matches, it is the first
  entry that is a number. The comment in the source promises something else in two cases. It says
  that the only endpoint port is used: an endpoint port that has a name has two entries in the
  dictionary. And it says that a number in \<open>targetPort\<close> is used: the second part states that such a
  number is passed over for the name when only the name is found among the endpoint ports.
\<close>

theorem target_port_resolution:
  assumes "\<And>a. a \<in> set [''targetPort'', ''name'', ''port''] \<Longrightarrow> scalar_port (pget d a)"
    and "truthy (pget d ''port'')"
  shows "add_target ep (PDict d) tp =
      Inr (dset (pget d ''port'')
        (if length (ep_ports ep) = 1 then PInt (snd (hd (ep_ports ep)))
         else resolved_target (ep_ports ep) (candidates d [''targetPort'', ''name'', ''port'']) (pget d ''port'')) tp) \<and>
    (length (ep_ports ep) \<noteq> 1 \<and> \<not> port_hit (ep_ports ep) (pget d ''targetPort'') \<and>
       truthy (pget d ''name'') \<and> port_hit (ep_ports ep) (pget d ''name'') \<longrightarrow>
     add_target ep (PDict d) tp =
       Inr (dset (pget d ''port'') (PInt (the (dget (ep_ports ep) (port_key (pget d ''name''))))) tp))"
proof (cases "length (ep_ports ep) = 1")
  case True
  then show ?thesis using assms(2) by (simp add: add_target_def pget_def)
next
  case False
  have "find (port_hit (ep_ports ep)) (candidates d [''targetPort'', ''name'', ''port'']) = Some (pget d ''name'')"
    if "\<not> port_hit (ep_ports ep) (pget d ''targetPort'')" "truthy (pget d ''name'')" "port_hit (ep_ports ep) (pget d ''name'')"
    using that by (simp add: candidates_def)
  then show ?thesis using False add_target_resolves [OF assms False] by (auto simp: resolved_target_def)
qed

definition demo_endpoints :: endpoints where
  "demo_endpoints = \<lparr>ep_addresses = [], ep_ports = [(''8080'', 8080), (''http'', 8080)], ep_labels = PNone\<rparr>"

theorem target_port_resolution_witness:
  "add_target demo_endpoints (PDict [(''port'', PInt 80), (''targetPort'', PInt 90), (''name'', PStr ''http'')]) [] =
     Inr [(PInt 80, PInt 8080)]"
proof -
  let ?d = "[(''port'', PInt 80), (''targetPort'', PInt 90), (''name'', PStr ''http'')]"
  have "add_target demo_endpoints (PDict ?d) [] =
      Inr (dset (pget ?d ''port'') (PInt (the (dget (ep_ports demo_endpoints) (port_key (pget ?d ''name''))))) [])"
  proof (rule target_port_resolution [THEN conjunct2, THEN mp])
    show "scalar_port (pget ?d a)" if "a \<in> set [''targetPort'', ''name'', ''port'']" for a
      using that by (auto simp: scalar_port_def pget_def dget_or_def)
    show "truthy (pget ?d ''port'')" by code_simp
    show "length (ep_ports demo_endpoints) \<noteq> 1 \<and> \<not> port_hit (ep_ports demo_endpoints) (pget ?d ''targetPort'') \<and>
        truthy (pget ?d ''name'') \<and> port_hit (ep_ports demo_endpoints) (pget ?d ''name'')" by code_simp
  qed
  also have "\<dots> = Inr [(PInt 80, PInt 8080)]" by code_simp
  finally show ?thesis .
qed

text \<open>
  C11: a service that is finalized is emitted exactly once, under its own key, name and
  namespace, and every target port lists every target address: the addresses of the endpoints,
  or the service's own name if there are none.
\<close>

theorem service_endpoints_emitted:
  assumes "finalize_service st dy wo svc s = Inr s'" and "ko_name svc \<noteq> []" and "ambassador_id st \<noteq> []"
    and "ko_namespace st svc = Inr ns" and "service_targets st wo s svc ns = Inr (tp, addrs)"
    and "\<And>src. src \<in> fst ` set tp \<Longrightarrow> int_or_str src = Inr (port_key src)"
    and "distinct (map (port_key \<circ> fst) tp)"
  shows "\<exists>e eps. elements (mgr s') = elements (mgr s) @ [e] \<and>
    ac_rkey e = ''k8s-'' @ ko_name svc @ ''-'' @ ns \<and> ac_kind e = ''Service'' \<and>
    ac_name e = ko_name svc \<and> ac_namespace e = Some ns \<and>
    dget (ac_attrs e) ''endpoints'' = Some (PDict eps) \<and>
    (\<forall>(src, tgt) \<in> set tp. dget eps (port_key src) = Some (PList (map (endpoint_entry tgt)
       (if addrs = [] then [ko_name svc @ ''.'' @ ns] else addrs))))"
proof -
  obtain eps where eps: "svc_endpoints tp (if addrs = [] then [ko_name svc @ ''.'' @ ns] else addrs) = Inr eps"
    "\<And>src tgt. (src, tgt) \<in> set tp \<Longrightarrow> dget eps (port_key src) = Some (PList (map (endpoint_entry tgt)
       (if addrs = [] then [ko_name svc @ ''.'' @ ns] else addrs)))"
    using svc_endpoints_complete [OF assms(6,7)] by metis
  obtain ns' tp' addrs' eps' e where *: "ko_namespace st svc = Inr ns'"
      "service_targets st wo s svc ns' = Inr (tp', addrs')"
      "svc_endpoints tp' (if addrs' = [] then [ko_name svc @ ''.'' @ ns'] else addrs') = Inr eps'"
      "elements (mgr s') = elements (mgr s) @ [e]" "ac_rkey e = ''k8s-'' @ ko_name svc @ ''-'' @ ns'"
      "ac_kind e = ''Service''" "ac_name e = ko_name svc" "ac_namespace e = Some ns'"
      "dget (ac_attrs e) ''endpoints'' = Some (PDict eps')"
    using finalize_service_emits [OF assms(1-3)] by blast
  have ns: "ns' = ns" using *(1) assms(4) by simp
  have ta: "tp' = tp" "addrs' = addrs" using *(2) assms(5) by (simp_all add: ns)
  have "eps' = eps" using *(3) eps(1) by (simp only: ns ta sum.inject)
  with * eps(2) show ?thesis unfolding ns by blast
qed

definition demo_svc :: kobj where
  "demo_svc = \<lparr>raw = [(''spec'', PDict [(''ports'', PList [PDict [(''port'', PInt 80)]])])],
     ko_gvk = \<lparr>api_version = ''v1'', gvk_kind = ''Service''\<rparr>,
     ko_metadata = [(''namespace'', PStr ''n'')], ko_name = ''svc''\<rparr>"

definition demo_fstate :: fstate where
  "demo_fstate = (fstate_init config_init)\<lparr>discovered_endpoints :=
     [(\<lparr>key_gvk = \<lparr>api_version = ''v1'', gvk_kind = ''Endpoints''\<rparr>, key_namespace = Some ''n'', key_name = ''svc''\<rparr>,
       \<lparr>ep_addresses = [\<lparr>ip = ''1.2.3.4'', node = PNone, target = None\<rparr>], ep_ports = [(''8080'', 8080)],
        ep_labels = PNone\<rparr>)]\<rparr>"

theorem service_endpoints_emitted_witness:
  "\<exists>s' e eps. finalize_service demo_settings (\<lambda>_. []) False demo_svc demo_fstate = Inr s' \<and>
     elements (mgr s') = [e] \<and> ac_rkey e = ''k8s-svc-n'' \<and>
     dget (ac_attrs e) ''endpoints'' = Some (PDict eps) \<and>
     dget eps ''80'' = Some (PList [endpoint_entry (PInt 8080) ''1.2.3.4''])"
proof -
  have "map_sum (\<lambda>_. ()) (\<lambda>_. ()) (finalize_service demo_settings (\<lambda>_. []) False demo_svc demo_fstate) = Inr ()"
    by code_simp
  then obtain s' where s': "finalize_service demo_settings (\<lambda>_. []) False demo_svc demo_fstate = Inr s'"
    by (cases "finalize_service demo_settings (\<lambda>_. []) False demo_svc demo_fstate") auto
  have h: "ko_namespace demo_settings demo_svc = Inr ''n''" "ko_name demo_svc = ''svc''"
    "service_targets demo_settings False demo_fstate demo_svc ''n'' = Inr ([(PInt 80, PInt 8080)], [''1.2.3.4''])"
    "int_or_str (PInt 80) = Inr (port_key (PInt 80))" "port_key (PInt 80) = ''80''"
    "ambassador_id demo_settings = ''default''" "elements (mgr demo_fstate) = []"
    by code_simp+
  have "\<exists>e eps. elements (mgr s') = elements (mgr demo_fstate) @ [e] \<and>
    ac_rkey e = ''k8s-'' @ ko_name demo_svc @ ''-'' @ ''n'' \<and> ac_kind e = ''Service'' \<and>
    ac_name e = ko_name demo_svc \<and> ac_namespace e = Some ''n'' \<and>
    dget (ac_attrs e) ''endpoints'' = Some (PDict eps) \<and>
    (\<forall>(src, tgt) \<in> set [(PInt 80, PInt 8080)]. dget eps (port_key src) = Some (PList (map (endpoint_entry tgt)
       (if [''1.2.3.4''] = [] then [ko_name demo_svc @ ''.'' @ ''n''] else [''1.2.3.4'']))))"
    by (rule service_endpoints_emitted [OF s' _ _ h(1) h(3)]) (simp_all add: h)
  then show ?thesis using s' by (auto simp: h)
qed

text \<open>
  An endpoint whose only port has a name is not treated as having a single port. The same
  Service port maps to the endpoint's port when the port is unnamed, and to the Service's own
  \<open>targetPort\<close>, which no endpoint has, when it is named.
\<close>

theorem named_single_port_missed:
  "rfold read_port [PDict [(''port'', PInt 90)]] [] = Inr [(''90'', 90)] \<and>
   rfold read_port [PDict [(''port'', PInt 90), (''name'', PStr ''http'')]] [] =
     Inr [(''90'', 90), (''http'', 90)] \<and>
   add_target \<lparr>ep_addresses = [], ep_ports = [(''90'', 90)], ep_labels = PNone\<rparr>
     (PDict [(''port'', PInt 80), (''targetPort'', PInt 91)]) [] = Inr [(PInt 80, PInt 90)] \<and>
   add_target \<lparr>ep_addresses = [], ep_ports = [(''90'', 90), (''http'', 90)], ep_labels = PNone\<rparr>
     (PDict [(''port'', PInt 80), (''targetPort'', PInt 91)]) [] = Inr [(PInt 80, PInt 91)]"
  by (intro conjI; code_simp)

end
