(* ===== verification/IngressProc.thy ===== *)
theory IngressProc
  imports Processors Globs
begin

text \<open>
  Kubernetes Ingresses, \<open>fetch/ingress.py\<close>, and Knative Ingresses, \<open>fetch/knative.py\<close>. An Ingress
  of our class and ID becomes one Host per TLS host and one Mapping per path and for the default
  backend; a Knative Ingress becomes one Mapping per host and split. Both record a status
  update. The arguments of the Knative processor that are not under \<open>src/\<close> are \<open>timeout_ms\<close>
  (\<open>durationpy\<close>, in milliseconds) and the current time as text, \<open>utcnow\<close>.

  The lemmas: what is emitted for an Ingress with TLS belongs together, that is the selector of
  every Host matches the labels of every Mapping; and no processor touches the seen keys.
\<close>

section \<open>Ingress classes\<close>

definition CONTROLLER :: string where
  "CONTROLLER = ''getambassador.io/ingress-controller''"

definition ingress_class_process :: "settings \<Rightarrow> kobj \<Rightarrow> fstate \<Rightarrow> fstate res" where
  "ingress_class_process st ob s =
     rbind (pv_get (ko_spec ob) ''controller'' (PStr [])) (\<lambda>c.
     rbind (pv_lower c) (\<lambda>controller.
       if controller \<noteq> CONTROLLER then Inr s
       else rbind (ko_ambassador_id ob) (\<lambda>aid.
         if aid \<noteq> PStr (ambassador_id st) then Inr s
         else (let s1 = upd_aconf (incr_count ''k8s_ingress_class'') s
               in Inr (s1\<lparr>ingress_classes := List.insert (ko_name ob) (ingress_classes s1)\<rparr>)))))"

definition ingress_class_processor :: "settings \<Rightarrow> processor" where
  "ingress_class_processor st =
     \<lparr>kinds = [\<lparr>api_version = ''networking.k8s.io/v1beta1'', gvk_kind = ''IngressClass''\<rparr>,
               \<lparr>api_version = ''networking.k8s.io/v1'', gvk_kind = ''IngressClass''\<rparr>],
      admit = default_admit st, run = ingress_class_process st\<rparr>"

section \<open>Ingresses\<close>

definition ingress_status_update :: "settings \<Rightarrow> kobj \<Rightarrow> fstate \<Rightarrow> fstate res" where
  "ingress_status_update st ob s =
     (let service_status =
            (case ambassador_service s of
               None \<Rightarrow> PNone
             | Some svc \<Rightarrow> if ko_name svc = [] then PNone else ko_status svc)
      in if \<not> pv_eq (ko_status ob) service_status \<and> truthy service_status
         then rbind (ko_namespace st ob) (\<lambda>ns.
           Inr (upd_aconf (\<lambda>c. c\<lparr>k8s_status_updates :=
             dset (ko_name ob @ ''.'' @ ns) (gvk_kind (ko_gvk ob), ns, service_status)
               (k8s_status_updates c)\<rparr>) s))
         else Inr s)"

fun named_port :: "pyval \<Rightarrow> pyval list \<Rightarrow> pyval res" where
  "named_port service_port [] = Inr service_port"
| "named_port service_port (port # ports) =
     rbind (pv_get port ''name'' PNone) (\<lambda>nm.
       if pv_eq service_port nm then pv_get port ''port'' service_port
       else named_port service_port ports)"

definition try_resolve_service_port_number ::
  "string \<Rightarrow> pyval \<Rightarrow> pyval \<Rightarrow> fstate \<Rightarrow> pyval res" where
  "try_resolve_service_port_number ns service_name service_port s =
     (case service_name of
        PStr nm \<Rightarrow>
          (case dget (discovered_services s)
                  \<lparr>key_gvk = \<lparr>api_version = ''v1'', gvk_kind = ''Service''\<rparr>, key_namespace = Some ns,
                   key_name = nm\<rparr> of
             None \<Rightarrow> Inr service_port
           | Some svc \<Rightarrow>
               rbind (pv_get (ko_spec svc) ''ports'' (PList [])) (\<lambda>pv.
               rbind (pv_iter pv) (named_port service_port)))
      | PList _ \<Rightarrow> Inl (TypeError ''unhashable'')
      | PDict _ \<Rightarrow> Inl (TypeError ''unhashable'')
      | _ \<Rightarrow> Inr service_port)"

definition plain_labels :: "kobj \<Rightarrow> pyval pydict res" where
  "plain_labels ob = (case ko_labels ob of PDict d \<Rightarrow> Inr d | _ \<Rightarrow> Inl (TypeError ''dict''))"

definition mapping_labels :: "string option \<Rightarrow> pyval pydict \<Rightarrow> pyval pydict" where
  "mapping_labels ingress_id labels =
     (case ingress_id of None \<Rightarrow> labels | Some i \<Rightarrow> dset ''a10r-k8s-ingress'' (PStr i) labels)"

definition emit_generated ::
  "settings \<Rightarrow> (pyval \<Rightarrow> string) \<Rightarrow> string \<Rightarrow> string \<Rightarrow> string \<Rightarrow> pyval \<Rightarrow> pyval \<Rightarrow> pyval pydict \<Rightarrow>
   fstate \<Rightarrow> fstate res" where
  "emit_generated st dy kind name ns generation labels spec s =
     emit_res st dy (from_data kind name (Some ns) generation ''v3alpha1'' (Some ''getambassador.io'')
       labels (PDict spec) PNone None) s"

definition ingress_id_of :: "settings \<Rightarrow> kobj \<Rightarrow> string res" where
  "ingress_id_of st ob = rbind (ko_namespace st ob) (\<lambda>ns. Inr (''a10r-ingress-'' @ ko_name ob @ ''-'' @ ns))"

definition emit_tls_host ::
  "settings \<Rightarrow> (pyval \<Rightarrow> string) \<Rightarrow> kobj \<Rightarrow> string \<Rightarrow> pyval \<Rightarrow> nat \<Rightarrow> nat \<times> pyval \<Rightarrow> fstate \<Rightarrow> fstate res" where
  "emit_tls_host st dy ob ingress_id tls_secret tls_count h s =
     rbind (ko_ambassador_id ob) (\<lambda>aid.
     rbind (ko_namespace st ob) (\<lambda>ns.
       emit_generated st dy ''Host''
         (ko_name ob @ ''-'' @ str_nat tls_count @ ''-'' @ str_nat (fst h)) ns PNone (ko_labels ob)
         [(''ambassador_id'', PList [aid]), (''hostname'', snd h),
          (''acmeProvider'', PDict [(''authority'', PStr ''none'')]),
          (''tlsSecret'', PDict [(''name'', tls_secret)]),
          (''selector'', PDict [(''matchLabels'', PDict [(''a10r-k8s-ingress'', PStr ingress_id)])]),
          (''requestPolicy'', PDict [(''insecure'', PDict [(''action'', PStr ''Route'')])])] s))"

definition ingress_tls ::
  "settings \<Rightarrow> (pyval \<Rightarrow> string) \<Rightarrow> kobj \<Rightarrow> nat \<times> pyval \<Rightarrow> string option \<times> fstate \<Rightarrow>
   (string option \<times> fstate) res" where
  "ingress_tls st dy ob t acc =
     rbind (ingress_id_of st ob) (\<lambda>ingress_id.
     rbind (pv_get (snd t) ''secretName'' PNone) (\<lambda>tls_secret.
       if tls_secret = PNone then Inr (Some ingress_id, snd acc)
       else
         rbind (pv_get (snd t) ''hosts'' (PList [PStr ''*''])) (\<lambda>hv.
         rbind (pv_iter hv) (\<lambda>hosts.
         rbind (rfold (emit_tls_host st dy ob ingress_id tls_secret (fst t)) (enumerate 0 hosts) (snd acc))
           (\<lambda>s1. Inr (Some ingress_id, s1))))))"

definition ingress_default_backend ::
  "settings \<Rightarrow> (pyval \<Rightarrow> string) \<Rightarrow> kobj \<Rightarrow> string option \<Rightarrow> fstate \<Rightarrow> fstate res" where
  "ingress_default_backend st dy ob ingress_id s =
     rbind (pv_get (ko_spec ob) ''backend'' (PDict [])) (\<lambda>old.
     rbind (pv_get (ko_spec ob) ''defaultBackend'' old) (\<lambda>backend.
     rbind (pv_get backend ''serviceName'' PNone) (\<lambda>name.
     rbind (pv_get backend ''servicePort'' PNone) (\<lambda>port.
       if name \<noteq> PNone \<and> port \<noteq> PNone then
         rbind (plain_labels ob) (\<lambda>labels.
         rbind (ko_namespace st ob) (\<lambda>ns.
         rbind (ko_ambassador_id ob) (\<lambda>aid.
           emit_generated st dy ''Mapping'' (ko_name ob @ ''-default-backend'') ns PNone
             (PDict (mapping_labels ingress_id labels))
             [(''ambassador_id'', aid), (''hostname'', PStr ''*''), (''prefix'', PStr ''/''),
              (''service'', PStr (pv_fmt name @ ''.'' @ ns @ '':'' @ pv_fmt port))] s)))
       else Inr s))))"

definition wildcard_regex :: "string \<Rightarrow> string" where
  "wildcard_regex rule_host =
     replace_first (CHR ''*'') ''^[a-z0-9]([-a-z0-9]*[a-z0-9])?''
       (replace_char (CHR ''.'') [CHR 92, CHR ''.''] rule_host) @ ''$''"

definition with_rule_host :: "string option \<Rightarrow> pyval \<Rightarrow> pyval pydict \<Rightarrow> pyval pydict res" where
  "with_rule_host ingress_id rule_host spec =
     (case rule_host of
        PNone \<Rightarrow> Inr (if ingress_id = None then dset ''hostname'' (PStr ''*'') spec else spec)
      | PStr h \<Rightarrow>
          Inr (if startswith h ''*.''
               then dset ''host_regex'' (PBool True) (dset ''host'' (PStr (wildcard_regex h)) spec)
               else dset ''hostname'' (PStr h) spec)
      | _ \<Rightarrow> Inl (AttributeError ''startswith''))"

definition path_port :: "settings \<Rightarrow> kobj \<Rightarrow> pyval \<Rightarrow> pyval \<Rightarrow> fstate \<Rightarrow> pyval res" where
  "path_port st ob service_name service_port s =
     (case py_int service_port of
        Inr n \<Rightarrow> Inr (PInt n)
      | Inl _ \<Rightarrow> rbind (ko_namespace st ob) (\<lambda>ns.
                   try_resolve_service_port_number ns service_name service_port s))"

definition ingress_path ::
  "settings \<Rightarrow> (pyval \<Rightarrow> string) \<Rightarrow> kobj \<Rightarrow> string option \<Rightarrow> nat \<Rightarrow> pyval \<Rightarrow> nat \<times> pyval \<Rightarrow> fstate \<Rightarrow> fstate res" where
  "ingress_path st dy ob ingress_id rule_count rule_host p s =
     rbind (pv_get (snd p) ''backend'' (PDict [])) (\<lambda>path_backend.
     rbind (pv_get (snd p) ''pathType'' (PStr ''ImplementationSpecific'')) (\<lambda>path_type.
     rbind (pv_get path_backend ''serviceName'' PNone) (\<lambda>service_name.
     rbind (pv_get path_backend ''servicePort'' PNone) (\<lambda>port0.
     rbind (pv_get (snd p) ''path'' (PStr ''/'')) (\<lambda>path_location.
     rbind (path_port st ob service_name port0 s) (\<lambda>service_port.
       if \<not> truthy service_name \<or> \<not> truthy service_port \<or> \<not> truthy path_location then Inr s
       else
         rbind (ko_ambassador_id ob) (\<lambda>aid.
         rbind (ko_namespace st ob) (\<lambda>ns.
         let exact = (path_type = PStr ''Exact'') in
         rbind (with_rule_host ingress_id rule_host
            [(''ambassador_id'', aid), (''prefix'', path_location), (''prefix_exact'', PBool exact),
             (''precedence'', PInt (if exact then 1 else 0)),
             (''service'', PStr (pv_fmt service_name @ ''.'' @ ns @ '':'' @ pv_fmt service_port))]) (\<lambda>spec.
         rbind (plain_labels ob) (\<lambda>labels.
           emit_generated st dy ''Mapping'' (ko_name ob @ ''-'' @ str_nat rule_count @ ''-'' @ str_nat (fst p))
             ns PNone (PDict (mapping_labels ingress_id labels)) spec s))))))))))"

definition ingress_rule ::
  "settings \<Rightarrow> (pyval \<Rightarrow> string) \<Rightarrow> kobj \<Rightarrow> string option \<Rightarrow> nat \<times> pyval \<Rightarrow> fstate \<Rightarrow> fstate res" where
  "ingress_rule st dy ob ingress_id r s =
     rbind (pv_get (snd r) ''http'' (PDict [])) (\<lambda>rule_http.
     rbind (pv_get (snd r) ''host'' PNone) (\<lambda>rule_host.
     rbind (pv_get rule_http ''paths'' (PList [])) (\<lambda>pv.
     rbind (pv_iter pv) (\<lambda>paths.
       rfold (ingress_path st dy ob ingress_id (fst r) rule_host) (enumerate 0 paths) s))))"

definition has_ingress_class :: "kobj \<Rightarrow> fstate \<Rightarrow> bool res" where
  "has_ingress_class ob s =
     rbind (pv_get (ko_spec ob) ''ingressClassName'' (PStr [])) (\<lambda>nm.
       case nm of
         PStr c \<Rightarrow> Inr (c \<in> set (ingress_classes s))
       | PList _ \<Rightarrow> Inl (TypeError ''unhashable'')
       | PDict _ \<Rightarrow> Inl (TypeError ''unhashable'')
       | _ \<Rightarrow> Inr False)"

definition ingress_resources ::
  "settings \<Rightarrow> (pyval \<Rightarrow> string) \<Rightarrow> kobj \<Rightarrow> fstate \<Rightarrow> fstate res" where
  "ingress_resources st dy ob s =
     rbind (pv_get (ko_spec ob) ''tls'' (PList [])) (\<lambda>tv.
     rbind (pv_iter tv) (\<lambda>tls.
     rbind (rfold (ingress_tls st dy ob) (enumerate 0 tls) (None, s)) (\<lambda>(ingress_id, s1).
     rbind (ingress_default_backend st dy ob ingress_id s1) (\<lambda>s2.
     rbind (pv_get (ko_spec ob) ''rules'' (PList [])) (\<lambda>rv.
     rbind (pv_iter rv) (\<lambda>rules.
       rfold (ingress_rule st dy ob ingress_id) (enumerate 0 rules) s2))))))"

definition ingress_process :: "settings \<Rightarrow> (pyval \<Rightarrow> string) \<Rightarrow> kobj \<Rightarrow> fstate \<Rightarrow> fstate res" where
  "ingress_process st dy ob s =
     rbind (has_ingress_class ob s) (\<lambda>has_class.
     rbind (pv_get (ko_annotations ob) ''kubernetes.io/ingress.class'' (PStr [])) (\<lambda>a.
     rbind (pv_lower a) (\<lambda>annotation.
       if \<not> (has_class \<or> annotation = ''ambassador'') then Inr s
       else rbind (ko_ambassador_id ob) (\<lambda>aid.
         if aid \<noteq> PStr (ambassador_id st) then Inr s
         else rbind (ingress_resources st dy ob (upd_aconf (incr_count ''k8s_ingress'') s)) (\<lambda>s1.
           ingress_status_update st ob s1)))))"

definition ingress_processor :: "settings \<Rightarrow> (pyval \<Rightarrow> string) \<Rightarrow> processor" where
  "ingress_processor st dy =
     \<lparr>kinds = [\<lparr>api_version = ''extensions/v1beta1'', gvk_kind = ''Ingress''\<rparr>,
               \<lparr>api_version = ''networking.k8s.io/v1beta1'', gvk_kind = ''Ingress''\<rparr>,
               \<lparr>api_version = ''networking.k8s.io/v1'', gvk_kind = ''Ingress''\<rparr>],
      admit = default_admit st, run = ingress_process st dy\<rparr>"

section \<open>Knative Ingresses\<close>

definition INGRESS_CLASS :: string where
  "INGRESS_CLASS = ''ambassador.ingress.networking.knative.dev''"

definition has_required_annotations :: "settings \<Rightarrow> kobj \<Rightarrow> bool res" where
  "has_required_annotations st ob =
     rbind (pv_get (ko_annotations ob) ''networking.knative.dev/ingress.class'' (PStr INGRESS_CLASS)) (\<lambda>c.
     rbind (pv_lower c) (\<lambda>ingress_class.
       if ingress_class \<noteq> INGRESS_CLASS then Inr False
       else rbind (ko_ambassador_id ob) (\<lambda>aid. Inr (aid = PStr (ambassador_id st)))))"

definition pv_mapping :: "pyval \<Rightarrow> pyval pydict res" where
  "pv_mapping v = (case v of PDict d \<Rightarrow> Inr d | _ \<Rightarrow> Inl (TypeError ''not a mapping''))"

definition split_spec ::
  "settings \<Rightarrow> (pyval \<Rightarrow> int res) \<Rightarrow> kobj \<Rightarrow> pyval \<Rightarrow> pyval \<Rightarrow> pyval \<Rightarrow> pyval pydict list \<Rightarrow>
   pyval pydict list res" where
  "split_spec st timeout_ms ob path global_headers split acc =
     rbind (pv_get split ''serviceName'' PNone) (\<lambda>service_name.
       if \<not> truthy service_name then Inr acc
       else
         rbind (ko_namespace st ob) (\<lambda>ns.
         rbind (pv_get split ''serviceNamespace'' (PStr ns)) (\<lambda>service_namespace.
         rbind (pv_get split ''servicePort'' (PInt 80)) (\<lambda>service_port.
         rbind (pv_get split ''appendHeaders'' (PDict [])) (\<lambda>hv.
         rbind (pv_mapping global_headers) (\<lambda>global.
         rbind (pv_mapping hv) (\<lambda>headers.
         rbind (pv_get split ''percent'' (PInt 100)) (\<lambda>weight.
         rbind (pv_get path ''path'' (PStr ''/'')) (\<lambda>prfx.
         rbind (pv_get path ''timeout'' (PStr ''15s'')) (\<lambda>tv.
         rbind (timeout_ms tv) (\<lambda>timeout.
           Inr (acc @
             [[(''service'', PStr (pv_fmt service_name @ ''.'' @ pv_fmt service_namespace @ '':'' @
                  pv_fmt service_port)),
               (''add_request_headers'', PDict (dupdate (dupdate [] global) headers)),
               (''weight'', weight), (''prefix'', prfx), (''timeout_ms'', PInt timeout)]]))))))))))))"

definition path_specs ::
  "settings \<Rightarrow> (pyval \<Rightarrow> int res) \<Rightarrow> kobj \<Rightarrow> pyval \<Rightarrow> pyval pydict list \<Rightarrow> pyval pydict list res" where
  "path_specs st timeout_ms ob path acc =
     rbind (pv_get path ''appendHeaders'' (PDict [])) (\<lambda>gv.
     rbind (pv_get path ''splits'' (PList [])) (\<lambda>sv.
     rbind (pv_iter sv) (\<lambda>splits.
       rfold (split_spec st timeout_ms ob path gv) splits acc)))"

definition emit_split ::
  "settings \<Rightarrow> (pyval \<Rightarrow> string) \<Rightarrow> kobj \<Rightarrow> nat \<Rightarrow> nat \<times> (pyval \<times> pyval pydict) \<Rightarrow> fstate \<Rightarrow> fstate res" where
  "emit_split st dy ob rule_count x s =
     rbind (ko_ambassador_id ob) (\<lambda>aid.
     rbind (ko_namespace st ob) (\<lambda>ns.
       emit_generated st dy ''Mapping'' (ko_name ob @ ''-'' @ str_nat rule_count @ ''-'' @ str_nat (fst x)) ns
         (ko_generation ob) (ko_labels ob)
         (dupdate [(''ambassador_id'', aid), (''host'', fst (snd x))] (snd (snd x))) s))"

definition emit_mapping ::
  "settings \<Rightarrow> (pyval \<Rightarrow> string) \<Rightarrow> (pyval \<Rightarrow> int res) \<Rightarrow> kobj \<Rightarrow> nat \<times> pyval \<Rightarrow> fstate \<Rightarrow> fstate res" where
  "emit_mapping st dy timeout_ms ob r s =
     rbind (pv_get (snd r) ''hosts'' (PList [])) (\<lambda>hv.
     rbind (pv_get (snd r) ''http'' (PDict [])) (\<lambda>http.
     rbind (pv_get http ''paths'' (PList [])) (\<lambda>pv.
     rbind (pv_iter pv) (\<lambda>paths.
     rbind (rfold (path_specs st timeout_ms ob) paths []) (\<lambda>specs.
     rbind (pv_iter hv) (\<lambda>hosts.
       rfold (emit_split st dy ob (fst r)) (enumerate 0 (List.product hosts specs)) s))))))"

definition ready_condition :: "string \<Rightarrow> string \<Rightarrow> pyval" where
  "ready_condition utcnow type =
     PDict [(''lastTransitionTime'', PStr utcnow), (''status'', PStr ''True''), (''type'', PStr type)]"

definition make_status :: "string \<Rightarrow> pyval \<Rightarrow> string option \<Rightarrow> pyval pydict" where
  "make_status utcnow generation lb_domain =
     [(''observedGeneration'', generation),
      (''conditions'', PList [ready_condition utcnow ''LoadBalancerReady'',
         ready_condition utcnow ''NetworkConfigured'', ready_condition utcnow ''Ready''])] @
     (case lb_domain of
        None \<Rightarrow> []
      | Some d \<Rightarrow>
          if d = [] then []
          else let lb = PDict [(''ingress'', PList [PDict [(''domainInternal'', PStr d)]])]
               in [(''loadBalancer'', lb), (''privateLoadBalancer'', lb)])"

definition current_lb_domain :: "settings \<Rightarrow> fstate \<Rightarrow> string option res" where
  "current_lb_domain st s =
     (case ambassador_service s of
        None \<Rightarrow> Inr None
      | Some svc \<Rightarrow>
          if ko_name svc = [] then Inr None
          else rbind (ko_namespace st svc) (\<lambda>ns. Inr (Some (ko_name svc @ ''.'' @ ns @ ''.svc.cluster.local''))))"

definition observed_lb_domain :: "kobj \<Rightarrow> pyval res" where
  "observed_lb_domain ob =
     rbind (pv_get (ko_status ob) ''privateLoadBalancer'' (PDict [])) (\<lambda>lb.
     rbind (pv_get lb ''ingress'' (PList [])) (\<lambda>iv.
     rbind (pv_iter iv) (\<lambda>is.
       pv_get (case is of [] \<Rightarrow> PDict [] | i # _ \<Rightarrow> i) ''domainInternal'' PNone)))"

definition num_greater :: "pyval \<Rightarrow> pyval \<Rightarrow> bool res" where
  "num_greater a b =
     (case (num_of a, num_of b) of
        (Some x, Some y) \<Rightarrow> Inr (x > y)
      | _ \<Rightarrow> (case (a, b) of
            (PStr x, PStr y) \<Rightarrow> Inr (x > y)
          | _ \<Rightarrow> Inl (TypeError ''not supported between instances'')))"

definition knative_status_update ::
  "settings \<Rightarrow> string \<Rightarrow> kobj \<Rightarrow> fstate \<Rightarrow> fstate res" where
  "knative_status_update st utcnow ob s =
     rbind (pv_get (ko_status ob) ''observedGeneration'' (PInt 0)) (\<lambda>og.
     rbind (num_greater (ko_generation ob) og) (\<lambda>has_new_generation.
     rbind (current_lb_domain st s) (\<lambda>cur.
     rbind (observed_lb_domain ob) (\<lambda>obs.
       if has_new_generation \<or> obs \<noteq> (case cur of None \<Rightarrow> PNone | Some d \<Rightarrow> PStr d)
       then rbind (ko_namespace st ob) (\<lambda>ns.
         Inr (upd_aconf (\<lambda>c. c\<lparr>k8s_status_updates :=
           dset (ko_name ob @ ''.'' @ ns)
             (gvk_domain (ko_gvk ob), ns, PDict (make_status utcnow (ko_generation ob) cur))
             (k8s_status_updates c)\<rparr>) s))
       else Inr s))))"

definition knative_process ::
  "settings \<Rightarrow> (pyval \<Rightarrow> string) \<Rightarrow> (pyval \<Rightarrow> int res) \<Rightarrow> string \<Rightarrow> kobj \<Rightarrow> fstate \<Rightarrow> fstate res" where
  "knative_process st dy timeout_ms utcnow ob s =
     rbind (has_required_annotations st ob) (\<lambda>ok.
       if \<not> ok then Inr s
       else
         rbind (pv_get (ko_spec ob) ''rules'' (PList [])) (\<lambda>rv.
         rbind (pv_iter rv) (\<lambda>rules.
         rbind (rfold (emit_mapping st dy timeout_ms ob) (enumerate 0 rules) s) (\<lambda>s1.
           knative_status_update st utcnow ob s1))))"

definition knative_ingress_processor ::
  "settings \<Rightarrow> (pyval \<Rightarrow> string) \<Rightarrow> (pyval \<Rightarrow> int res) \<Rightarrow> string \<Rightarrow> processor" where
  "knative_ingress_processor st dy timeout_ms utcnow =
     \<lparr>kinds = [for_knative_networking ''Ingress''], admit = default_admit st,
      run = knative_process st dy timeout_ms utcnow\<rparr>"

section \<open>What emission adds\<close>

definition reserved :: "string list" where
  "reserved = [''kind'', ''name'', ''namespace'', ''metadata_labels'', ''apiVersion'', ''errors'', ''generation'']"

definition grown :: "(ac \<Rightarrow> bool) \<Rightarrow> fstate \<Rightarrow> fstate \<Rightarrow> bool" where
  "grown P s s' \<longleftrightarrow> (\<exists>new. elements (mgr s') = elements (mgr s) @ new \<and> (\<forall>e \<in> set new. P e))"

lemma grown_refl [simp]: "grown P s s"
  by (simp add: grown_def)

lemma grown_same: "elements (mgr s') = elements (mgr s) \<Longrightarrow> grown P s s'"
  by (simp add: grown_def)

lemma grown_trans [trans]: "grown P s t \<Longrightarrow> grown P t u \<Longrightarrow> grown P s u"
  unfolding grown_def by (metis Un_iff append.assoc set_append)

lemma grown_mono: "grown P s t \<Longrightarrow> (\<And>e. P e \<Longrightarrow> Q e) \<Longrightarrow> grown Q s t"
  unfolding grown_def by blast

lemma grown_rfold:
  assumes "rfold f xs s = Inr t" and "\<And>x u v. x \<in> set xs \<Longrightarrow> f x u = Inr v \<Longrightarrow> grown P u v"
  shows "grown P s t"
  by (rule rfold_invariant [OF assms(1), of "grown P s"]) (auto intro: grown_trans assms(2))

lemma upd_aconf_elements [simp]: "elements (mgr (upd_aconf f s)) = elements (mgr s)"
  by (simp add: upd_aconf_def)

lemma upd_aconf_seen [simp]: "seen (upd_aconf f s) = seen s"
  by (simp add: upd_aconf_def)

lemma emit_from_dict:
  "elements (emit st dy nr m) = elements m \<or>
     (\<exists>obj key ser e. nr_object nr = PDict obj \<and> from_dict key key ser obj = Inr e \<and>
        elements (emit st dy nr m) = elements m @ [e])"
proof -
  have "elements (snd (emit_core st dy nr m)) = elements m \<or>
      (\<exists>obj key ser e. nr_object nr = PDict obj \<and> from_dict key key ser obj = Inr e \<and>
        elements (snd (emit_core st dy nr m)) = elements m @ [e])"
    by (cases "nr_object nr")
      (auto simp: emit_core_def Let_def split: option.split sum.split pyval.split)
  then show ?thesis by (simp add: emit_def split_beta Let_def)
qed

lemma from_dict_attrs:
  assumes "from_dict rkey loc ser attrs = Inr e"
  shows "dget attrs ''kind'' = Some (PStr (ac_kind e)) \<and>
    (\<forall>k. k \<notin> set reserved \<longrightarrow> dget (ac_attrs e) k = dget attrs k) \<and>
    pget (ac_attrs e) ''metadata_labels'' =
      (if truthy (pget attrs ''metadata_labels'') then pget attrs ''metadata_labels'' else PNone)"
proof -
  let ?kw = "fold ddel [''kind'', ''name'', ''namespace'', ''metadata_labels'', ''apiVersion'', ''errors''] attrs"
  have "ac_attrs e = (if truthy (pget attrs ''metadata_labels'')
      then dset ''metadata_labels'' (pget attrs ''metadata_labels'') ?kw else ?kw)"
    using assms by (auto simp: from_dict_def acresource_init_def res_simps split: if_splits option.splits)
  then show ?thesis
    using from_dict_fields [OF assms] by (auto simp: reserved_def fold_ddel_other pget_def dget_or_def)
qed

text \<open>What a resource that is generated from a spec carries.\<close>

lemma emit_generated_grows:
  assumes "emit_generated st dy kind name ns generation labels spec s = Inr s'" and "dwf spec"
    and "\<And>e. ac_kind e = kind \<Longrightarrow> (\<And>k. k \<notin> set reserved \<Longrightarrow> dget (ac_attrs e) k = dget spec k) \<Longrightarrow>
       pget (ac_attrs e) ''metadata_labels'' = (if truthy labels then labels else PNone) \<Longrightarrow> P e"
  shows "grown P s s'"
proof -
  obtain nr where nr: "from_data kind name (Some ns) generation ''v3alpha1'' (Some ''getambassador.io'')
       labels (PDict spec) PNone None = Inr nr" "s' = s\<lparr>mgr := emit st dy nr (mgr s)\<rparr>"
    using assms(1) by (auto simp: emit_generated_def emit_res_def res_simps)
  have "\<exists>obj. nr_object nr = PDict obj \<and> dget obj ''kind'' = Some (PStr kind) \<and>
      pget obj ''metadata_labels'' = por labels (PDict []) \<and>
      (\<forall>k. k \<notin> set reserved \<longrightarrow> dget obj k = dget (dupdate [] spec) k)"
    using nr(1) by (cases "generation = PNone")
      (auto simp: from_data_def Let_def reserved_def pget_def dget_or_def)
  then obtain obj where obj: "nr_object nr = PDict obj" "dget obj ''kind'' = Some (PStr kind)"
      "pget obj ''metadata_labels'' = por labels (PDict [])"
      "\<And>k. k \<notin> set reserved \<Longrightarrow> dget obj k = dget (dupdate [] spec) k"
    by blast
  have "dget (dupdate [] spec) k = dget spec k" for k
    using assms(2) by (simp add: dget_dupdate split: option.split)
  then have P: "P e" if "from_dict key key ser obj = Inr e" for key ser e
    using from_dict_attrs [OF that] obj(2-4) by (intro assms(3)) (auto simp: por_def)
  from emit_from_dict [of st dy nr "mgr s"] show ?thesis
    using P obj(1) by (auto simp: grown_def nr(2))
qed

section \<open>Hosts and Mappings of an Ingress\<close>

text \<open>The label selector of a Host and the labels of a Mapping, as the matching functions take them.\<close>

definition selector_of :: "ac \<Rightarrow> string pydict pydict" where
  "selector_of e = str_dicts (pget (ac_attrs e) ''selector'')"

definition labels_of :: "ac \<Rightarrow> string pydict" where
  "labels_of e = str_dict (pget (ac_attrs e) ''metadata_labels'')"

definition host_of :: "string \<Rightarrow> ac \<Rightarrow> bool" where
  "host_of i e \<longleftrightarrow> ac_kind e = ''Host'' \<and>
     selector_of e = [(''matchLabels'', [(''a10r-k8s-ingress'', i)])]"

definition mapping_of :: "string \<Rightarrow> ac \<Rightarrow> bool" where
  "mapping_of i e \<longleftrightarrow> ac_kind e = ''Mapping'' \<and> dget (labels_of e) ''a10r-k8s-ingress'' = Some i"

lemma host_mapping_match:
  assumes "host_of i h" and "mapping_of i m"
  shows "selector_matches env (selector_of h) (labels_of m)"
  using assms
  by (auto simp: host_of_def mapping_of_def selector_matches_def Let_def dget_or_def any_label_iff)

lemma emit_tls_host_grows:
  "emit_tls_host st dy ob i sec n h s = Inr s' \<Longrightarrow> grown (host_of i) s s'"
  unfolding emit_tls_host_def rbind_eq_Inr
  by (elim exE conjE, rule emit_generated_grows, assumption)
    (auto simp: dwf_def reserved_def host_of_def selector_of_def pget_def dget_or_def str_dict_def str_dicts_def
      map_filter_simps)

lemma ingress_tls_grows:
  assumes "ingress_tls st dy ob t acc = Inr acc'"
  shows "\<exists>i. ingress_id_of st ob = Inr i \<and> fst acc' = Some i \<and> grown (host_of i) (snd acc) (snd acc')"
  using assms unfolding ingress_tls_def
  by (auto simp: rbind_eq_Inr split: if_splits intro: grown_rfold emit_tls_host_grows)

lemma emit_labelled_grows:
  assumes "emit_generated st dy ''Mapping'' name ns PNone (PDict (mapping_labels (Some i) labels)) spec s = Inr s'"
    and "dwf spec"
  shows "grown (mapping_of i) s s'"
proof (rule emit_generated_grows [OF assms])
  fix e :: ac
  assume e: "ac_kind e = ''Mapping''" "pget (ac_attrs e) ''metadata_labels'' =
      (if truthy (PDict (mapping_labels (Some i) labels)) then PDict (mapping_labels (Some i) labels) else PNone)"
  have "pget (ac_attrs e) ''metadata_labels'' = PDict (dset ''a10r-k8s-ingress'' (PStr i) labels)"
    using e(2) by (simp add: mapping_labels_def)
  with e(1) show "mapping_of i e"
    by (simp add: mapping_of_def labels_of_def dget_str_dict)
qed

lemma backend_grows:
  assumes "ingress_default_backend st dy ob (Some i) s = Inr s'"
  shows "grown (mapping_of i) s s'"
  using assms unfolding ingress_default_backend_def
  by (auto simp: rbind_eq_Inr dwf_def split: if_splits elim!: emit_labelled_grows)

lemma with_rule_host_dwf: "with_rule_host i h spec = Inr spec' \<Longrightarrow> dwf spec \<Longrightarrow> dwf spec'"
  by (auto simp: with_rule_host_def split: pyval.splits if_splits)

lemma path_grows:
  assumes "ingress_path st dy ob (Some i) n h p s = Inr s'"
  shows "grown (mapping_of i) s s'"
proof -
  have d: "dwf [(''ambassador_id'', a), (''prefix'', b), (''prefix_exact'', c), (''precedence'', e), (''service'', f)]"
    for a b c e f :: pyval by (simp add: dwf_def)
  show ?thesis
    using assms unfolding ingress_path_def
    by (auto simp: rbind_eq_Inr Let_def split: if_splits
        elim!: emit_labelled_grows with_rule_host_dwf intro: d)
qed

lemma rule_grows:
  assumes "ingress_rule st dy ob (Some i) r s = Inr s'"
  shows "grown (mapping_of i) s s'"
  using assms unfolding ingress_rule_def
  by (auto simp: rbind_eq_Inr intro: grown_rfold path_grows)

lemma ingress_tls_all:
  assumes "rfold (ingress_tls st dy ob) ts (None, s) = Inr (i, s')"
  shows "case i of None \<Rightarrow> s' = s | Some j \<Rightarrow> grown (host_of j) s s'"
proof -
  let ?P = "\<lambda>(i, u). case i of None \<Rightarrow> u = s
      | Some j \<Rightarrow> ingress_id_of st ob = Inr j \<and> grown (host_of j) s u"
  have "?P (i, s')"
  proof (rule rfold_invariant [OF assms])
    fix t a b
    assume "?P a" and "ingress_tls st dy ob t a = Inr b"
    with ingress_tls_grows [OF this(2)] show "?P b"
      by (auto split: option.splits prod.splits intro: grown_trans)
  qed simp
  then show ?thesis by (simp split: option.splits)
qed

text \<open>An Ingress without TLS yields no Host.\<close>

lemma unlabelled_grows:
  "emit_generated st dy ''Mapping'' name ns g labels spec s = Inr s' \<Longrightarrow> dwf spec \<Longrightarrow>
     grown (\<lambda>e. ac_kind e = ''Mapping'') s s'"
  by (rule emit_generated_grows)

lemma ingress_mappings_only:
  "ingress_default_backend st dy ob i s = Inr s' \<Longrightarrow> grown (\<lambda>e. ac_kind e = ''Mapping'') s s'"
  "ingress_rule st dy ob i r s = Inr s' \<Longrightarrow> grown (\<lambda>e. ac_kind e = ''Mapping'') s s'"
proof -
  show "grown (\<lambda>e. ac_kind e = ''Mapping'') s s'" if "ingress_default_backend st dy ob i s = Inr s'"
    using that unfolding ingress_default_backend_def
    by (auto simp: rbind_eq_Inr dwf_def split: if_splits elim!: unlabelled_grows)
  have d: "dwf [(''ambassador_id'', a), (''prefix'', b), (''prefix_exact'', c), (''precedence'', e), (''service'', f)]"
    for a b c e f :: pyval by (simp add: dwf_def)
  have "grown (\<lambda>e. ac_kind e = ''Mapping'') u v" if "ingress_path st dy ob i n h p u = Inr v" for n h p u v
    using that unfolding ingress_path_def
    by (auto simp: rbind_eq_Inr Let_def split: if_splits
        elim!: unlabelled_grows with_rule_host_dwf intro: d)
  then show "grown (\<lambda>e. ac_kind e = ''Mapping'') s s'" if "ingress_rule st dy ob i r s = Inr s'"
    using that unfolding ingress_rule_def by (auto simp: rbind_eq_Inr intro: grown_rfold)
qed

lemma ingress_resources_grows:
  assumes "ingress_resources st dy ob s = Inr s'"
  shows "(\<exists>i. grown (\<lambda>e. host_of i e \<or> mapping_of i e) s s') \<or> grown (\<lambda>e. ac_kind e = ''Mapping'') s s'"
proof -
  obtain tls i s1 s2 rules where *: "rfold (ingress_tls st dy ob) tls (None, s) = Inr (i, s1)"
      "ingress_default_backend st dy ob i s1 = Inr s2"
      "rfold (ingress_rule st dy ob i) rules s2 = Inr s'"
    using assms unfolding ingress_resources_def by (auto simp: rbind_eq_Inr split: prod.splits)
  show ?thesis
  proof (cases i)
    case None
    then have "s1 = s" using ingress_tls_all [OF *(1)] by simp
    moreover have "grown (\<lambda>e. ac_kind e = ''Mapping'') s1 s'"
      using ingress_mappings_only(1) [OF *(2)] grown_rfold [OF *(3) ingress_mappings_only(2)]
      by (rule grown_trans)
    ultimately show ?thesis by simp
  next
    case (Some j)
    have "grown (host_of j) s s1" using ingress_tls_all [OF *(1)] Some by simp
    moreover have "grown (mapping_of j) s1 s2" using *(2) unfolding Some by (rule backend_grows)
    moreover have "grown (mapping_of j) s2 s'"
      using *(3) unfolding Some by (rule grown_rfold) (rule rule_grows)
    ultimately have "grown (\<lambda>e. host_of j e \<or> mapping_of j e) s s1"
      "grown (\<lambda>e. host_of j e \<or> mapping_of j e) s1 s2" "grown (\<lambda>e. host_of j e \<or> mapping_of j e) s2 s'"
      by (auto elim: grown_mono)
    then show ?thesis by (blast intro: grown_trans)
  qed
qed

section \<open>Seen keys\<close>

lemma emit_generated_keeps_seen:
  "emit_generated st dy kind name ns g labels spec s = Inr s' \<Longrightarrow> seen s' = seen s"
  by (auto simp: emit_generated_def emit_res_keeps_seen)

lemma keeps_seen_rfold:
  "rfold f xs s = Inr t \<Longrightarrow> (\<And>x u v. f x u = Inr v \<Longrightarrow> seen v = seen u) \<Longrightarrow> seen t = seen s"
  by (rule rfold_invariant [where P = "\<lambda>u. seen u = seen s"]) auto

lemma ingress_class_keeps_seen: "run (ingress_class_processor st) ob s = Inr s' \<Longrightarrow> seen s' = seen s"
  by (auto simp: ingress_class_processor_def ingress_class_process_def res_simps Let_def split: if_splits)

lemma ingress_status_keeps:
  "ingress_status_update st ob s = Inr s' \<Longrightarrow> seen s' = seen s \<and> elements (mgr s') = elements (mgr s)"
  by (auto simp: ingress_status_update_def res_simps Let_def split: if_splits)

lemma ingress_resources_keeps_seen:
  assumes "ingress_resources st dy ob s = Inr s'"
  shows "seen s' = seen s"
proof -
  have tls_host: "emit_tls_host st dy ob i sec n h u = Inr v \<Longrightarrow> seen v = seen u" for i sec n h u v
    unfolding emit_tls_host_def rbind_eq_Inr by (elim exE conjE) (rule emit_generated_keeps_seen)
  have tls: "ingress_tls st dy ob t a = Inr b \<Longrightarrow> seen (snd b) = seen (snd a)" for t a b
    unfolding ingress_tls_def
    by (auto simp: rbind_eq_Inr split: if_splits dest: keeps_seen_rfold [OF _ tls_host])
  have backend: "ingress_default_backend st dy ob i u = Inr v \<Longrightarrow> seen v = seen u" for i u v
    unfolding ingress_default_backend_def
    by (auto simp: rbind_eq_Inr split: if_splits dest: emit_generated_keeps_seen)
  have path: "ingress_path st dy ob i n h p u = Inr v \<Longrightarrow> seen v = seen u" for i n h p u v
    unfolding ingress_path_def
    by (auto simp: rbind_eq_Inr Let_def split: if_splits dest: emit_generated_keeps_seen)
  have rule: "ingress_rule st dy ob i r u = Inr v \<Longrightarrow> seen v = seen u" for i r u v
    unfolding ingress_rule_def by (auto simp: rbind_eq_Inr dest: keeps_seen_rfold [OF _ path])
  obtain tls' i s1 s2 rules where *: "rfold (ingress_tls st dy ob) tls' (None, s) = Inr (i, s1)"
      "ingress_default_backend st dy ob i s1 = Inr s2"
      "rfold (ingress_rule st dy ob i) rules s2 = Inr s'"
    using assms unfolding ingress_resources_def by (auto simp: rbind_eq_Inr split: prod.splits)
  have "seen (snd (i, s1)) = seen s"
    by (rule rfold_invariant [OF *(1), of "\<lambda>a. seen (snd a) = seen s"]) (auto dest: tls)
  with backend [OF *(2)] keeps_seen_rfold [OF *(3) rule] show ?thesis by simp
qed

lemma ingress_keeps_seen: "run (ingress_processor st dy) ob s = Inr s' \<Longrightarrow> seen s' = seen s"
  by (auto simp: ingress_processor_def ingress_process_def res_simps split: if_splits
      dest!: ingress_resources_keeps_seen ingress_status_keeps)

lemma knative_keeps_seen:
  assumes "run (knative_ingress_processor st dy tm now) ob s = Inr s'"
  shows "seen s' = seen s"
proof -
  have split: "emit_split st dy ob n x u = Inr v \<Longrightarrow> seen v = seen u" for n x u v
    unfolding emit_split_def rbind_eq_Inr by (elim exE conjE) (rule emit_generated_keeps_seen)
  have rule: "emit_mapping st dy tm ob r u = Inr v \<Longrightarrow> seen v = seen u" for r u v
    unfolding emit_mapping_def by (auto simp: rbind_eq_Inr dest: keeps_seen_rfold [OF _ split])
  have status: "knative_status_update st now ob u = Inr v \<Longrightarrow> seen v = seen u" for u v
    unfolding knative_status_update_def by (auto simp: rbind_eq_Inr split: if_splits)
  show ?thesis
    using assms unfolding knative_ingress_processor_def knative_process_def
    by (auto simp: rbind_eq_Inr split: if_splits dest!: keeps_seen_rfold [OF _ rule] status)
qed

section \<open>Properties\<close>

text \<open>
  C17: what the processor emits for an Ingress belongs together: the label selector of every Host
  it emits matches the labels of every Mapping it emits, in strict and in loose matching.
\<close>

theorem ingress_hosts_select_mappings:
  assumes "ingress_process st dy ob s = Inr s'"
  shows "\<exists>new. elements (mgr s') = elements (mgr s) @ new \<and>
    (\<forall>h m. h \<in> set new \<longrightarrow> m \<in> set new \<longrightarrow> ac_kind h = ''Host'' \<longrightarrow> ac_kind m = ''Mapping'' \<longrightarrow>
       selector_matches env (selector_of h) (labels_of m))"
proof -
  consider "elements (mgr s') = elements (mgr s)"
    | s1 where "ingress_resources st dy ob (upd_aconf (incr_count ''k8s_ingress'') s) = Inr s1"
        "elements (mgr s') = elements (mgr s1)"
    using assms unfolding ingress_process_def
    by (auto simp: rbind_eq_Inr split: if_splits dest: ingress_status_keeps)
  then show ?thesis
  proof cases
    case 2
    from ingress_resources_grows [OF 2(1)] show ?thesis
    proof
      assume "\<exists>i. grown (\<lambda>e. host_of i e \<or> mapping_of i e) (upd_aconf (incr_count ''k8s_ingress'') s) s1"
      then obtain i new where "elements (mgr s') = elements (mgr s) @ new"
        "\<forall>e \<in> set new. host_of i e \<or> mapping_of i e"
        using 2(2) by (auto simp: grown_def)
      moreover have "host_of i h" if "host_of i h \<or> mapping_of i h" "ac_kind h = ''Host''" for h
        using that by (auto simp: mapping_of_def)
      moreover have "mapping_of i m" if "host_of i m \<or> mapping_of i m" "ac_kind m = ''Mapping''" for m
        using that by (auto simp: host_of_def)
      ultimately show ?thesis by (meson host_mapping_match)
    next
      assume "grown (\<lambda>e. ac_kind e = ''Mapping'') (upd_aconf (incr_count ''k8s_ingress'') s) s1"
      then obtain new where "elements (mgr s') = elements (mgr s) @ new"
        "\<forall>e \<in> set new. ac_kind e = ''Mapping''"
        using 2(2) by (auto simp: grown_def)
      moreover have "ac_kind h \<noteq> ''Host''" if "ac_kind h = ''Mapping''" for h :: ac
        using that by simp
      ultimately show ?thesis by (intro exI [of _ new]) blast
    qed
  qed simp
qed

definition demo_ingress :: kobj where
  "demo_ingress = \<lparr>raw = [(''spec'', PDict [(''tls'', PList [PDict [(''secretName'', PStr ''s'')]]),
       (''defaultBackend'', PDict [(''serviceName'', PStr ''svc''), (''servicePort'', PInt 80)])])],
     ko_gvk = \<lparr>api_version = ''networking.k8s.io/v1'', gvk_kind = ''Ingress''\<rparr>,
     ko_metadata = [(''namespace'', PStr ''n''),
       (''annotations'', PDict [(''kubernetes.io/ingress.class'', PStr ''ambassador'')])], ko_name = ''i''\<rparr>"

theorem ingress_hosts_select_mappings_witness:
  "\<exists>s' h m. ingress_process demo_settings (\<lambda>_. []) demo_ingress (fstate_init config_init) = Inr s' \<and>
     elements (mgr s') = [h, m] \<and> ac_kind h = ''Host'' \<and> ac_kind m = ''Mapping'' \<and>
     selector_matches (\<lambda>_. None) (selector_of h) (labels_of m)"
proof -
  let ?r = "ingress_process demo_settings (\<lambda>_. []) demo_ingress (fstate_init config_init)"
  have "map_sum (\<lambda>_. ()) (\<lambda>s. map ac_kind (elements (mgr s))) ?r = Inr [''Host'', ''Mapping'']"
    by code_simp
  then obtain s' where s': "?r = Inr s'" "map ac_kind (elements (mgr s')) = [''Host'', ''Mapping'']"
    by (cases ?r) auto
  then obtain h m where hm: "elements (mgr s') = [h, m]" "ac_kind h = ''Host''" "ac_kind m = ''Mapping''"
    by (auto simp: map_eq_Cons_conv)
  have "elements (mgr (fstate_init config_init)) = []" by (simp add: fstate_init_def rmanager_init_def)
  with ingress_hosts_select_mappings [OF s'(1), of "\<lambda>_. None"] hm s'(1) show ?thesis by auto
qed

end
