(* ===== verification/Fetcher.thy ===== *)
theory Fetcher
  imports IngressProc DepGraph
begin

text \<open>
  The resource fetcher, \<open>fetch/fetcher.py\<close>: the composite processor it builds, and how it takes
  apart YAML documents and Watt snapshots. The state \<open>fetcher\<close> extends the state of the
  processors. What the operating system and the parsers give is an argument: \<open>load_yaml\<close> (the
  documents of a text, or the message of a \<open>YAMLError\<close>), the parsed snapshot (or the message of a
  \<open>JSONDecodeError\<close>), which marker files exist, and the lines of the pod label file. The walk over
  the configuration directory is left out.

  The lemmas: an object whose key was seen is skipped, so that a sequence of objects is processed
  like its first objects of each key; invalid objects reach the list of their kind; each key of a
  snapshot is visited once, the keys of the dependencies first.
\<close>

record fetcher =
  fs :: fstate
  alerted_about_labels :: bool
  deltas :: pyval
  f_invalid :: "pyval list"

record env =
  sett :: settings
  dump_yaml :: "pyval \<Rightarrow> string"
  timeout_ms :: "pyval \<Rightarrow> int res"
  utcnow :: string
  watch_only :: bool

section \<open>Construction\<close>

definition fetcher_deps :: "(nat, string) manager" where
  "fetcher_deps =
     (let m0 = manager_init [(''ServiceDependency'', ''service''), (''SecretDependency'', ''secret''),
                 (''IngressClassesDependency'', ''ingressclasses'')];
          m1 = fst (provide 0 ''SecretDependency'' m0);
          m2 = fst (provide 1 ''IngressClassesDependency'' m1);
          m3 = fst (want 2 ''SecretDependency'' m2);
          m4 = fst (want 2 ''ServiceDependency'' m3);
          m5 = fst (want 2 ''IngressClassesDependency'' m4);
          m6 = fst (want 3 ''ServiceDependency'' m5);
          m7 = fst (provide 4 ''ServiceDependency'' m6)
      in fst (want 5 ''ServiceDependency'' m7))"

definition k8s_delegate :: "env \<Rightarrow> processor" where
  "k8s_delegate e =
     aggregate (sett e)
       [counting (sett e) (for_knative_networking ''Ingress'') ''knative_ingress'',
        ambassador_processor (sett e) (dump_yaml e),
        secret_processor (sett e) (dump_yaml e),
        ingress_class_processor (sett e),
        ingress_processor (sett e) (dump_yaml e),
        service_processor (sett e),
        knative_ingress_processor (sett e) (dump_yaml e) (timeout_ms e) (utcnow e)]"

definition k8s_processor :: "env \<Rightarrow> processor" where
  "k8s_processor e = deduplicating (sett e) (k8s_delegate e)"

definition fetcher_init :: "config \<Rightarrow> fetcher" where
  "fetcher_init c = \<lparr>fs = fstate_init c, alerted_about_labels = False, deltas = PList [], f_invalid = []\<rparr>"

definition fpost_error :: "env \<Rightarrow> string \<Rightarrow> fstate \<Rightarrow> fstate" where
  "fpost_error e msg s = upd_aconf (post_error_string (sett e) msg NoResource None) s"

definition finalize :: "env \<Rightarrow> fstate \<Rightarrow> fstate res" where
  "finalize e s = service_finalize (sett e) (dump_yaml e) (watch_only e) s"

section \<open>Objects\<close>

definition upd_locations :: "(loc_manager \<Rightarrow> loc_manager) \<Rightarrow> fstate \<Rightarrow> fstate" where
  "upd_locations f s = s\<lparr>mgr := (mgr s)\<lparr>locations := f (locations (mgr s))\<rparr>\<rparr>"

definition fpop :: "fstate \<Rightarrow> fstate res" where
  "fpop s = rbind (pop (locations (mgr s))) (\<lambda>(_, m). Inr (upd_locations (\<lambda>_. m) s))"

definition with_push :: "(loc_manager \<Rightarrow> loc_manager) \<Rightarrow> (fstate \<Rightarrow> fstate res) \<Rightarrow> fstate \<Rightarrow> fstate res" where
  "with_push p body s = rbind (body (upd_locations p s)) fpop"

definition kobject_of :: "pyval \<Rightarrow> kobj option res" where
  "kobject_of raw_obj =
     (case raw_obj of
        PDict d \<Rightarrow> (case kobject_init d of
            Inr ob \<Rightarrow> Inr (Some ob)
          | Inl (ValueError _) \<Rightarrow> Inr None
          | Inl x \<Rightarrow> Inl x)
      | _ \<Rightarrow> Inl (TypeError ''not a dictionary''))"

definition handle_k8s :: "env \<Rightarrow> pyval \<Rightarrow> fstate \<Rightarrow> fstate res" where
  "handle_k8s e raw_obj s =
     rbind (kobject_of raw_obj) (\<lambda>x.
       case x of None \<Rightarrow> Inr s | Some ob \<Rightarrow> proc_step (k8s_processor e) ob s)"

definition handle_annotation :: "env \<Rightarrow> string \<Rightarrow> pyval \<Rightarrow> fstate \<Rightarrow> fstate res" where
  "handle_annotation e parent_key raw_obj s =
     rbind (kobject_of raw_obj) (\<lambda>x.
       case x of
         None \<Rightarrow> Inr s
       | Some ob \<Rightarrow>
           (let (f, m) = mark_annotated (locations (mgr s)) in
            case split_slash parent_key of
              [_, rkey] \<Rightarrow>
                rbind (emit_res (sett e) (dump_yaml e) (from_kubernetes_object (sett e) ob (Some rkey))
                         (upd_locations (\<lambda>_. m) s))
                  (\<lambda>s1. Inr (upd_locations (clean_annotated f) s1))
            | _ \<Rightarrow> Inl IndexError))"

definition consul_endpoint :: "pyval \<Rightarrow> pyval list \<Rightarrow> pyval list res" where
  "consul_endpoint ep acc =
     rbind (pv_get ep ''Address'' PNone) (\<lambda>ep_addr.
     rbind (pv_get ep ''Port'' PNone) (\<lambda>ep_port.
       if \<not> truthy ep_addr \<or> \<not> truthy ep_port
       then rbind (pv_index ep ''ID'') (\<lambda>_. Inr acc)
       else Inr (acc @ [PDict [(''ip'', ep_addr), (''port'', ep_port), (''target_kind'', PStr ''Consul'')]])))"

definition handle_consul_service :: "env \<Rightarrow> string \<times> pyval \<Rightarrow> fstate \<Rightarrow> fstate res" where
  "handle_consul_service e svc s =
     rbind (pv_get (snd svc) ''Endpoints'' (PList [])) (\<lambda>ev.
     rbind (pv_get (snd svc) ''Service'' (PStr (fst svc))) (\<lambda>name.
     rbind (pv_len ev) (\<lambda>n.
       if n < 1 then Inr s
       else
         rbind (pv_iter ev) (\<lambda>endpoints.
         rbind (rfold consul_endpoint endpoints []) (\<lambda>svc_eps.
         rbind (pv_get (snd svc) ''Id'' PNone) (\<lambda>i.
         rbind (pv_str name) (\<lambda>nm.
           let datacenter = por i (PStr ''dc1'');
               normalized_endpoints = (if svc_eps = [] then [] else [(''*'', PList svc_eps)])
           in emit_res (sett e) (dump_yaml e)
                (from_data ''Service'' nm None PNone ''v3alpha1'' (Some ''getambassador.io'') PNone
                   (PDict [(''ambassador_id'', PStr (ambassador_id (sett e))), (''datacenter'', datacenter),
                      (''endpoints'', PDict normalized_endpoints)])
                   PNone (Some (''consul-'' @ nm @ ''-'' @ pv_fmt datacenter))) s)))))))"

section \<open>YAML\<close>

definition yaml_object :: "env \<Rightarrow> bool \<Rightarrow> string option \<Rightarrow> pyval \<Rightarrow> fstate \<Rightarrow> fstate res" where
  "yaml_object e k8s rkey obj s =
     (if k8s then with_push push_reset (handle_k8s e obj) s
      else emit_res (sett e) (dump_yaml e) (Inr \<lparr>nr_object = obj, nr_rkey = rkey\<rparr>) s)"

definition parse_yaml ::
  "env \<Rightarrow> (string \<Rightarrow> string + pyval list) \<Rightarrow> string \<Rightarrow> bool \<Rightarrow> string option \<Rightarrow> string option \<Rightarrow> bool \<Rightarrow>
   fstate \<Rightarrow> fstate res" where
  "parse_yaml e load_yaml serialization k8s rkey file fin s =
     (let f = (if file = None \<or> file = Some [] then filename (current (locations (mgr s))) else file)
      in rbind (with_push (push f 1) (\<lambda>s1.
           case load_yaml serialization of
             Inl err \<Rightarrow> Inr (fpost_error e
                (location_str (current (locations (mgr s1))) @ '': could not parse YAML: '' @ err) s1)
           | Inr docs \<Rightarrow> rfold (yaml_object e k8s rkey) docs s1) s)
         (\<lambda>s2. if fin then finalize e s2 else Inr s2))"

section \<open>Pod labels\<close>

definition label_char :: "char \<Rightarrow> bool" where
  "label_char c \<longleftrightarrow> (CHR ''a'' \<le> c \<and> c \<le> CHR ''z'') \<or> (CHR ''A'' \<le> c \<and> c \<le> CHR ''Z'') \<or> is_digit c \<or>
     c \<in> set ''-_./''"

text \<open>
  A match of the label expression at the beginning of a text: a maximal run of label characters,
  an equals sign, and what stands between the next quote and the last quote of the line, which
  must not be empty.
\<close>

definition label_at :: "string \<Rightarrow> (string \<times> string) option" where
  "label_at s =
     (let k = takeWhile label_char s in
      case dropWhile label_char s of
        a # b # t \<Rightarrow>
          (let line = takeWhile (\<lambda>c. c \<noteq> CHR 10) t;
               v = rev (tl (dropWhile (\<lambda>c. c \<noteq> CHR 34) (rev line)))
           in if k \<noteq> [] \<and> a = CHR ''='' \<and> b = CHR 34 \<and> v \<noteq> [] then Some (k, v) else None)
      | _ \<Rightarrow> None)"

fun find_label :: "string \<Rightarrow> (string \<times> string) option" where
  "find_label [] = None"
| "find_label (c # s) = (case label_at (c # s) of Some kv \<Rightarrow> Some kv | None \<Rightarrow> find_label s)"

definition pod_label :: "string \<Rightarrow> config \<Rightarrow> config" where
  "pod_label line c =
     (case find_label line of
        None \<Rightarrow> post_notice (''Dropping pod label '' @ line) NoResource c
      | Some (k, v) \<Rightarrow> c\<lparr>pod_labels := dset k v (pod_labels c)\<rparr>)"

definition load_pod_labels :: "env \<Rightarrow> string list option \<Rightarrow> fetcher \<Rightarrow> fetcher" where
  "load_pod_labels e labels_file f =
     (case labels_file of
        None \<Rightarrow>
          if \<not> alerted_about_labels f
          then f\<lparr>fs := fpost_error e ''Pod labels are not mounted in the Ambassador container; Kubernetes Ingress support is likely to be limited'' (fs f),
                 alerted_about_labels := True\<rparr>
          else f
      | Some lines \<Rightarrow> f\<lparr>fs := upd_aconf (fold pod_label lines) (fs f)\<rparr>)"

section \<open>Watt snapshots\<close>

definition fold_invalid :: "pyval \<Rightarrow> pyval pydict \<Rightarrow> pyval pydict res" where
  "fold_invalid obj watt_k8s =
     rbind (pv_get obj ''kind'' PNone) (\<lambda>kv.
       if \<not> truthy kv then Inr watt_k8s
       else rbind (pv_str kv) (\<lambda>kind.
         case pget watt_k8s kind of
           PList watt_list \<Rightarrow> Inr (dset kind (PList (watt_list @ [obj])) watt_k8s)
         | v \<Rightarrow> if truthy v then Inl (AttributeError ''append'')
                else Inr (dset kind (PList [obj]) watt_k8s)))"

definition fromkeys :: "string list \<Rightarrow> string list" where
  "fromkeys ks = rev (remdups (rev ks))"

definition watt_order :: "pyval pydict \<Rightarrow> string list res" where
  "watt_order watt_k8s = rbind (sorted_watt_keys fetcher_deps) (\<lambda>ks. Inr (fromkeys (ks @ map fst watt_k8s)))"

definition ann_parent_key :: "pyval pydict \<Rightarrow> string res" where
  "ann_parent_key obj =
     rbind (pv_index (PDict obj) ''kind'') (\<lambda>kind.
     rbind (pv_index (PDict obj) ''metadata'') (\<lambda>md.
     rbind (pv_index md ''name'') (\<lambda>name.
     rbind (pv_get md ''namespace'' PNone) (\<lambda>ns.
       Inr (pv_fmt kind @ ''/'' @ pv_fmt name @ ''.'' @ pv_fmt ns)))))"

definition watt_object :: "env \<Rightarrow> pyval \<Rightarrow> pyval \<Rightarrow> fstate \<Rightarrow> fstate res" where
  "watt_object e annotations obj s =
     with_push push_reset (\<lambda>s0.
       rbind (handle_k8s e obj s0) (\<lambda>s1.
         case obj of
           PDict d \<Rightarrow>
             if dhas d ''errors'' then Inr s1
             else
               rbind (ann_parent_key d) (\<lambda>parent.
               rbind (pv_get annotations parent PNone) (\<lambda>av.
               rbind (pv_iter (por av (PList []))) (\<lambda>anns.
                 rfold (handle_annotation e parent) anns s1)))
         | _ \<Rightarrow> Inl (TypeError ''not a dictionary''))) s"

definition watt_key :: "env \<Rightarrow> pyval pydict \<Rightarrow> pyval \<Rightarrow> string \<Rightarrow> fstate \<Rightarrow> fstate res" where
  "watt_key e watt_k8s annotations key s =
     rbind (pv_iter (por (pget watt_k8s key) (PList []))) (\<lambda>xs.
       rfold (watt_object e annotations) xs s)"

definition watt_snapshot :: "env \<Rightarrow> pyval \<Rightarrow> fetcher \<Rightarrow> fetcher res" where
  "watt_snapshot e watt_dict f =
     rbind (pv_get watt_dict ''Deltas'' PNone) (\<lambda>dv.
     rbind (pv_get watt_dict ''Kubernetes'' (PDict [])) (\<lambda>kv.
     rbind (pv_get watt_dict ''Invalid'' PNone) (\<lambda>iv.
     rbind (pv_iter (por iv (PList []))) (\<lambda>inval.
     rbind (pv_items kv) (\<lambda>watt_k8s.
     rbind (rfold fold_invalid inval watt_k8s) (\<lambda>folded.
     let annotations = dget_or folded ''annotations'' (PDict []);
         objects = ddel ''annotations'' folded
     in rbind (watt_order objects) (\<lambda>keys.
        rbind (rfold (watt_key e objects annotations) keys (fs f)) (\<lambda>s1.
        rbind (pv_get watt_dict ''Consul'' (PDict [])) (\<lambda>consul.
        rbind (pv_get consul ''Endpoints'' (PDict [])) (\<lambda>ev.
        rbind (pv_items ev) (\<lambda>consul_endpoints.
        rbind (rfold (handle_consul_service e) consul_endpoints s1) (\<lambda>s2.
          Inr (f\<lparr>fs := s2, deltas := por dv (PList []), f_invalid := inval\<rparr>)))))))))))))"

definition ignore_notices :: "(string \<times> string) list" where
  "ignore_notices =
     [(''.ambassador_ignore_crds'', ''Ambassador could not find core CRD definitions. Please visit https://www.getambassador.io/docs/edge-stack/latest/topics/install/upgrade-to-edge-stack/#5-update-and-restart for more information. You can continue using Ambassador via Kubernetes annotations, any configuration via CRDs will be ignored...''),
      (''.ambassador_ignore_crds_2'', ''Ambassador could not find Resolver type CRD definitions. Please visit https://www.getambassador.io/docs/edge-stack/latest/topics/install/upgrade-to-edge-stack/#5-update-and-restart for more information. You can continue using Ambassador, but ConsulResolver, KubernetesEndpointResolver, and KubernetesServiceResolver resources will be ignored...''),
      (''.ambassador_ignore_crds_3'', ''Ambassador could not find the Host CRD definition. Please visit https://www.getambassador.io/docs/edge-stack/latest/topics/install/upgrade-to-edge-stack/#5-update-and-restart for more information. You can continue using Ambassador, but Host resources will be ignored...''),
      (''.ambassador_ignore_crds_4'', ''Ambassador could not find the LogService CRD definition. Please visit https://www.getambassador.io/docs/edge-stack/latest/topics/install/upgrade-to-edge-stack/#5-update-and-restart for more information. You can continue using Ambassador, but LogService resources will be ignored...''),
      (''.ambassador_ignore_crds_5'', ''Ambassador could not find the DevPortal CRD definition. Please visit https://www.getambassador.io/docs/edge-stack/latest/topics/install/upgrade-to-edge-stack/#5-update-and-restart for more information. You can continue using Ambassador, but DevPortal resources will be ignored...''),
      (''.ambassador_ignore_ingress'', ''Ambassador is not permitted to read Ingress resources. Please visit https://www.getambassador.io/docs/edge-stack/latest/topics/running/ingress-controller/#ambassador-as-an-ingress-controller for more information. You can continue using Ambassador, but Ingress resources will be ignored...'')]"

definition parse_watt ::
  "env \<Rightarrow> (string \<Rightarrow> bool) \<Rightarrow> string list option \<Rightarrow> string + pyval \<Rightarrow> bool \<Rightarrow> fetcher \<Rightarrow> fetcher res" where
  "parse_watt e isfile labels_file parsed fin f =
     (let f1 = f\<lparr>fs := fold (\<lambda>(file, msg) s. if isfile file then fpost_error e msg s else s)
                 ignore_notices (fs f)\<rparr>;
          f2 = load_pod_labels e labels_file f1
      in rbind (case parsed of
             Inl err \<Rightarrow> Inr (f2\<lparr>fs := fpost_error e
                (location_str (current (locations (mgr (fs f2)))) @ '': could not parse WATT: '' @ err) (fs f2)\<rparr>)
           | Inr watt_dict \<Rightarrow> watt_snapshot e watt_dict f2)
         (\<lambda>f3. if fin then rbind (finalize e (fs f3)) (\<lambda>s. Inr (f3\<lparr>fs := s\<rparr>)) else Inr f3))"

definition sorted_elements :: "fetcher \<Rightarrow> ac list" where
  "sorted_elements f = sort_key ac_rkey (elements (mgr (fs f)))"

section \<open>The composite processor\<close>

lemma k8s_delegate_keeps_seen: "run (k8s_delegate e) ob s = Inr s' \<Longrightarrow> seen s' = seen s"
  unfolding k8s_delegate_def
  by (rule aggregate_keeps_seen [rotated])
    (auto intro: counting_keeps_seen ambassador_keeps_seen secret_keeps_seen ingress_class_keeps_seen
      ingress_keeps_seen service_keeps_seen knative_keeps_seen)

interpretation kd: delegate "k8s_delegate e" for e
  by unfold_locales (rule k8s_delegate_keeps_seen)

section \<open>Snapshots\<close>

definition of_kind :: "string \<Rightarrow> pyval list \<Rightarrow> pyval list" where
  "of_kind kind xs = filter (\<lambda>x. case x of PDict d \<Rightarrow> pget d ''kind'' = PStr kind | _ \<Rightarrow> False) xs"

definition old_list :: "pyval \<Rightarrow> pyval list" where
  "old_list v = (case v of PList xs \<Rightarrow> xs | _ \<Rightarrow> [])"

lemma fold_invalid_step:
  assumes "fold_invalid x k = Inr k'" and "kind \<noteq> []"
  shows "pget k' kind = (if of_kind kind [x] = [] then pget k kind
    else PList (old_list (pget k kind) @ [x]))"
proof -
  obtain d where x: "x = PDict d" using assms(1) by (auto simp: fold_invalid_def res_simps)
  have kv: "dget_or d ''kind'' PNone = pget d ''kind''" by (simp add: pget_def)
  show ?thesis
  proof (cases "truthy (pget d ''kind'')")
    case False
    with assms have "k' = k" by (simp add: fold_invalid_def x kv)
    moreover have "pget d ''kind'' \<noteq> PStr kind" using False assms(2) by auto
    ultimately show ?thesis by (simp add: of_kind_def x)
  next
    case True
    from assms(1) True obtain q where q: "pget d ''kind'' = PStr q"
      by (cases "pget d ''kind''") (simp_all add: fold_invalid_def x kv)
    have "k' = dset q (PList (old_list (pget k q) @ [x])) k"
      using assms(1) True q
      by (cases "pget k q") (simp_all add: fold_invalid_def x kv old_list_def split: if_splits)
    then show ?thesis using q by (simp add: of_kind_def x)
  qed
qed

lemma of_kind_Cons: "of_kind kind (x # xs) = of_kind kind [x] @ of_kind kind xs"
  by (simp add: of_kind_def)

lemma of_kind_single: "of_kind kind [x] = [] \<or> of_kind kind [x] = [x]"
  by (auto simp: of_kind_def)

lemma fold_invalid_all:
  assumes "rfold fold_invalid xs k = Inr k'" and "kind \<noteq> []"
  shows "pget k' kind = (if of_kind kind xs = [] then pget k kind
    else PList (old_list (pget k kind) @ of_kind kind xs))"
  using assms
proof (induction xs arbitrary: k)
  case (Cons x xs)
  then obtain k1 where k1: "fold_invalid x k = Inr k1" "rfold fold_invalid xs k1 = Inr k'"
    by (auto simp: res_simps)
  from fold_invalid_step [OF k1(1) Cons.prems(2)] Cons.IH [OF k1(2) Cons.prems(2)]
  show ?case
    using of_kind_single [of kind x] by (auto simp: of_kind_Cons [of kind x xs] old_list_def)
qed (simp add: of_kind_def)

lemma fromkeys_distinct: "distinct (fromkeys ks)" "set (fromkeys ks) = set ks"
  by (simp_all add: fromkeys_def)

lemma remdups_append_distinct:
  "distinct ys \<Longrightarrow> remdups (xs @ ys) = filter (\<lambda>x. x \<notin> set ys) (remdups xs) @ ys"
  by (induction xs) (auto simp: distinct_remdups_id)

lemma fromkeys_append:
  assumes "distinct xs" and "distinct ys"
  shows "fromkeys (xs @ ys) = xs @ filter (\<lambda>y. y \<notin> set xs) ys"
  using assms by (simp add: fromkeys_def remdups_append_distinct rev_filter distinct_remdups_id)

lemma fetcher_watt_keys: "sorted_watt_keys fetcher_deps = Inr [''secret'', ''ingressclasses'', ''service'']"
  by code_simp

lemma kobject_of_Inr: "kobject_init d = Inr ob \<Longrightarrow> kobject_of (PDict d) = Inr (Some ob)"
  by (simp add: kobject_of_def)

section \<open>Properties\<close>

text \<open>
  C2: deduplication is exact. Whatever objects the fetcher is given, in whatever order and with
  whatever repetitions, it does what the processors behind it do on the first object of each
  key, and hands no key to them twice.
\<close>

theorem fetcher_handles_first_of_key:
  "rfold (proc_step (k8s_processor e)) obs s =
     rfold (mark_and_step (sett e) (k8s_delegate e))
       (first_of_key (sett e) (k8s_delegate e) (seen s) obs) s \<and>
   distinct (map (ko_key (sett e)) (first_of_key (sett e) (k8s_delegate e) (seen s) obs))"
  unfolding k8s_processor_def using kd.dedup_run keys_first_of_key by blast

text \<open>
  C40: the admission rule of the Secret processor has no effect. In single-namespace mode without
  the restriction of certificates to that namespace it admits a Secret of another namespace, but
  the composite processor, whose parts apply the default rule first, ignores the object.
\<close>

theorem secret_admission_has_no_effect:
  assumes "single_namespace (sett e)" and "\<not> certs_single_namespace (sett e)"
    and "ko_namespace (sett e) ob = Inr ns" and "ns \<noteq> ambassador_namespace (sett e)"
  shows "admit (secret_processor (sett e) (dump_yaml e)) ob \<and> proc_step (k8s_processor e) ob s = Inr s"
  using assms
  by (simp add: secret_processor_def k8s_processor_def deduplicating_def proc_step_def try_process_def
      default_admit_def ko_key_def)

definition demo_env :: env where
  "demo_env = \<lparr>sett = demo_settings\<lparr>single_namespace := True\<rparr>, dump_yaml = (\<lambda>_. []),
     timeout_ms = (\<lambda>_. Inr 15000), utcnow = ''now'', watch_only = False\<rparr>"

theorem secret_admission_has_no_effect_witness:
  "\<exists>ob. kobject_init [(''apiVersion'', PStr ''v1''), (''kind'', PStr ''Secret''),
       (''metadata'', PDict [(''name'', PStr ''s''), (''namespace'', PStr ''other'')])] = Inr ob \<and>
     ko_gvk ob \<in> set (kinds (k8s_processor demo_env)) \<and>
     proc_step (k8s_processor demo_env) ob (fstate_init config_init) = Inr (fstate_init config_init)"
proof -
  let ?ob = "\<lparr>raw = [(''apiVersion'', PStr ''v1''), (''kind'', PStr ''Secret''),
       (''metadata'', PDict [(''name'', PStr ''s''), (''namespace'', PStr ''other'')])],
     ko_gvk = \<lparr>api_version = ''v1'', gvk_kind = ''Secret''\<rparr>,
     ko_metadata = [(''name'', PStr ''s''), (''namespace'', PStr ''other'')], ko_name = ''s''\<rparr>"
  have "kobject_init [(''apiVersion'', PStr ''v1''), (''kind'', PStr ''Secret''),
       (''metadata'', PDict [(''name'', PStr ''s''), (''namespace'', PStr ''other'')])] = Inr ?ob"
    by (simp add: kobject_init_def key_error_to_value_error_def)
  moreover have "ko_gvk ?ob \<in> set (kinds (k8s_processor demo_env))"
    by (simp add: k8s_processor_def deduplicating_def k8s_delegate_def aggregate_def secret_processor_def)
  moreover have "proc_step (k8s_processor demo_env) ?ob (fstate_init config_init) = Inr (fstate_init config_init)"
    using secret_admission_has_no_effect [of demo_env ?ob "''other''" "fstate_init config_init"]
    by (simp add: demo_env_def demo_settings_def ko_namespace_def pget_def dget_or_def)
  ultimately show ?thesis by blast
qed

text \<open>
  Folding the invalid objects of a snapshot into its Kubernetes objects loses nothing: the
  list of each kind is what it was followed by the invalid objects of that kind in their order.
\<close>

theorem invalid_objects_reach_their_kind:
  assumes "rfold fold_invalid inval k = Inr k'" and "kind \<noteq> []"
  shows "pget k' kind = (if of_kind kind inval = [] then pget k kind
    else PList (old_list (pget k kind) @ of_kind kind inval))"
  using assms by (rule fold_invalid_all)

theorem invalid_objects_reach_their_kind_witness:
  "\<exists>k'. rfold fold_invalid [PDict [(''kind'', PStr ''Host''), (''errors'', PStr ''bad'')]]
       [(''Host'', PList [PNone])] = Inr k' \<and>
     pget k' ''Host'' = PList [PNone, PDict [(''kind'', PStr ''Host''), (''errors'', PStr ''bad'')]]"
proof -
  let ?x = "PDict [(''kind'', PStr ''Host''), (''errors'', PStr ''bad'')]"
  obtain k' where k': "rfold fold_invalid [?x] [(''Host'', PList [PNone])] = Inr k'"
    by (simp add: fold_invalid_def pget_def dget_or_def)
  show ?thesis
    using invalid_objects_reach_their_kind [OF k', of "''Host''"] k'
    by (simp add: of_kind_def old_list_def pget_def dget_or_def)
qed

text \<open>
  The keys of a snapshot are visited in an order in which Secrets, ingress classes and
  Services come first, and each other key follows once in the order of the snapshot.
\<close>

theorem watt_order_dependencies_first:
  assumes "dwf watt_k8s"
  shows "watt_order watt_k8s = Inr ([''secret'', ''ingressclasses'', ''service''] @
    filter (\<lambda>k. k \<notin> {''secret'', ''ingressclasses'', ''service''}) (map fst watt_k8s))"
  using assms by (simp add: watt_order_def fetcher_watt_keys fromkeys_append [of "[_, _, _]", simplified] dwf_def)

theorem watt_order_dependencies_first_witness:
  "watt_order [(''ingresses'', PList []), (''service'', PList [])] =
     Inr [''secret'', ''ingressclasses'', ''service'', ''ingresses'']"
  using watt_order_dependencies_first [of "[(''ingresses'', PList []), (''service'', PList [])]"]
  by (simp add: dwf_def)

text \<open>
  An object without a name is skipped by the handler of Kubernetes objects, as its comment
  says, but the snapshot loop then reads the name for the annotations and raises \<open>KeyError\<close>.
\<close>

theorem unnamed_object_raises:
  assumes "dhas d ''apiVersion''" "dget d ''kind'' = Some k" "dget d ''metadata'' = Some (PDict md)"
    and "\<not> dhas md ''name''" and "\<not> dhas d ''errors''"
  shows "handle_k8s e (PDict d) s = Inr s \<and> watt_object e annotations (PDict d) s = Inl (KeyError ''name'')"
proof -
  obtain a where a: "dget d ''apiVersion'' = Some a" using assms(1) by (rule dhasE)
  have "handle_k8s e (PDict d) s = Inr s" for s
    using assms(2-4) a
    by (simp add: handle_k8s_def kobject_of_def kobject_init_def key_error_to_value_error_def not_dhas)
  moreover have "ann_parent_key d = Inl (KeyError ''name'')"
    using assms(2-4) by (simp add: ann_parent_key_def not_dhas)
  ultimately show ?thesis using assms(5) by (simp add: watt_object_def with_push_def)
qed

theorem unnamed_object_raises_witness:
  "map_sum (\<lambda>x. x) (\<lambda>_. ()) (watt_object demo_env (PDict [])
     (PDict [(''apiVersion'', PStr ''v1''), (''kind'', PStr ''Secret''), (''metadata'', PDict [])])
     (fstate_init config_init)) = Inl (KeyError ''name'')"
  using unnamed_object_raises [of "[(''apiVersion'', PStr ''v1''), (''kind'', PStr ''Secret''),
      (''metadata'', PDict [])]" "PStr ''Secret''" "[]" demo_env "fstate_init config_init" "PDict []"]
  by simp

end
