(* ===== verification/IRRes.thy ===== *)
theory IRRes
  imports ConfigStore PyText Cache
begin

text \<open>
  Resources of the intermediate representation, \<open>ir/irresource.py\<close>, the kinds of resources the
  development models (listeners, mappings, mapping groups) as extensions of that record, and the
  state \<open>ir\<close> of class \<open>IR\<close> of \<open>ir/ir.py\<close> with its stores. A resource is a dictionary in the code;
  the entries that have a meaning of their own are fields and the others are \<open>ir_attrs\<close>.
  \<open>ambassador_module\<close> is the dictionary of the Ambassador module.
\<close>

section \<open>Resources\<close>

record irres =
  ir_rkey :: string
  ir_location :: string
  ir_kind :: string
  ir_name :: string
  ir_namespace :: string
  ir_labels :: pyval
  ir_active :: bool
  ir_errored :: bool
  ir_cache_key :: "string option"
  ir_attrs :: "pyval pydict"

record listener = irres +
  bind_address :: pyval
  l_port :: pyval
  protocol :: pyval
  protocolStack :: pyval
  securityModel :: pyval
  statsPrefix :: pyval
  hostBinding :: pyval
  socket_protocol :: string
  http3_enabled :: bool
  namespace_literal :: string
  host_selector :: pyval

record mapping = irres +
  m_class :: string
  m_weight :: int
  m_cluster_key :: "string option"
  m_route_weight :: "pyval list"
  cached_status :: pyval

record mgroup = irres +
  mappings :: "nat list"
  group_weight :: "pyval list"
  host_redirect :: "nat option"
  shadows :: "nat list"

text \<open>
  Mappings and groups are shared between the IR and the cache and change while they are shared,
  so they live in the heaps \<open>maps\<close> and \<open>grps\<close>; groups, the table of groups and the cache hold
  references to them.
\<close>

datatype ref = MRef nat | GRef nat

record secret_info =
  si_name :: string
  si_namespace :: "string option"
  si_type :: pyval
  si_tls_crt :: "string option"
  si_tls_key :: "string option"
  si_user_key :: "string option"
  si_root_crt :: "string option"

record saved_secret =
  ss_secret_name :: string
  ss_namespace :: string
  cert_path :: "string option"
  key_path :: "string option"
  user_path :: "string option"
  root_cert_path :: "string option"
  cert_data :: "string option pydict option"

record ir =
  ir_settings :: settings
  envoy_bind_address :: string
  ir_aconf :: config
  use_cache :: bool
  ir_cache :: "(ref, unit) cache_st"
  invalidate_groups_for :: "string list"
  maps :: "mapping list"
  grps :: "mgroup list"
  ambassador_module :: "pyval pydict"
  saved_resources :: "irres pydict"
  hosts :: "irres pydict"
  listeners :: "listener pydict"
  tls_contexts :: "irres pydict"
  redirect_cleartext_from :: pyval
  resolvers :: "irres pydict"
  clusters :: "irres pydict"
  grpc_services :: "irres pydict"
  filters :: "irres list"
  groups :: "nat pydict"
  secret_infos :: "secret_info pydict"
  saved_secrets :: "saved_secret pydict"
  disk :: "string pydict"

definition rget :: "'a irres_scheme \<Rightarrow> string \<Rightarrow> pyval" where
  "rget r k = pget (ir_attrs r) k"

definition res_cache_key :: "'a irres_scheme \<Rightarrow> string res" where
  "res_cache_key r = (case ir_cache_key r of None \<Rightarrow> Inl (AssertionError ''_cache_key'') | Some k \<Rightarrow> Inr k)"

definition set_active :: "bool \<Rightarrow> 'a irres_scheme \<Rightarrow> 'a irres_scheme" where
  "set_active b r = r\<lparr>ir_active := b\<rparr>"

definition is_active :: "'a irres_scheme \<Rightarrow> bool" where
  "is_active r = ir_active r"

definition ir_bool :: "'a irres_scheme \<Rightarrow> bool" where
  "ir_bool r \<longleftrightarrow> ir_active r \<and> \<not> ir_errored r"

section \<open>Defaults\<close>

definition key_in :: "string \<Rightarrow> pyval \<Rightarrow> pyval option res" where
  "key_in k v =
     (case v of
        PDict d \<Rightarrow> Inr (dget d k)
      | _ \<Rightarrow> if truthy v then Inl (TypeError ''not a dictionary'') else Inr None)"

definition lookup_default ::
  "pyval pydict \<Rightarrow> 'a irres_scheme \<Rightarrow> string \<Rightarrow> pyval \<Rightarrow> string option \<Rightarrow> pyval res" where
  "lookup_default amod r key default_value lookup_class =
     (let defaults = dget_or amod ''defaults'' (PDict []);
          lclass = (if lookup_class = None \<or> lookup_class = Some [] then rget r ''default_class''
                    else PStr (the lookup_class))
      in rbind (if truthy lclass \<and> lclass \<noteq> PStr ''/''
                then rbind (pv_str lclass) (\<lambda>c. rbind (pv_get defaults c PNone) (key_in key))
                else Inr None) (\<lambda>found.
         case found of
           Some v \<Rightarrow> Inr v
         | None \<Rightarrow> rbind (key_in key defaults) (\<lambda>v. Inr (case v of Some x \<Rightarrow> x | None \<Rightarrow> default_value))))"

definition lookup ::
  "pyval pydict \<Rightarrow> 'a irres_scheme \<Rightarrow> string \<Rightarrow> pyval \<Rightarrow> string option \<Rightarrow> string option \<Rightarrow> pyval res" where
  "lookup amod r key default_value dclass dkey =
     (if rget r key \<noteq> PNone then Inr (rget r key)
      else lookup_default amod r (if dkey = None \<or> dkey = Some [] then key else the dkey)
             default_value dclass)"

section \<open>Errors and the state\<close>

definition ir_post_error :: "string \<Rightarrow> rsrc \<Rightarrow> ir \<Rightarrow> ir" where
  "ir_post_error msg rsc i = i\<lparr>ir_aconf := post_error_string (ir_settings i) msg rsc None (ir_aconf i)\<rparr>"

definition res_post_error :: "string \<Rightarrow> 'a irres_scheme \<times> ir \<Rightarrow> 'a irres_scheme \<times> ir" where
  "res_post_error msg ri =
     (let (r, i) = ri in (r\<lparr>ir_errored := True\<rparr>, ir_post_error msg (Other (ir_rkey r)) i))"

definition skip_key :: "string \<Rightarrow> bool" where
  "skip_key k \<longleftrightarrow> startswith k ''__'' \<or> startswith k ''_IRResource__'' \<or> k \<in> {''apiVersion'', ''logger'', ''ir''}"

definition normalize_service :: "string \<Rightarrow> string" where
  "normalize_service service =
     (if startswith (str_lower service) ''http://'' then drop (length ''http://'') service
      else if startswith (str_lower service) ''https://'' then drop (length ''https://'') service
      else service)"

lemma ir_post_error_frame [simp]:
  "ir_settings (ir_post_error msg rsc i) = ir_settings i"
  "envoy_bind_address (ir_post_error msg rsc i) = envoy_bind_address i"
  "use_cache (ir_post_error msg rsc i) = use_cache i" "ir_cache (ir_post_error msg rsc i) = ir_cache i"
  "invalidate_groups_for (ir_post_error msg rsc i) = invalidate_groups_for i"
  "maps (ir_post_error msg rsc i) = maps i" "grps (ir_post_error msg rsc i) = grps i"
  "ambassador_module (ir_post_error msg rsc i) = ambassador_module i"
  "saved_resources (ir_post_error msg rsc i) = saved_resources i"
  "hosts (ir_post_error msg rsc i) = hosts i" "listeners (ir_post_error msg rsc i) = listeners i"
  "tls_contexts (ir_post_error msg rsc i) = tls_contexts i"
  "redirect_cleartext_from (ir_post_error msg rsc i) = redirect_cleartext_from i"
  "resolvers (ir_post_error msg rsc i) = resolvers i" "clusters (ir_post_error msg rsc i) = clusters i"
  "grpc_services (ir_post_error msg rsc i) = grpc_services i" "filters (ir_post_error msg rsc i) = filters i"
  "groups (ir_post_error msg rsc i) = groups i" "secret_infos (ir_post_error msg rsc i) = secret_infos i"
  "saved_secrets (ir_post_error msg rsc i) = saved_secrets i" "disk (ir_post_error msg rsc i) = disk i"
  by (simp_all add: ir_post_error_def)

lemma res_post_error_simps [simp]:
  "fst (res_post_error msg (r, i)) = r\<lparr>ir_errored := True\<rparr>"
  "snd (res_post_error msg (r, i)) = ir_post_error msg (Other (ir_rkey r)) i"
  by (simp_all add: res_post_error_def)

text \<open>An empty IR for the examples of the development.\<close>

definition demo_ir :: ir where
  "demo_ir = \<lparr>ir_settings = demo_settings, envoy_bind_address = ''0.0.0.0'', ir_aconf = config_init, use_cache = True, ir_cache = cache_init,
     invalidate_groups_for = [], maps = [], grps = [],
     ambassador_module = [], saved_resources = [], hosts = [], listeners = [], tls_contexts = [],
     redirect_cleartext_from = PNone, resolvers = [], clusters = [], grpc_services = [], filters = [],
     groups = [], secret_infos = [], saved_secrets = [], disk = []\<rparr>"

end
