(* ===== verification/Listener.thy ===== *)
theory Listener
  imports IRRes Globs
begin

text \<open>
  Listeners, \<open>ir/irlistener.py\<close>, with the part of \<open>ir/ir.py\<close> that stores them: \<open>save_listener\<close> and
  the marking of HTTP/3 companions. \<open>listener_setup\<close> is \<open>IRListener.setup\<close> in four parts; each
  returns whether to go on, the listener and the IR.

  The lemmas: a listener that is set up successfully is well formed; the store of listeners
  refines a map in which the first healthy listener of an address stays.
\<close>

definition AllowedKeys :: "string list" where
  "AllowedKeys = [''bind_address'', ''l7Depth'', ''hostBinding'', ''http2MaxConcurrentStreams'', ''port'',
     ''protocol'', ''protocolStack'', ''securityModel'', ''statsPrefix'']"

definition ProtocolStacks :: "string list pydict" where
  "ProtocolStacks =
     [(''HTTP'', [''HTTP'', ''TCP'']), (''HTTPS'', [''TLS'', ''HTTP'', ''TCP'']),
      (''HTTPPROXY'', [''PROXY'', ''HTTP'', ''TCP'']), (''HTTPSPROXY'', [''TLS'', ''PROXY'', ''HTTP'', ''TCP'']),
      (''TCP'', [''TCP'']), (''TLS'', [''TLS'', ''TCP''])]"

type_synonym lstate = "listener \<times> ir"

definition lfail :: "string \<Rightarrow> lstate \<Rightarrow> bool \<times> lstate" where
  "lfail msg li = (False, res_post_error msg li)"

section \<open>Setup\<close>

definition listener_stack :: "lstate \<Rightarrow> (bool \<times> lstate) res" where
  "listener_stack li =
     (let (l, i) = li in
      if truthy (protocolStack l) then
        (if truthy (protocol l)
         then let (l1, i1) = res_post_error ''protocol and protocolStack may not both be specified; using protocolStack and ignoring protocol'' li
              in Inr (True, l1\<lparr>protocol := PNone\<rparr>, i1)
         else Inr (True, li))
      else if \<not> truthy (protocol l) then Inr (lfail ''one of protocol and protocolStack must be specified'' li)
      else (case protocol l of
          PList _ \<Rightarrow> Inl (TypeError ''unhashable'')
        | PDict _ \<Rightarrow> Inl (TypeError ''unhashable'')
        | v \<Rightarrow> (case (case v of PStr p \<Rightarrow> dget ProtocolStacks p | _ \<Rightarrow> None) of
              None \<Rightarrow> Inr (lfail (''protocol '' @ pv_fmt v @ '' is not valid'') li)
            | Some ps \<Rightarrow> Inr (True, l\<lparr>protocolStack := PList (map PStr ps)\<rparr>, i))))"

definition stack_has :: "string \<Rightarrow> listener \<Rightarrow> bool" where
  "stack_has p l = (case protocolStack l of PList ps \<Rightarrow> PStr p \<in> set ps | _ \<Rightarrow> False)"

definition socket_fail :: "pyval \<Rightarrow> lstate \<Rightarrow> bool \<times> lstate" where
  "socket_fail v li =
     lfail (''TCP or UDP should be the last protocol in the protocolStack. Unable to determine socket protocol for listener '' @
       ir_name (fst li)) ((fst li)\<lparr>socket_protocol := pv_fmt v\<rparr>, snd li)"

lemma socket_fail_False [simp]: "fst (socket_fail v li) = False" "socket_fail v li \<noteq> (True, q)"
  by (simp_all add: socket_fail_def lfail_def)

definition listener_socket :: "lstate \<Rightarrow> (bool \<times> lstate) res" where
  "listener_socket li =
     (let (l, i) = li in
      case protocolStack l of
        PList ps \<Rightarrow>
          (case last ps of
             PStr sp \<Rightarrow>
               if sp \<notin> {''TCP'', ''UDP''} then Inr (socket_fail (PStr sp) li)
               else
                 let l2 = l\<lparr>socket_protocol := sp, http3_enabled := False\<rparr> in
                 if sp = ''UDP'' then
                   (if stack_has ''HTTP'' l2 then Inr (True, l2\<lparr>http3_enabled := True\<rparr>, i)
                    else Inr (lfail (''UDP is only supported with HTTP. Invalid protocolStack for listener '' @ ir_name l) (l2, i)))
                 else Inr (True, l2, i)
           | PList _ \<Rightarrow> Inl (TypeError ''unhashable'')
           | PDict _ \<Rightarrow> Inl (TypeError ''unhashable'')
           | v \<Rightarrow> Inr (socket_fail v li))
      | PStr s \<Rightarrow> Inr (socket_fail (PStr [last s]) li)
      | PDict _ \<Rightarrow> Inl (KeyError ''-1'')
      | _ \<Rightarrow> Inl (TypeError ''not subscriptable''))"

definition default_stats_prefix :: "listener \<Rightarrow> string" where
  "default_stats_prefix l =
     (if stack_has ''HTTP'' l then (if stack_has ''TLS'' l then ''ingress_https'' else ''ingress_http'')
      else if stack_has ''TLS'' l then ''ingress_tls_'' @ pv_fmt (l_port l)
      else ''ingress_'' @ str_lower (socket_protocol l) @ ''_'' @ pv_fmt (l_port l))"

definition listener_security :: "lstate \<Rightarrow> bool \<times> lstate" where
  "listener_security li =
     (let (l, i) = li in
      if \<not> truthy (securityModel l) then lfail ''securityModel is required'' li
      else (True, if truthy (statsPrefix l) then l else l\<lparr>statsPrefix := PStr (default_stats_prefix l)\<rparr>, i))"

definition binding_namespace :: "pyval \<Rightarrow> lstate \<Rightarrow> (bool \<times> lstate) res" where
  "binding_namespace hb_namespace li =
     (let (l, i) = li in
      if \<not> truthy hb_namespace then Inr (True, li)
      else
        rbind (pv_get hb_namespace ''from'' PNone) (\<lambda>nsfrom.
          if \<not> truthy nsfrom then Inr (lfail ''hostBinding.namespace.from is required'' li)
          else rbind (pv_lower nsfrom) (\<lambda>f.
            if f = ''all'' then Inr (True, l\<lparr>namespace_literal := ''*''\<rparr>, i)
            else if f = ''self'' then Inr (True, l\<lparr>namespace_literal := ir_namespace l\<rparr>, i)
            else if f = ''selector''
            then Inr (True, res_post_error ''hostBinding.namespace.from=selector is not yet supported'' li)
            else Inr (True, li))))"

definition binding_selector :: "pyval \<Rightarrow> lstate \<Rightarrow> (bool \<times> lstate) res" where
  "binding_selector hb_selector li =
     (let (l, i) = li in
      if \<not> truthy hb_selector then Inr (True, li)
      else rbind (pv_contains hb_selector ''matchLabels'') (\<lambda>known.
        if \<not> known then Inr (lfail ''hostBinding.selector currently supports only matchLabels'' li)
        else Inr (True, l\<lparr>host_selector := hb_selector\<rparr>, i)))"

definition listener_binding :: "lstate \<Rightarrow> (bool \<times> lstate) res" where
  "listener_binding li =
     (let (l, i) = li; hostbinding = hostBinding l in
      if \<not> truthy hostbinding then Inr (lfail ''hostBinding is required'' li)
      else
        let li1 = (l\<lparr>hostBinding := PNone\<rparr>, i) in
        rbind (pv_get hostbinding ''namespace'' PNone) (\<lambda>hb_namespace.
        rbind (pv_get hostbinding ''selector'' PNone) (\<lambda>hb_selector.
          if \<not> truthy hb_namespace \<and> \<not> truthy hb_selector
          then Inr (lfail ''hostBinding must have at least one of namespace or selector'' li1)
          else
            rbind (binding_namespace hb_namespace li1) (\<lambda>(ok, li2).
              if \<not> ok then Inr (False, li2) else binding_selector hb_selector li2))))"

definition listener_defaults :: "ir \<Rightarrow> listener \<Rightarrow> listener" where
  "listener_defaults i l =
     (let l1 = l\<lparr>namespace_literal := ir_namespace l, host_selector := PDict []\<rparr>
      in if truthy (bind_address l1) then l1 else l1\<lparr>bind_address := PStr (envoy_bind_address i)\<rparr>)"

definition listener_setup :: "lstate \<Rightarrow> (bool \<times> lstate) res" where
  "listener_setup li =
     (if \<not> dhas (ir_attrs (fst li)) ''port'' then Inl (AttributeError ''port'')
      else
        rbind (listener_stack (listener_defaults (snd li) (fst li), snd li)) (\<lambda>(ok1, li1).
          if \<not> ok1 then Inr (False, li1)
          else rbind (listener_socket li1) (\<lambda>(ok2, li2).
            if \<not> ok2 then Inr (False, li2)
            else let (ok3, li3) = listener_security li2 in
              if \<not> ok3 then Inr (False, li3) else listener_binding li3)))"

section \<open>Construction and use\<close>

definition listener_init ::
  "string \<Rightarrow> string \<Rightarrow> string \<Rightarrow> string option \<Rightarrow> pyval pydict \<Rightarrow> ir \<Rightarrow> lstate res" where
  "listener_init rkey name location ns kwargs i =
     (let args = filter (\<lambda>(k, _). k \<in> set AllowedKeys) kwargs;
          l = \<lparr>ir_rkey = rkey, ir_location = location, ir_kind = ''IRListener'', ir_name = name,
               ir_namespace = (if ns = None \<or> ns = Some [] then ambassador_namespace (ir_settings i) else the ns),
               ir_labels = PNone, ir_active = False, ir_errored = False, ir_cache_key = None, ir_attrs = args,
               bind_address = pget args ''bind_address'', l_port = pget args ''port'',
               protocol = pget args ''protocol'', protocolStack = pget args ''protocolStack'',
               securityModel = pget args ''securityModel'', statsPrefix = pget args ''statsPrefix'',
               hostBinding = pget args ''hostBinding'', socket_protocol = [], http3_enabled = False,
               namespace_literal = [], host_selector = PNone\<rparr>
      in rbind (listener_setup (l, i)) (\<lambda>(ok, l1, i1). Inr (set_active ok l1, i1)))"

definition bind_to :: "listener \<Rightarrow> string" where
  "bind_to l = str_lower (socket_protocol l) @ ''-'' @ pv_fmt (bind_address l) @ ''-'' @ pv_fmt (l_port l)"

definition matches_host ::
  "(string \<Rightarrow> string option) \<Rightarrow> listener \<Rightarrow> irres \<Rightarrow> bool res" where
  "matches_host env l host =
     (if \<not> (namespace_literal l = ''*'' \<or> namespace_literal l = ir_namespace host) then Inr False
      else (case host_selector l of
          PDict _ \<Rightarrow> Inr (selector_matches env (str_dicts (host_selector l)) (str_dict (ir_labels host)))
        | _ \<Rightarrow> Inl (AttributeError ''get'')))"

text \<open>The exceptions of \<open>__str__\<close>, which \<open>load_all\<close> formats for its log: a protocol stack that
  \<open>join\<close> does not take, and a selector that is no dict.\<close>

definition listener_shown :: "listener \<Rightarrow> unit res" where
  "listener_shown l =
     rbind (if \<not> truthy (protocolStack l) then Inr ()
            else case protocolStack l of
                PList ps \<Rightarrow> if list_all (\<lambda>v. case v of PStr _ \<Rightarrow> True | _ \<Rightarrow> False) ps then Inr ()
                           else Inl (TypeError ''join'')
              | PStr _ \<Rightarrow> Inr ()
              | PDict _ \<Rightarrow> Inr ()
              | _ \<Rightarrow> Inl (TypeError ''join''))
       (\<lambda>_. if \<not> truthy (host_selector l) then Inr ()
            else case host_selector l of PDict _ \<Rightarrow> Inr () | _ \<Rightarrow> Inl (AttributeError ''items''))"

definition save_listener :: "listener \<Rightarrow> ir \<Rightarrow> ir" where
  "save_listener l i =
     (case dget (listeners i) (bind_to l) of
        Some extant \<Rightarrow>
          if ir_bool extant
          then ir_post_error (''Duplicate listener '' @ ir_name l @ '' on '' @ str_lower (socket_protocol l) @
                 ''://'' @ pv_fmt (bind_address l) @ '':'' @ pv_fmt (l_port l) @
                 ''; keeping definition from '' @ ir_location extant) NoResource i
          else i\<lparr>listeners := dset (bind_to l) l (listeners i)\<rparr>
      | None \<Rightarrow> i\<lparr>listeners := dset (bind_to l) l (listeners i)\<rparr>)"

definition load_listener :: "ac \<Rightarrow> ir \<Rightarrow> ir res" where
  "load_listener c i =
     rbind (listener_init (ac_rkey c) (ac_name c) (ac_location c) (ac_namespace c) (ac_attrs c) i) (\<lambda>(l, i1).
     rbind (listener_shown l) (\<lambda>_.
       Inr (if is_active l
            then save_listener (l\<lparr>ir_rkey := ac_rkey c, ir_location := ac_location c\<rparr>) i1 else i1)))"

definition load_listeners :: "ac list \<Rightarrow> ir \<Rightarrow> ir res" where
  "load_listeners cs i = rfold load_listener cs i"

section \<open>HTTP/3 companions\<close>

definition mark_http3 :: "listener \<Rightarrow> ir \<Rightarrow> ir" where
  "mark_http3 udp i =
     (let key = ''tcp-'' @ pv_fmt (bind_address udp) @ ''-'' @ pv_fmt (l_port udp) in
      case dget (listeners i) key of
        None \<Rightarrow> i
      | Some tcp \<Rightarrow>
          (let t1 = tcp\<lparr>http3_enabled := True\<rparr>;
               t2 = (if stack_has ''HTTP'' t1 then t1\<lparr>http3_enabled := True\<rparr> else t1)
           in i\<lparr>listeners := dset key t2 (listeners i)\<rparr>))"

definition http3_companions :: "ir \<Rightarrow> ir" where
  "http3_companions i =
     fold mark_http3 (filter (\<lambda>l. socket_protocol l = ''UDP'') (map snd (listeners i))) i"

section \<open>Listeners for TCP mappings\<close>

definition group_bind_to :: "ir \<Rightarrow> mgroup \<Rightarrow> string" where
  "group_bind_to i g =
     ''tcp-'' @ pv_fmt (por (rget g ''address'') (PStr (envoy_bind_address i))) @ ''-'' @ pv_fmt (rget g ''port'')"

definition tcp_group_listener :: "mgroup \<Rightarrow> ir \<Rightarrow> ir res" where
  "tcp_group_listener g i =
     (if ir_kind g \<noteq> ''IRTCPMappingGroup'' \<or> dhas (listeners i) (group_bind_to i g) then Inr i
      else if num_of (rget g ''port'') = None then Inl (TypeError ''%d format: a number is required'')
      else
        let proto = (if truthy (rget g ''host'') then ''TLS'' else ''TCP'');
            addr = por (rget g ''address'') (PStr (envoy_bind_address i))
        in rbind (listener_init ''-internal-'' (''listener-'' @ pv_fmt addr @ ''-'' @ pv_fmt (rget g ''port''))
             ''-internal-'' None
             [(''bind_address'', addr), (''port'', rget g ''port''), (''protocol'', PStr proto),
              (''securityModel'', PStr ''SECURE''),
              (''hostBinding'', PDict [(''namespace'', PDict [(''from'', PStr ''SELF'')])])] i)
           (\<lambda>(l, i1). Inr (save_listener l i1)))"

definition finalize_listeners :: "mgroup list \<Rightarrow> ir \<Rightarrow> ir res" where
  "finalize_listeners ordered_groups i = rfold tcp_group_listener ordered_groups i"

section \<open>Well-formed listeners\<close>

definition wf_listener :: "listener \<Rightarrow> bool" where
  "wf_listener l \<longleftrightarrow>
     (\<exists>ps. protocolStack l = PList ps \<and> ps \<noteq> [] \<and> last ps = PStr (socket_protocol l)) \<and>
     socket_protocol l \<in> {''TCP'', ''UDP''} \<and>
     (http3_enabled l \<longleftrightarrow> socket_protocol l = ''UDP'') \<and>
     (socket_protocol l = ''UDP'' \<longrightarrow> stack_has ''HTTP'' l) \<and>
     dhas (ir_attrs l) ''port'' \<and> truthy (bind_address l) \<and> truthy (securityModel l) \<and> truthy (statsPrefix l) \<and> hostBinding l = PNone \<and>
     namespace_literal l \<in> {''*'', ir_namespace l} \<and>
     (host_selector l = PDict [] \<or> pv_contains (host_selector l) ''matchLabels'' = Inr True)"

lemma stacks_nonempty [simp]: "dget ProtocolStacks p \<noteq> Some []"
  by (simp add: ProtocolStacks_def)

text \<open>What a part of the setup leaves alone.\<close>

definition same_binding :: "listener \<Rightarrow> listener \<Rightarrow> bool" where
  "same_binding l l' \<longleftrightarrow> bind_address l' = bind_address l \<and> l_port l' = l_port l \<and>
     namespace_literal l' = namespace_literal l \<and> host_selector l' = host_selector l \<and>
     ir_namespace l' = ir_namespace l \<and> ir_attrs l' = ir_attrs l"

lemma same_binding_trans: "same_binding a b \<Longrightarrow> same_binding b c \<Longrightarrow> same_binding a c"
  by (simp add: same_binding_def)

lemma listener_stack_ok:
  assumes "listener_stack (l, i) = Inr (True, l', i')"
  shows "truthy (protocolStack l') \<and> same_binding l l'"
proof (cases "truthy (protocolStack l)")
  case True
  with assms show ?thesis
    by (auto simp: listener_stack_def same_binding_def Let_def res_post_error_def split: if_splits)
next
  case False
  with assms have t: "truthy (protocol l)"
    by (cases "truthy (protocol l)") (auto simp: listener_stack_def lfail_def)
  have "\<exists>ps. dget ProtocolStacks p = Some ps \<and> l' = l\<lparr>protocolStack := PList (map PStr ps)\<rparr>"
    if "protocol l = PStr p" for p
    using assms False t that by (auto simp: listener_stack_def lfail_def split: option.splits)
  moreover have "\<exists>p. protocol l = PStr p"
    using assms False t by (cases "protocol l") (auto simp: listener_stack_def lfail_def)
  ultimately show ?thesis by (auto simp: same_binding_def)
qed

lemma listener_socket_ok:
  assumes "listener_socket (l, i) = Inr (True, l', i')" and "truthy (protocolStack l)"
  shows "(\<exists>ps. protocolStack l' = PList ps \<and> ps \<noteq> [] \<and> last ps = PStr (socket_protocol l')) \<and>
    socket_protocol l' \<in> {''TCP'', ''UDP''} \<and> (http3_enabled l' \<longleftrightarrow> socket_protocol l' = ''UDP'') \<and>
    (socket_protocol l' = ''UDP'' \<longrightarrow> stack_has ''HTTP'' l') \<and> same_binding l l'"
proof -
  obtain ps where ps: "protocolStack l = PList ps"
    using assms(1) by (cases "protocolStack l") (auto simp: listener_socket_def)
  obtain sp where sp: "last ps = PStr sp"
    using assms(1) ps by (cases "last ps") (auto simp: listener_socket_def)
  have "ps \<noteq> []" using assms(2) ps by simp
  with assms(1) ps sp show ?thesis
    by (auto simp: listener_socket_def Let_def lfail_def stack_has_def same_binding_def split: if_splits)
qed

lemma default_stats_prefix_nonempty: "default_stats_prefix l \<noteq> []"
  by (simp add: default_stats_prefix_def)

lemma listener_security_ok:
  assumes "listener_security (l, i) = (True, l', i')"
  shows "truthy (securityModel l') \<and> truthy (statsPrefix l') \<and> same_binding l l' \<and>
    protocolStack l' = protocolStack l \<and> socket_protocol l' = socket_protocol l \<and>
    http3_enabled l' = http3_enabled l \<and> hostBinding l' = hostBinding l"
proof -
  have m: "truthy (securityModel l)"
    using assms by (cases "truthy (securityModel l)") (simp_all add: listener_security_def lfail_def)
  then have l': "l' = (if truthy (statsPrefix l) then l else l\<lparr>statsPrefix := PStr (default_stats_prefix l)\<rparr>)"
    using assms by (simp add: listener_security_def)
  show ?thesis
  proof (cases "truthy (statsPrefix l)")
    case True
    then have "l' = l" using l' by simp
    with True m show ?thesis by (simp add: same_binding_def)
  next
    case False
    have eq: "l' = l\<lparr>statsPrefix := PStr (default_stats_prefix l)\<rparr>"
      using l' unfolding if_not_P [OF False] .
    show ?thesis unfolding eq by (simp add: m same_binding_def default_stats_prefix_nonempty)
  qed
qed

lemma binding_namespace_ok:
  assumes "binding_namespace hb (l, i) = Inr (True, l', i')"
  shows "\<exists>ns e. l' = l\<lparr>namespace_literal := ns, ir_errored := e\<rparr> \<and>
    ns \<in> {namespace_literal l, ''*'', ir_namespace l}"
proof -
  let ?goal = "\<lambda>x. \<exists>ns e. x = l\<lparr>namespace_literal := ns, ir_errored := e\<rparr> \<and>
      ns \<in> {namespace_literal l, ''*'', ir_namespace l}"
  have keep: "?goal l"
    by (intro exI [of _ "namespace_literal l"] exI [of _ "ir_errored l"]) simp
  have lit: "?goal (l\<lparr>namespace_literal := ns\<rparr>)" if "ns \<in> {''*'', ir_namespace l}" for ns
    using that by (intro exI [of _ ns] exI [of _ "ir_errored l"]) simp
  have err: "?goal (l\<lparr>ir_errored := True\<rparr>)"
    by (intro exI [of _ "namespace_literal l"] exI [of _ True]) simp
  show ?thesis
  proof (cases "truthy hb")
    case False
    then have "binding_namespace hb (l, i) = Inr (True, l, i)" by (simp add: binding_namespace_def)
    with assms have "l' = l" by simp
    with keep show ?thesis by simp
  next
    case True
    obtain v where v: "pv_get hb ''from'' PNone = Inr v" "truthy v"
      using assms True by (cases "pv_get hb ''from'' PNone") (auto simp: binding_namespace_def lfail_def split: if_splits)
    obtain f where f: "pv_lower v = Inr f"
      using assms True v by (cases "pv_lower v") (auto simp: binding_namespace_def)
    note b = binding_namespace_def True v f
    consider "f = ''all''" | "f = ''self''" | "f = ''selector''"
      | "f \<noteq> ''all''" "f \<noteq> ''self''" "f \<noteq> ''selector''" by blast
    then show ?thesis
    proof cases
      case 1
      then have "binding_namespace hb (l, i) = Inr (True, l\<lparr>namespace_literal := ''*''\<rparr>, i)" by (simp add: b)
      with assms have "l' = l\<lparr>namespace_literal := ''*''\<rparr>" by simp
      then show ?thesis using lit [of "''*''"] by blast
    next
      case 2
      then have "binding_namespace hb (l, i) = Inr (True, l\<lparr>namespace_literal := ir_namespace l\<rparr>, i)"
        by (simp add: b)
      with assms have "l' = l\<lparr>namespace_literal := ir_namespace l\<rparr>" by simp
      then show ?thesis using lit [of "ir_namespace l"] by blast
    next
      case 3
      then have "\<exists>j. binding_namespace hb (l, i) = Inr (True, l\<lparr>ir_errored := True\<rparr>, j)"
        by (simp add: b res_post_error_def)
      with assms have "l' = l\<lparr>ir_errored := True\<rparr>" by auto
      then show ?thesis using err by blast
    next
      case 4
      then have "binding_namespace hb (l, i) = Inr (True, l, i)" by (simp add: b)
      with assms have "l' = l" by simp
      then show ?thesis using keep by blast
    qed
  qed
qed

lemma binding_selector_ok:
  assumes "binding_selector hb (l, i) = Inr (True, l', i')"
  shows "l' = l \<or> (\<exists>sel. l' = l\<lparr>host_selector := sel\<rparr> \<and> pv_contains sel ''matchLabels'' = Inr True)"
  using assms by (auto simp: binding_selector_def lfail_def rbind_eq_Inr split: if_splits)

lemma listener_binding_ok:
  assumes "listener_binding (l, i) = Inr (True, l', i')"
    and "namespace_literal l = ir_namespace l" and "host_selector l = PDict []"
  shows "\<exists>ns e sel. l' = l\<lparr>hostBinding := PNone, namespace_literal := ns, ir_errored := e, host_selector := sel\<rparr> \<and>
    ns \<in> {''*'', ir_namespace l} \<and> (sel = PDict [] \<or> pv_contains sel ''matchLabels'' = Inr True)"
proof -
  let ?l1 = "l\<lparr>hostBinding := PNone\<rparr>"
  note b = listener_binding_def Let_def lfail_def
  have t: "truthy (hostBinding l)"
    using assms(1) by (cases "truthy (hostBinding l)") (simp_all add: b)
  obtain d where d: "hostBinding l = PDict d"
    using assms(1) t by (cases "hostBinding l") (simp_all add: b)
  let ?ns = "dget_or d ''namespace'' PNone" and ?sel = "dget_or d ''selector'' PNone"
  have some: "\<not> (\<not> truthy ?ns \<and> \<not> truthy ?sel)"
  proof
    assume "\<not> truthy ?ns \<and> \<not> truthy ?sel"
    with assms(1) t show False by (simp add: b d)
  qed
  obtain l2 i2 where 1: "binding_namespace ?ns (?l1, i) = Inr (True, l2, i2)"
      "binding_selector ?sel (l2, i2) = Inr (True, l', i')"
  proof (cases "binding_namespace ?ns (?l1, i)")
    case (Inl x)
    with assms(1) t show ?thesis by (simp add: b d some)
  next
    case (Inr q)
    obtain ok l2 i2 where q: "q = (ok, l2, i2)" by (cases q)
    have "listener_binding (l, i) = (if \<not> ok then Inr (False, l2, i2) else binding_selector ?sel (l2, i2))"
      using t Inr q by (simp add: b d some)
    with assms(1) have "ok" "binding_selector ?sel (l2, i2) = Inr (True, l', i')" by (cases ok; simp)+
    with Inr q show ?thesis by (intro that) simp_all
  qed
  obtain ns e where 2: "l2 = ?l1\<lparr>namespace_literal := ns, ir_errored := e\<rparr>" "ns \<in> {''*'', ir_namespace l}"
    using binding_namespace_ok [OF 1(1)] assms(2) by auto
  from binding_selector_ok [OF 1(2)] show ?thesis
  proof
    assume "l' = l2"
    with 2 assms(3) show ?thesis
      by (intro exI [of _ ns] exI [of _ e] exI [of _ "PDict []"]) simp
  next
    assume "\<exists>sel. l' = l2\<lparr>host_selector := sel\<rparr> \<and> pv_contains sel ''matchLabels'' = Inr True"
    then obtain sel where "l' = l2\<lparr>host_selector := sel\<rparr>" "pv_contains sel ''matchLabels'' = Inr True" by blast
    with 2 show ?thesis
      by (intro exI [of _ ns] exI [of _ e] exI [of _ sel]) simp
  qed
qed

lemma listener_setup_wf:
  assumes "listener_setup (l, i) = Inr (True, l', i')" and "envoy_bind_address i \<noteq> []"
  shows "wf_listener l'"
proof -
  let ?l0 = "listener_defaults i l"
  obtain l1 i1 l2 i2 l3 i3 where s: "listener_stack (?l0, i) = Inr (True, l1, i1)"
      "listener_socket (l1, i1) = Inr (True, l2, i2)" "listener_security (l2, i2) = (True, l3, i3)"
      "listener_binding (l3, i3) = Inr (True, l', i')"
    using assms(1) by (auto simp: listener_setup_def res_simps Let_def split: prod.splits if_splits)
  have port: "dhas (ir_attrs l) ''port''"
    using assms(1) by (cases "dhas (ir_attrs l) ''port''") (simp_all add: listener_setup_def)
  note 1 = listener_stack_ok [OF s(1)]
  note 2 = listener_socket_ok [OF s(2) conjunct1 [OF 1]]
  note 3 = listener_security_ok [OF s(3)]
  have d: "truthy (bind_address ?l0)" "namespace_literal ?l0 = ir_namespace ?l0" "host_selector ?l0 = PDict []"
    "ir_attrs ?l0 = ir_attrs l"
    using assms(2) by (auto simp: listener_defaults_def Let_def)
  have "same_binding ?l0 l3"
    using 1 2 3 same_binding_trans by blast
  with d have d3: "truthy (bind_address l3)" "namespace_literal l3 = ir_namespace l3" "host_selector l3 = PDict []"
    "dhas (ir_attrs l3) ''port''"
    using port by (auto simp: same_binding_def)
  have 4: "\<exists>ps. protocolStack l3 = PList ps \<and> ps \<noteq> [] \<and> last ps = PStr (socket_protocol l3)"
    "socket_protocol l3 \<in> {''TCP'', ''UDP''}" "http3_enabled l3 \<longleftrightarrow> socket_protocol l3 = ''UDP''"
    "socket_protocol l3 = ''UDP'' \<longrightarrow> stack_has ''HTTP'' l3"
    using 2 3 by (auto simp: stack_has_def)
  obtain ns e sel where "l' = l3\<lparr>hostBinding := PNone, namespace_literal := ns, ir_errored := e, host_selector := sel\<rparr>"
    "ns \<in> {''*'', ir_namespace l3}" "sel = PDict [] \<or> pv_contains sel ''matchLabels'' = Inr True"
    using listener_binding_ok [OF s(4) d3(2,3)] by blast
  with 3 4 d3(1,4) show ?thesis unfolding wf_listener_def by (simp add: stack_has_def)
qed

section \<open>The store of listeners\<close>

interpretation lst: guarded_store bind_to ir_bool listeners save_listener
  by unfold_locales (simp_all add: save_listener_def)

text \<open>
  The abstract view of a guarded store: the healthy entries. Saving inserts a healthy resource
  whose key has none, and changes nothing otherwise.
\<close>

definition healthy_view :: "('r \<Rightarrow> bool) \<Rightarrow> 'r pydict \<Rightarrow> string \<Rightarrow> 'r option" where
  "healthy_view ok d k = (case dget d k of Some e \<Rightarrow> if ok e then Some e else None | None \<Rightarrow> None)"

definition first_wins ::
  "('r \<Rightarrow> string) \<Rightarrow> ('r \<Rightarrow> bool) \<Rightarrow> 'r \<Rightarrow> (string \<Rightarrow> 'r option) \<Rightarrow> string \<Rightarrow> 'r option" where
  "first_wins key ok r m = (if m (key r) = None \<and> ok r then m(key r \<mapsto> r) else m)"

context guarded_store
begin

lemma view_save: "healthy_view healthy (store (save r s)) = first_wins key healthy r (healthy_view healthy (store s))"
  by (auto simp: healthy_view_def first_wins_def lookup_save fun_eq_iff split: option.splits)

lemma view_save_all:
  "healthy_view healthy (store (fold save rs s)) =
     fold (first_wins key healthy) rs (healthy_view healthy (store s))"
  by (induction rs arbitrary: s) (simp_all add: view_save)

end

section \<open>Listeners of TCP mapping groups\<close>

lemma binding_self:
  "binding_namespace (PDict [(''from'', PStr ''SELF'')]) (l, i) =
     Inr (True, l\<lparr>namespace_literal := ir_namespace l\<rparr>, i)"
proof -
  have "str_lower ''SELF'' = ''self''" by code_simp
  then show ?thesis by (simp add: binding_namespace_def dget_or_def)
qed

lemma setup_synthesized:
  fixes l :: listener
  assumes "protocolStack l = PNone" "protocol l = PStr proto" "proto \<in> {''TLS'', ''TCP''}"
    and "securityModel l = PStr ''SECURE''" "statsPrefix l = PNone"
    and "hostBinding l = PDict [(''namespace'', PDict [(''from'', PStr ''SELF'')])]"
    and "dhas (ir_attrs l) ''port''"
  shows "\<exists>l'. listener_setup (l, i) = Inr (True, l', i) \<and> socket_protocol l' = ''TCP'' \<and>
    bind_address l' = bind_address (listener_defaults i l) \<and> l_port l' = l_port l"
proof -
  let ?d = "listener_defaults i l"
  have d: "protocolStack ?d = PNone" "protocol ?d = PStr proto" "securityModel ?d = PStr ''SECURE''"
    "statsPrefix ?d = PNone" "hostBinding ?d = PDict [(''namespace'', PDict [(''from'', PStr ''SELF'')])]"
    "l_port ?d = l_port l"
    using assms by (simp_all add: listener_defaults_def Let_def)
  obtain ps where ps: "dget ProtocolStacks proto = Some ps" "ps \<noteq> []" "last ps = ''TCP''"
    using assms(3) by (auto simp: ProtocolStacks_def)
  let ?l1 = "?d\<lparr>protocolStack := PList (map PStr ps)\<rparr>"
  have 1: "listener_stack (?d, i) = Inr (True, ?l1, i)"
    using assms(3) ps by (auto simp: listener_stack_def d)
  let ?l2 = "?l1\<lparr>socket_protocol := ''TCP'', http3_enabled := False\<rparr>"
  have 2: "listener_socket (?l1, i) = Inr (True, ?l2, i)"
    using ps by (simp add: listener_socket_def last_map)
  let ?l3 = "?l2\<lparr>statsPrefix := PStr (default_stats_prefix ?l2)\<rparr>"
  have 3: "listener_security (?l2, i) = (True, ?l3, i)"
    by (simp add: listener_security_def d)
  let ?l4 = "?l3\<lparr>hostBinding := PNone\<rparr>"
  let ?l5 = "?l4\<lparr>namespace_literal := ir_namespace ?l4\<rparr>"
  have 4: "listener_binding (?l3, i) = Inr (True, ?l5, i)"
    by (simp add: listener_binding_def d dget_or_def binding_self binding_selector_def)
  have "listener_setup (l, i) = Inr (True, ?l5, i)"
    by (simp add: listener_setup_def assms(7) 1 2 3 4)
  then show ?thesis by (intro exI [of _ ?l5]) (simp add: d)
qed

lemma synthesized_listener:
  assumes "proto \<in> {''TLS'', ''TCP''}"
  shows "\<exists>l. listener_init rkey name loc None
     [(''bind_address'', por a (PStr (envoy_bind_address i))), (''port'', p), (''protocol'', PStr proto),
      (''securityModel'', PStr ''SECURE''),
      (''hostBinding'', PDict [(''namespace'', PDict [(''from'', PStr ''SELF'')])])] i = Inr (l, i) \<and>
     is_active l \<and> bind_to l = ''tcp-'' @ pv_fmt (por a (PStr (envoy_bind_address i))) @ ''-'' @ pv_fmt p"
proof -
  let ?args = "[(''bind_address'', por a (PStr (envoy_bind_address i))), (''port'', p), (''protocol'', PStr proto),
      (''securityModel'', PStr ''SECURE''),
      (''hostBinding'', PDict [(''namespace'', PDict [(''from'', PStr ''SELF'')])])]"
  have args: "filter (\<lambda>(k, _). k \<in> set AllowedKeys) ?args = ?args"
    by (simp add: AllowedKeys_def)
  have lower: "str_lower ''TCP'' = ''tcp''" by code_simp
  let ?l = "\<lparr>ir_rkey = rkey, ir_location = loc, ir_kind = ''IRListener'', ir_name = name,
     ir_namespace = ambassador_namespace (ir_settings i), ir_labels = PNone, ir_active = False,
     ir_errored = False, ir_cache_key = None, ir_attrs = ?args,
     bind_address = por a (PStr (envoy_bind_address i)), l_port = p, protocol = PStr proto,
     protocolStack = PNone, securityModel = PStr ''SECURE'', statsPrefix = PNone,
     hostBinding = PDict [(''namespace'', PDict [(''from'', PStr ''SELF'')])], socket_protocol = [],
     http3_enabled = False, namespace_literal = [], host_selector = PNone\<rparr>"
  obtain l' where l': "listener_setup (?l, i) = Inr (True, l', i)" "socket_protocol l' = ''TCP''"
      "bind_address l' = bind_address (listener_defaults i ?l)" "l_port l' = p"
    using setup_synthesized [of ?l proto i] assms by (auto simp: dhas_def)
  have init: "listener_init rkey name loc None ?args i = Inr (set_active True l', i)"
    using l'(1) unfolding listener_init_def args by (simp add: pget_def dget_or_def)
  have "bind_address l' = por a (PStr (envoy_bind_address i))"
    unfolding l'(3) by (simp add: listener_defaults_def Let_def por_def)
  with init l'(2,4) lower show ?thesis
    by (intro exI [of _ "set_active True l'"]) (simp add: is_active_def set_active_def bind_to_def)
qed

lemma tcp_group_listener_binds:
  assumes "ir_kind g = ''IRTCPMappingGroup'' \<longrightarrow> num_of (rget g ''port'') \<noteq> None"
  shows "\<exists>i'. tcp_group_listener g i = Inr i' \<and> envoy_bind_address i' = envoy_bind_address i \<and>
     fst ` set (listeners i) \<subseteq> fst ` set (listeners i') \<and>
     (ir_kind g = ''IRTCPMappingGroup'' \<longrightarrow> dhas (listeners i') (group_bind_to i g))"
proof (cases "ir_kind g \<noteq> ''IRTCPMappingGroup'' \<or> dhas (listeners i) (group_bind_to i g)")
  case True
  then show ?thesis by (auto simp: tcp_group_listener_def)
next
  case False
  note port = assms
  let ?p = "if truthy (rget g ''host'') then ''TLS'' else ''TCP''"
  have "?p \<in> {''TLS'', ''TCP''}" by simp
  from synthesized_listener [OF this, of "''-internal-''" "''listener-'' @
      pv_fmt (por (rget g ''address'') (PStr (envoy_bind_address i))) @ ''-'' @ pv_fmt (rget g ''port'')"
      "''-internal-''" "rget g ''address''" i "rget g ''port''"]
  obtain l where l: "tcp_group_listener g i = Inr (save_listener l i)" "bind_to l = group_bind_to i g"
    using False port by (auto simp: tcp_group_listener_def Let_def group_bind_to_def)
  have "envoy_bind_address (save_listener l i) = envoy_bind_address i"
    by (simp add: save_listener_def split: option.split)
  with l lst.keys_save [of l i] show ?thesis
    by (intro exI [of _ "save_listener l i"]) (auto simp: dhas_iff)
qed

lemma group_bind_to_cong: "envoy_bind_address i' = envoy_bind_address i \<Longrightarrow> group_bind_to i' g = group_bind_to i g"
  by (simp add: group_bind_to_def)

lemma finalize_listeners_binds:
  assumes "\<forall>g \<in> set gs. ir_kind g = ''IRTCPMappingGroup'' \<longrightarrow> num_of (rget g ''port'') \<noteq> None"
  shows "\<exists>i'. finalize_listeners gs i = Inr i' \<and> envoy_bind_address i' = envoy_bind_address i \<and>
     fst ` set (listeners i) \<subseteq> fst ` set (listeners i') \<and>
     (\<forall>g \<in> set gs. ir_kind g = ''IRTCPMappingGroup'' \<longrightarrow> dhas (listeners i') (group_bind_to i g))"
  using assms
proof (induction gs arbitrary: i)
  case (Cons g gs)
  have ports: "ir_kind g = ''IRTCPMappingGroup'' \<longrightarrow> num_of (rget g ''port'') \<noteq> None"
    "\<forall>g \<in> set gs. ir_kind g = ''IRTCPMappingGroup'' \<longrightarrow> num_of (rget g ''port'') \<noteq> None"
    using Cons.prems by simp_all
  obtain i1 where 1: "tcp_group_listener g i = Inr i1" "envoy_bind_address i1 = envoy_bind_address i"
      "fst ` set (listeners i) \<subseteq> fst ` set (listeners i1)"
      "ir_kind g = ''IRTCPMappingGroup'' \<longrightarrow> dhas (listeners i1) (group_bind_to i g)"
    using tcp_group_listener_binds [OF ports(1), of i] by blast
  obtain i2 where 2: "finalize_listeners gs i1 = Inr i2" "envoy_bind_address i2 = envoy_bind_address i1"
      "fst ` set (listeners i1) \<subseteq> fst ` set (listeners i2)"
      "\<forall>g \<in> set gs. ir_kind g = ''IRTCPMappingGroup'' \<longrightarrow> dhas (listeners i2) (group_bind_to i1 g)"
    using Cons.IH [OF ports(2), of i1] by blast
  have "finalize_listeners (g # gs) i = Inr i2" using 1(1) 2(1) by (simp add: finalize_listeners_def)
  moreover have "fst ` set (listeners i) \<subseteq> fst ` set (listeners i2)" using 1(3) 2(3) by (rule subset_trans)
  moreover have "dhas (listeners i2) k" if "dhas (listeners i1) k" for k
    using that 2(3) unfolding dhas_iff by (rule subsetD [rotated])
  ultimately show ?case
    using 1(2,4) 2(2,4) by (intro exI [of _ i2]) (simp add: group_bind_to_cong [OF 1(2)])
qed (simp add: finalize_listeners_def)

text \<open>
  A TCP listener that has no HTTP in its protocol stack is marked for HTTP/3 as well when a
  UDP listener shares its address and port.
\<close>

lemma http3_marks_raw_tcp:
  assumes "dget (listeners i) (''tcp-'' @ pv_fmt (bind_address u) @ ''-'' @ pv_fmt (l_port u)) = Some t"
    and "\<not> stack_has ''HTTP'' t"
  shows "\<exists>t'. dget (listeners (mark_http3 u i))
      (''tcp-'' @ pv_fmt (bind_address u) @ ''-'' @ pv_fmt (l_port u)) = Some t' \<and>
    http3_enabled t' \<and> \<not> stack_has ''HTTP'' t'"
  using assms by (simp add: mark_http3_def Let_def stack_has_def)

section \<open>Properties\<close>

text \<open>
  C23: a listener that its constructor leaves active is well formed: its socket protocol is the
  last of its protocol stack and is TCP or UDP, HTTP/3 is on exactly for UDP and only with HTTP in
  the stack, it has a port, the address, the security model and the statistics prefix are set,
  hostBinding is gone, it takes Hosts of all namespaces or of its own, and its selector is empty or
  a value that the test for matchLabels accepts.
\<close>

theorem active_listener_well_formed:
  assumes "listener_init rkey name loc ns kwargs i = Inr (l, i')" and "is_active l"
    and "envoy_bind_address i \<noteq> []"
  shows "wf_listener l"
proof -
  obtain l0 ok l1 where s: "listener_setup (l0, i) = Inr (ok, l1, i')" "l = set_active ok l1"
    using assms(1) by (auto simp: listener_init_def Let_def rbind_eq_Inr)
  then have "ok" using assms(2) by (simp add: is_active_def set_active_def)
  with s(1) have "listener_setup (l0, i) = Inr (True, l1, i')" by simp
  then have "wf_listener l1" using assms(3) by (rule listener_setup_wf)
  then show ?thesis unfolding s(2) by (simp add: wf_listener_def set_active_def stack_has_def)
qed

theorem active_listener_well_formed_witness:
  "\<exists>l i'. listener_init ''r'' ''l'' ''loc'' None [(''port'', PInt 80), (''protocol'', PStr ''HTTP''),
       (''securityModel'', PStr ''XFP''), (''hostBinding'', PDict [(''namespace'', PDict [(''from'', PStr ''ALL'')])])]
       demo_ir = Inr (l, i') \<and> socket_protocol l = ''TCP'' \<and> wf_listener l"
proof -
  let ?r = "listener_init ''r'' ''l'' ''loc'' None [(''port'', PInt 80), (''protocol'', PStr ''HTTP''),
       (''securityModel'', PStr ''XFP''), (''hostBinding'', PDict [(''namespace'', PDict [(''from'', PStr ''ALL'')])])]
       demo_ir"
  have "map_sum (\<lambda>_. ()) (\<lambda>(l, i). (is_active l, socket_protocol l)) ?r = Inr (True, ''TCP'')"
    by code_simp
  then obtain l i' where l: "?r = Inr (l, i')" "is_active l" "socket_protocol l = ''TCP''"
    by (cases ?r) auto
  have "envoy_bind_address demo_ir \<noteq> []" by (simp add: demo_ir_def)
  with active_listener_well_formed [OF l(1,2)] l show ?thesis by blast
qed

text \<open>
  C12: the store of listeners refines a map of addresses to listeners in which the first healthy
  listener stays: after saving any sequence of listeners, the healthy entries of the store are
  those of the map after the same insertions.
\<close>

theorem listeners_refine_first_wins:
  "healthy_view ir_bool (listeners (fold save_listener ls i)) =
     fold (first_wins bind_to ir_bool) ls (healthy_view ir_bool (listeners i))"
  by (rule lst.view_save_all)

text \<open>
  C26: when every TCP mapping group has a numeric port, finalizing the listeners returns, and then every TCP
  mapping group has a listener under the address it binds to.
\<close>

theorem tcp_groups_get_listeners:
  assumes "\<forall>g \<in> set gs. ir_kind g = ''IRTCPMappingGroup'' \<longrightarrow> num_of (rget g ''port'') \<noteq> None"
  shows "\<exists>i'. finalize_listeners gs i = Inr i' \<and>
     (\<forall>g \<in> set gs. ir_kind g = ''IRTCPMappingGroup'' \<longrightarrow> dhas (listeners i') (group_bind_to i g))"
  using finalize_listeners_binds [OF assms, of i] by blast

definition demo_tcp_group :: mgroup where
  "demo_tcp_group = \<lparr>ir_rkey = ''r'', ir_location = ''l'', ir_kind = ''IRTCPMappingGroup'', ir_name = ''g'',
     ir_namespace = ''n'', ir_labels = PNone, ir_active = True, ir_errored = False, ir_cache_key = None,
     ir_attrs = [(''port'', PInt 25)], mappings = [], group_weight = [PInt 0], host_redirect = None,
     shadows = []\<rparr>"

theorem tcp_groups_get_listeners_witness:
  "\<exists>i'. finalize_listeners [demo_tcp_group] demo_ir = Inr i' \<and> dhas (listeners i') ''tcp-0.0.0.0-25''"
proof -
  have "ir_kind demo_tcp_group = ''IRTCPMappingGroup''" by (simp add: demo_tcp_group_def)
  moreover have "group_bind_to demo_ir demo_tcp_group = ''tcp-0.0.0.0-25''" by code_simp
  moreover have "num_of (rget demo_tcp_group ''port'') \<noteq> None" by code_simp
  ultimately show ?thesis using tcp_groups_get_listeners [of "[demo_tcp_group]" demo_ir] by auto
qed

end
