(* ===== verification/Urls.thy ===== *)
theory Urls
  imports PyText
begin

text \<open>
  What the sources use of \<open>urllib.parse\<close> and \<open>ipaddress\<close>: \<open>urlsplit\<close> with the host and the port of
  its result, \<open>quote\<close> and \<open>unquote\<close>, and whether a text is an IP address. A string is the list of
  its UTF-8 bytes. \<open>ValueError\<close>s carry the message that the library gives, since the sources show
  it. The code only asks whether anything follows the host, so the path keeps its parameters.

  The lemmas: an authority made of a plain host and a port is read back as that host and port.
\<close>

section \<open>Splitting text\<close>

definition before :: "char \<Rightarrow> string \<Rightarrow> string" where
  "before c s = takeWhile (\<lambda>x. x \<noteq> c) s"

definition after :: "char \<Rightarrow> string \<Rightarrow> string" where
  "after c s = drop 1 (dropWhile (\<lambda>x. x \<noteq> c) s)"

definition after_last :: "char \<Rightarrow> string \<Rightarrow> string" where
  "after_last c s = rev (takeWhile (\<lambda>x. x \<noteq> c) (rev s))"

definition in_range :: "char \<Rightarrow> char \<Rightarrow> char \<Rightarrow> bool" where
  [simp]: "in_range l u c \<longleftrightarrow> l \<le> c \<and> c \<le> u"

definition is_alpha :: "char \<Rightarrow> bool" where
  "is_alpha c \<longleftrightarrow> in_range CHR ''a'' CHR ''z'' c \<or> in_range CHR ''A'' CHR ''Z'' c"

definition is_hex :: "char \<Rightarrow> bool" where
  "is_hex c \<longleftrightarrow> is_digit c \<or> CHR ''a'' \<le> c \<and> c \<le> CHR ''f'' \<or> CHR ''A'' \<le> c \<and> c \<le> CHR ''F''"

definition scheme_char :: "char \<Rightarrow> bool" where
  "scheme_char c \<longleftrightarrow> is_alpha c \<or> is_digit c \<or> c \<in> {CHR ''+'', CHR ''-'', CHR ''.''}"

section \<open>IP addresses\<close>

definition octet_ok :: "string \<Rightarrow> bool" where
  "octet_ok s \<longleftrightarrow> s \<noteq> [] \<and> list_all is_digit s \<and> length s \<le> 3 \<and>
     (s = ''0'' \<or> hd s \<noteq> CHR ''0'') \<and> nat_of_digits s \<le> 255"

definition ipv4_ok :: "string \<Rightarrow> bool" where
  "ipv4_ok s \<longleftrightarrow> CHR ''/'' \<notin> set s \<and> length (split_on CHR ''.'' s) = 4 \<and> list_all octet_ok (split_on CHR ''.'' s)"

definition hextet_ok :: "string \<Rightarrow> bool" where
  "hextet_ok s \<longleftrightarrow> s \<noteq> [] \<and> list_all is_hex s \<and> length s \<le> 4"

text \<open>The parts between the colons: a final dotted part counts as two.\<close>

definition ipv6_parts :: "string \<Rightarrow> string list option" where
  "ipv6_parts s =
     (let parts = split_on CHR '':'' s in
      if length parts < 3 then None
      else if CHR ''.'' \<in> set (last parts)
      then (if ipv4_ok (last parts) then Some (butlast parts @ [''0'', ''0'']) else None)
      else Some parts)"

definition ipv6_shape :: "string list \<Rightarrow> bool" where
  "ipv6_shape parts \<longleftrightarrow>
     (let n = length parts; skips = filter (\<lambda>k. parts ! k = []) [1..<n - 1] in
      n \<le> 9 \<and>
      (case skips of
         [] \<Rightarrow> n = 8 \<and> list_all hextet_ok parts
       | [k] \<Rightarrow>
           (let hi = (if parts ! 0 = [] then k - 1 else k);
                lo = (if last parts = [] then n - k - 2 else n - k - 1)
            in (parts ! 0 = [] \<longrightarrow> hi = 0) \<and> (last parts = [] \<longrightarrow> lo = 0) \<and> hi + lo < 8 \<and>
               list_all hextet_ok (take hi parts) \<and> list_all hextet_ok (drop (n - lo) parts))
       | _ \<Rightarrow> False))"

definition ipv6_ok :: "string \<Rightarrow> bool" where
  "ipv6_ok s \<longleftrightarrow>
     (let addr = before CHR ''%'' s; zone = after CHR ''%'' s in
      CHR ''/'' \<notin> set s \<and> (CHR ''%'' \<in> set s \<longrightarrow> zone \<noteq> [] \<and> CHR ''%'' \<notin> set zone) \<and>
      (case ipv6_parts addr of None \<Rightarrow> False | Some parts \<Rightarrow> ipv6_shape parts))"

definition is_ip_address :: "string \<Rightarrow> bool" where
  "is_ip_address s \<longleftrightarrow> ipv4_ok s \<or> ipv6_ok s"

section \<open>Splitting URLs\<close>

record url =
  u_scheme :: string
  u_netloc :: string
  u_path :: string
  u_query :: string
  u_fragment :: string

definition ip_future_ok :: "string \<Rightarrow> bool" where
  "ip_future_ok h \<longleftrightarrow>
     (let hex = takeWhile is_hex (drop 1 h); rest = dropWhile is_hex (drop 1 h)
      in hex \<noteq> [] \<and> startswith rest ''.'' \<and> length rest > 1)"

definition check_bracketed_host :: "string \<Rightarrow> unit res" where
  "check_bracketed_host h =
     (if startswith h ''v'' then (if ip_future_ok h then Inr () else Inl (ValueError ''IPvFuture address is invalid''))
      else if ipv4_ok h then Inl (ValueError ''An IPv4 address cannot be in brackets'')
      else if ipv6_ok h then Inr ()
      else Inl (ValueError (repr_str h @ '' does not appear to be an IPv4 or IPv6 address'')))"

definition check_bracketed_netloc :: "string \<Rightarrow> unit res" where
  "check_bracketed_netloc netloc =
     (let hp = after_last CHR ''@'' netloc in
      if CHR ''['' \<in> set hp then
        (let port = after CHR '']'' (after CHR ''['' hp) in
         if before CHR ''['' hp \<noteq> [] then Inl (ValueError ''Invalid IPv6 URL'')
         else if port \<noteq> [] \<and> \<not> startswith port '':'' then Inl (ValueError ''Invalid IPv6 URL'')
         else check_bracketed_host (before CHR '']'' (after CHR ''['' hp)))
      else check_bracketed_host (before CHR '':'' hp))"

definition clean_url :: "string \<Rightarrow> string" where
  "clean_url u = filter (\<lambda>c. c \<notin> {CHR 9, CHR 10, CHR 13}) (dropWhile (\<lambda>c. (of_char c :: nat) \<le> 32) u)"

definition split_scheme :: "string \<Rightarrow> string \<times> string" where
  "split_scheme u =
     (let s = before CHR '':'' u in
      if CHR '':'' \<in> set u \<and> s \<noteq> [] \<and> is_alpha (hd s) \<and> list_all scheme_char s
      then (str_lower s, after CHR '':'' u) else ([], u))"

definition ends_netloc :: "char \<Rightarrow> bool" where
  "ends_netloc c \<longleftrightarrow> c \<in> {CHR ''/'', CHR ''?'', CHR ''#''}"

definition check_netloc :: "string \<Rightarrow> unit res" where
  "check_netloc n =
     (if (CHR ''['' \<in> set n) \<noteq> (CHR '']'' \<in> set n) then Inl (ValueError ''Invalid IPv6 URL'')
      else if CHR ''['' \<in> set n then check_bracketed_netloc n
      else Inr ())"

definition urlsplit :: "string \<Rightarrow> url res" where
  "urlsplit u =
     (let (sch, rest) = split_scheme (clean_url u);
          netloc = (if startswith rest ''//'' then takeWhile (Not \<circ> ends_netloc) (drop 2 rest) else []);
          tail = (if startswith rest ''//'' then dropWhile (Not \<circ> ends_netloc) (drop 2 rest) else rest);
          front = before CHR ''#'' tail
      in rbind (check_netloc netloc) (\<lambda>_.
           Inr \<lparr>u_scheme = sch, u_netloc = netloc, u_path = before CHR ''?'' front,
                u_query = after CHR ''?'' front, u_fragment = after CHR ''#'' tail\<rparr>))"

definition hostinfo :: "url \<Rightarrow> string \<times> string" where
  "hostinfo u =
     (let h = after_last CHR ''@'' (u_netloc u) in
      if CHR ''['' \<in> set h
      then let b = after CHR ''['' h in (before CHR '']'' b, after CHR '':'' (after CHR '']'' b))
      else (before CHR '':'' h, after CHR '':'' h))"

definition url_hostname :: "url \<Rightarrow> string option" where
  "url_hostname u =
     (let h = fst (hostinfo u) in
      if h = [] then None
      else Some (str_lower (before CHR ''%'' h) @ dropWhile (\<lambda>x. x \<noteq> CHR ''%'') h))"

definition url_port :: "url \<Rightarrow> nat option res" where
  "url_port u =
     (let p = snd (hostinfo u) in
      if p = [] then Inr None
      else if \<not> list_all is_digit p
      then Inl (ValueError (''Port could not be cast to integer value as '' @ repr_str p))
      else if nat_of_digits p > 65535 then Inl (ValueError ''Port out of range 0-65535'')
      else Inr (Some (nat_of_digits p)))"

section \<open>Percent escapes\<close>

fun pct_seqs :: "string \<Rightarrow> string list" where
  "pct_seqs (c # a # b # s) = (if c = CHR ''%'' then [c, a, b] # pct_seqs s else pct_seqs (a # b # s))"
| "pct_seqs [c, a] = (if c = CHR ''%'' then [[c, a]] else pct_seqs [a])"
| "pct_seqs [c] = (if c = CHR ''%'' then [[c]] else [])"
| "pct_seqs [] = []"

definition hex_val :: "char \<Rightarrow> nat" where
  "hex_val c =
     (if is_digit c then digit_val c
      else if CHR ''a'' \<le> c then of_char c - of_char CHR ''a'' + 10
      else of_char c - of_char CHR ''A'' + 10)"

fun unquote :: "string \<Rightarrow> string" where
  "unquote (c # a # b # s) =
     (if c = CHR ''%'' \<and> is_hex a \<and> is_hex b then char_of (16 * hex_val a + hex_val b) # unquote s
      else c # unquote (a # b # s))"
| "unquote s = s"

definition hex_upper :: "nat \<Rightarrow> char" where
  "hex_upper n = (if n < 10 then digit_char n else char_of (n - 10 + of_char CHR ''A'' :: nat))"

definition quote :: "string \<Rightarrow> string \<Rightarrow> string" where
  "quote safe s =
     concat (map (\<lambda>c. if is_alpha c \<or> is_digit c \<or> c \<in> set ''_.-~'' \<or> c \<in> set safe then [c]
                      else [CHR ''%'', hex_upper (of_char c div 16), hex_upper (of_char c mod 16)]) s)"

section \<open>Plain authorities\<close>

definition plain_char :: "char \<Rightarrow> bool" where
  "plain_char c \<longleftrightarrow> CHR ''a'' \<le> c \<and> c \<le> CHR ''z'' \<or> is_digit c \<or> c \<in> {CHR ''-'', CHR ''.'', CHR ''_''}"

definition plain_host :: "string \<Rightarrow> bool" where
  "plain_host h \<longleftrightarrow> h \<noteq> [] \<and> list_all plain_char h"

definition port_text :: "nat option \<Rightarrow> string" where
  "port_text port = (case port of None \<Rightarrow> [] | Some p \<Rightarrow> '':'' @ str_nat p)"

definition plain_scheme :: "string \<Rightarrow> bool" where
  "plain_scheme s \<longleftrightarrow> s \<noteq> [] \<and> CHR ''a'' \<le> hd s \<and> hd s \<le> CHR ''z'' \<and>
     list_all (\<lambda>c. CHR ''a'' \<le> c \<and> c \<le> CHR ''z'' \<or> is_digit c \<or> c \<in> {CHR ''+'', CHR ''-'', CHR ''.''}) s"

lemma not_plain_char [simp]:
  "\<not> plain_char CHR ''%''" "\<not> plain_char CHR '':''" "\<not> plain_char CHR ''@''" "\<not> plain_char CHR ''[''"
  "\<not> plain_char CHR '']''" "\<not> plain_char CHR ''/''" "\<not> plain_char CHR ''?''" "\<not> plain_char CHR ''#''"
  "\<not> plain_char CHR 9" "\<not> plain_char CHR 10" "\<not> plain_char CHR 13"
  by code_simp+

lemma plain_char_other [simp]:
  assumes "plain_char c"
  shows "\<not> ends_netloc c" "char_lower c = c" "\<not> (of_char c :: nat) \<le> 32"
  using assms
  by (auto simp: ends_netloc_def char_lower_def plain_char_def is_digit_def less_eq_char_def)

lemma no_char_split:
  "c \<notin> set s \<Longrightarrow> before c s = s" "c \<notin> set s \<Longrightarrow> after c s = []" "c \<notin> set s \<Longrightarrow> after_last c s = s"
  "c \<notin> set a \<Longrightarrow> before c (a @ c # b) = a" "c \<notin> set a \<Longrightarrow> after c (a @ c # b) = b"
proof -
  have tw: "takeWhile (\<lambda>x. x \<noteq> c) t = t" "dropWhile (\<lambda>x. x \<noteq> c) t = []" if "c \<notin> set t" for t
    using that by (auto simp: takeWhile_eq_all_conv dropWhile_eq_Nil_conv)
  show "before c s = s" "after c s = []" "after_last c s = s" if "c \<notin> set s"
    using that by (simp_all add: before_def after_def after_last_def tw)
  show "before c (a @ c # b) = a" "after c (a @ c # b) = b" if "c \<notin> set a"
    using that by (auto simp: before_def after_def takeWhile_append dropWhile_append)
qed

lemma pct_seqs_plain: "CHR ''%'' \<notin> set s \<Longrightarrow> pct_seqs s = []"
  by (induction s rule: pct_seqs.induct) auto

lemma unquote_plain: "CHR ''%'' \<notin> set s \<Longrightarrow> unquote s = s"
  by (induction s rule: unquote.induct) auto

lemma quote_plain: "list_all plain_char s \<Longrightarrow> quote safe s = s"
  by (induction s) (auto simp: quote_def plain_char_def is_alpha_def)

lemma plain_host_no: "plain_host h \<Longrightarrow> \<not> plain_char c \<Longrightarrow> c \<notin> set h"
  by (auto simp: plain_host_def list_all_iff)

lemma str_nat_plain: "list_all plain_char (str_nat p)"
  using str_nat_digits by (fastforce simp: list_all_iff plain_char_def)

definition authority_char :: "char \<Rightarrow> bool" where
  "authority_char c \<longleftrightarrow> plain_char c \<or> c = CHR '':''"

lemma authority_text:
  "plain_host h \<Longrightarrow> list_all authority_char (h @ port_text port)"
  using str_nat_plain by (auto simp: plain_host_def port_text_def authority_char_def list_all_iff split: option.split)

lemma not_authority_char [simp]:
  "\<not> authority_char CHR ''@''" "\<not> authority_char CHR ''[''" "\<not> authority_char CHR '']''"
  "\<not> authority_char CHR 9" "\<not> authority_char CHR 10" "\<not> authority_char CHR 13"
  by (simp_all add: authority_char_def)

lemma authority_char_other [simp]:
  assumes "authority_char c"
  shows "\<not> ends_netloc c" "\<not> (of_char c :: nat) \<le> 32"
  using assms by (auto simp: authority_char_def ends_netloc_def)

lemma plain_scheme_chars:
  assumes "plain_scheme s" and "c \<in> set s"
  shows "scheme_char c" "c \<noteq> CHR '':''" "char_lower c = c" "\<not> (of_char c :: nat) \<le> 32"
    "c \<noteq> CHR 9" "c \<noteq> CHR 10" "c \<noteq> CHR 13"
  using assms
  by (auto simp: plain_scheme_def list_all_iff scheme_char_def is_alpha_def is_digit_def char_lower_def less_eq_char_def)

definition with_scheme :: "string \<Rightarrow> string \<Rightarrow> string" where
  "with_scheme sch a = (if sch = [] then ''//'' @ a else sch @ ''://'' @ a)"

lemma split_plain_scheme:
  assumes "sch = [] \<or> plain_scheme sch"
  shows "split_scheme (with_scheme sch a) = (sch, ''//'' @ a)"
proof (cases "sch = []")
  case True
  have "before CHR '':'' (''//'' @ a) = CHR ''/'' # CHR ''/'' # before CHR '':'' a" by (simp add: before_def)
  with True show ?thesis by (simp add: split_scheme_def with_scheme_def Let_def is_alpha_def less_eq_char_def)
next
  case False
  then have p: "plain_scheme sch" using assms by simp
  then have c: "CHR '':'' \<notin> set sch" using plain_scheme_chars(2) by blast
  have "with_scheme sch a = sch @ CHR '':'' # (''//'' @ a)" using False by (simp add: with_scheme_def)
  moreover have "is_alpha (hd sch)" using p by (simp add: plain_scheme_def is_alpha_def)
  moreover have "list_all scheme_char sch" using plain_scheme_chars(1) [OF p] by (simp add: list_all_iff)
  moreover have "str_lower sch = sch"
    using plain_scheme_chars(3) [OF p] by (simp add: str_lower_def map_idI)
  ultimately show ?thesis using False no_char_split(4,5) [OF c] by (simp add: split_scheme_def Let_def)
qed

lemma clean_plain:
  assumes "sch = [] \<or> plain_scheme sch" and "list_all authority_char a"
  shows "clean_url (with_scheme sch a) = with_scheme sch a"
proof -
  have ok: "\<not> (of_char c :: nat) \<le> 32 \<and> c \<notin> {CHR 9, CHR 10, CHR 13}" if "c \<in> set (with_scheme sch a)" for c
    using that assms plain_scheme_chars(4-7) [of sch c] authority_char_other [of c]
    by (auto simp: with_scheme_def list_all_iff split: if_splits)
  then have "dropWhile (\<lambda>c. (of_char c :: nat) \<le> 32) (with_scheme sch a) = with_scheme sch a"
    by (cases "with_scheme sch a") auto
  with ok show ?thesis by (simp add: clean_url_def filter_id_conv)
qed

lemma urlsplit_plain:
  assumes "sch = [] \<or> plain_scheme sch" and "list_all authority_char a"
  shows "urlsplit (with_scheme sch a) =
    Inr \<lparr>u_scheme = sch, u_netloc = a, u_path = [], u_query = [], u_fragment = []\<rparr>"
proof -
  have tw: "takeWhile (Not \<circ> ends_netloc) a = a" "dropWhile (Not \<circ> ends_netloc) a = []"
    using assms(2) by (simp_all add: takeWhile_eq_all_conv dropWhile_eq_Nil_conv list_all_iff)
  have no: "CHR ''['' \<notin> set a" "CHR '']'' \<notin> set a" using assms(2) by (auto simp: list_all_iff)
  show ?thesis
    by (simp add: urlsplit_def clean_plain [OF assms] split_plain_scheme [OF assms(1)] startswith_def
      check_netloc_def no_char_split Let_def tw no)
qed

lemma hostinfo_plain:
  assumes "plain_host h"
  shows "hostinfo \<lparr>u_scheme = s, u_netloc = h @ port_text port, u_path = p, u_query = q, u_fragment = f\<rparr> =
    (h, case port of None \<Rightarrow> [] | Some n \<Rightarrow> str_nat n)"
proof -
  let ?a = "h @ port_text port"
  have a: "list_all authority_char ?a" using assms by (rule authority_text)
  have no: "c \<notin> set ?a" if "\<not> authority_char c" for c using a that unfolding list_all_iff by blast
  have c: "CHR '':'' \<notin> set h" using assms by (auto simp: plain_host_def list_all_iff)
  show ?thesis
    using no [of "CHR ''[''"] no_char_split(1,2,4,5) [OF c]
    unfolding hostinfo_def Let_def url.simps no_char_split(3) [OF no [OF not_authority_char(1)]]
    by (auto simp: port_text_def split: option.split)
qed

lemma parse_plain:
  assumes "plain_host h" and "\<And>p. port = Some p \<Longrightarrow> p \<le> 65535"
    and u_def: "u = \<lparr>u_scheme = s, u_netloc = h @ port_text port, u_path = pa, u_query = q, u_fragment = f\<rparr>"
  shows "url_hostname u = Some h" "url_port u = Inr port"
proof -
  have p: "CHR ''%'' \<notin> set h" using assms(1) by (auto simp: plain_host_def list_all_iff)
  have "str_lower h = h" using assms(1) by (auto simp: plain_host_def list_all_iff str_lower_def intro: map_idI)
  moreover have d: "dropWhile (\<lambda>x. x \<noteq> CHR ''%'') h = []" using p by (auto simp: dropWhile_eq_Nil_conv)
  moreover have "h \<noteq> []" using assms(1) by (simp add: plain_host_def)
  ultimately show "url_hostname u = Some h"
    by (simp add: url_hostname_def u_def Let_def d hostinfo_plain [OF assms(1)] no_char_split(1) [OF p])
  have "list_all is_digit (str_nat n)" for n using str_nat_digits by (simp add: list_all_iff)
  then show "url_port u = Inr port"
    using hostinfo_plain [OF assms(1)] assms(2) by (cases port) (auto simp: url_port_def u_def Let_def)
qed

end
