(* ===== verification/Service.thy ===== *)
theory Service
  imports Urls IRRes
begin

text \<open>
  Service names: \<open>would_confuse_urlparse\<close> and \<open>normalize_service_name\<close> of \<open>ir/irbasemapping.py\<close>, and
  \<open>ParsedService\<close> of \<open>utils.py\<close>.

  The lemmas: a service written from a scheme, a plain host name and a port is read back as such,
  so that normalizing it only qualifies the host, and a second normalization changes nothing.
\<close>

section \<open>Normalizing a service name\<close>

definition would_confuse_urlparse :: "string \<Rightarrow> bool" where
  "would_confuse_urlparse url \<longleftrightarrow>
     (if CHR '':'' \<in> set url \<and> before CHR '':'' url \<noteq> [] \<and> startswith (dropWhile scheme_char url) ''://'' then False
      else \<not> startswith url ''//'')"

definition bad_escape :: "string \<Rightarrow> bool" where
  "bad_escape seq \<longleftrightarrow> \<not> (length seq = 3 \<and> list_all is_hex (drop 1 seq))"

definition parse_service :: "string \<Rightarrow> (string \<times> string \<times> nat option) res" where
  "parse_service in_service =
     rbind (urlsplit (if would_confuse_urlparse in_service then ''//'' @ in_service else in_service)) (\<lambda>parsed.
       case url_hostname parsed of
         None \<Rightarrow> Inl (ValueError ''No hostname'')
       | Some h \<Rightarrow>
           (case filter bad_escape (pct_seqs h) of
              seq # _ \<Rightarrow> Inl (ValueError (''Invalid percent-escape in hostname: '' @ seq))
            | [] \<Rightarrow> rbind (url_port parsed) (\<lambda>port. Inr (u_scheme parsed, unquote h, port))))"

definition is_qualified :: "string \<Rightarrow> bool" where
  "is_qualified hostname \<longleftrightarrow> CHR ''.'' \<in> set hostname \<or> CHR '':'' \<in> set hostname \<or> hostname = ''localhost''"

definition want_qualified :: "ir \<Rightarrow> string \<Rightarrow> bool" where
  "want_qualified i resolver_kind \<longleftrightarrow>
     \<not> truthy (pget (ambassador_module i) ''use_ambassador_namespace_for_service_resolution'') \<and>
     startswith resolver_kind ''Kubernetes''"

definition qualify :: "ir \<Rightarrow> string option \<Rightarrow> string \<Rightarrow> string \<Rightarrow> string" where
  "qualify i mapping_namespace resolver_kind hostname =
     (if mapping_namespace \<noteq> None \<and> mapping_namespace \<noteq> Some [] \<and>
         mapping_namespace \<noteq> Some (ambassador_namespace (ir_settings i)) \<and>
         want_qualified i resolver_kind \<and> \<not> is_qualified hostname
      then hostname @ ''.'' @ the mapping_namespace else hostname)"

definition host_safe :: string where
  "host_safe = ''!$&'' @ [CHR 39] @ ''()*+,;=:[]<>'' @ [CHR 34]"

definition out_service :: "string \<Rightarrow> string \<Rightarrow> nat option \<Rightarrow> string" where
  "out_service scheme hostname port =
     (let q = quote host_safe hostname;
          b = (if CHR '':'' \<in> set q then ''['' @ q @ '']'' else q);
          s = (if scheme \<noteq> [] then scheme @ ''://'' @ b else b)
      in case port of
           None \<Rightarrow> s
         | Some p \<Rightarrow> if p = 0 then s else s @ '':'' @ str_nat p)"

definition error_text :: "py_error \<Rightarrow> string" where
  "error_text e = (case e of ValueError m \<Rightarrow> m | _ \<Rightarrow> [])"

definition normalize_service_name ::
  "ir \<Rightarrow> string \<Rightarrow> string option \<Rightarrow> string \<Rightarrow> string option \<Rightarrow> string \<times> ir" where
  "normalize_service_name i in_service mapping_namespace resolver_kind rkey =
     (case parse_service in_service of
        Inl e \<Rightarrow>
          (let errstr = ''Malformed service '' @ repr_str in_service @ '': '' @ error_text e
           in (in_service,
               ir_post_error (case rkey of None \<Rightarrow> errstr | Some k \<Rightarrow> if k = [] then errstr else k @ '': '' @ errstr)
                 NoResource i))
      | Inr (scheme, hostname, port) \<Rightarrow>
          (out_service scheme (qualify i mapping_namespace resolver_kind hostname) port, i))"

section \<open>Parsed services\<close>

record parsed_service =
  ps_scheme :: string
  ps_errors :: "string list"
  ps_name_fields :: "string list"
  ps_ctx_name :: "string option"
  ps_hostname :: "string option"
  ps_port :: nat
  ps_hostname_port :: string

fun find_sub :: "string \<Rightarrow> string \<Rightarrow> nat option" where
  "find_sub p [] = (if p = [] then Some 0 else None)"
| "find_sub p (c # s) = (if startswith (c # s) p then Some 0 else map_option Suc (find_sub p s))"

text \<open>The leading scheme: the rest, whether TLS is originated, the fields of the name, the errors.\<close>

definition service_scheme ::
  "bool \<Rightarrow> string option \<Rightarrow> string \<Rightarrow> string \<times> bool \<times> string list \<times> string list" where
  "service_scheme allow_scheme ctx_name service =
     (let ctx = (if ctx_name = Some [] then None else ctx_name) in
      if allow_scheme \<and> startswith (str_lower service) ''https://''
      then (drop 8 service, True, [''otls''], [])
      else if allow_scheme \<and> startswith (str_lower service) ''http://''
      then let rest = drop 7 service in
           (case ctx of
              Some c \<Rightarrow> (rest, True, [''otls''],
                [''Originate-TLS context '' @ c @ '' being used even though service '' @ rest @ '' lists HTTP''])
            | None \<Rightarrow> (rest, False, [], []))
      else (case ctx of
              Some c \<Rightarrow> (service, True, [''otls'', c], [])
            | None \<Rightarrow> (service, False, [], [])))"

definition unknown_scheme :: "bool \<Rightarrow> string \<Rightarrow> string \<times> string list" where
  "unknown_scheme allow_scheme service =
     (case find_sub ''://'' service of
        None \<Rightarrow> (service, [])
      | Some idx \<Rightarrow>
          (drop (idx + 3) service,
           [if allow_scheme
            then ''service '' @ service @ '' has unknown scheme '' @ take idx service @ '', assuming http''
            else ''ignoring scheme '' @ take idx service @ '' for service '' @ service @
                 '', since it is being used for a non-HTTP mapping'']))"

definition opt_text :: "string option \<Rightarrow> string" where
  "opt_text v = (case v of None \<Rightarrow> ''None'' | Some s \<Rightarrow> s)"

definition parsed_service :: "string \<Rightarrow> bool \<Rightarrow> string option \<Rightarrow> parsed_service res" where
  "parsed_service service0 allow_scheme ctx_name =
     (let (service1, originate_tls, fields, errs1) = service_scheme allow_scheme ctx_name service0;
          (service, errs2) = unknown_scheme allow_scheme service1
      in rbind (urlsplit (''random://'' @ service)) (\<lambda>p.
           let errs3 = (if u_path p \<noteq> [] \<or> u_query p \<noteq> [] \<or> u_fragment p \<noteq> []
                        then [''service '' @ service @ '' has extra URL components; ignoring everything but the host and port'']
                        else []);
               (port0, errs4) = (case url_port p of
                   Inl e \<Rightarrow> (0, [''found invalid port for service '' @ service @
                      ''. Please specify a valid port between 0 and 65535 - '' @ error_text e @ ''. Service '' @ service @
                      '' cluster will be ignored, please re-configure''])
                 | Inr None \<Rightarrow> (0, [])
                 | Inr (Some n) \<Rightarrow> (n, []));
               port = (if port0 = 0 then if originate_tls then 443 else 80 else port0)
           in Inr \<lparr>ps_scheme = ''http'', ps_errors = errs1 @ errs2 @ errs3 @ errs4, ps_name_fields = fields,
                   ps_ctx_name = ctx_name, ps_hostname = url_hostname p, ps_port = port,
                   ps_hostname_port = opt_text (url_hostname p) @ '':'' @ str_nat port\<rparr>))"

section \<open>Services with plain host names\<close>

definition render_service :: "string \<Rightarrow> string \<Rightarrow> nat option \<Rightarrow> string" where
  "render_service sch h port = (if sch = [] then h else sch @ ''://'' @ h) @ port_text port"

definition good_port :: "nat option \<Rightarrow> bool" where
  "good_port port \<longleftrightarrow> (case port of None \<Rightarrow> True | Some p \<Rightarrow> 0 < p \<and> p \<le> 65535)"

lemma authority_no_slash: "plain_host h \<Longrightarrow> CHR ''/'' \<notin> set (h @ port_text port)"
proof
  assume "plain_host h" and "CHR ''/'' \<in> set (h @ port_text port)"
  with authority_text [of h port] have "authority_char CHR ''/''" by (simp only: list_all_iff)
  then show False by (simp add: authority_char_def)
qed

lemma startswith_set: "startswith s p \<Longrightarrow> set p \<subseteq> set s"
  by (simp add: startswith_def set_mono_prefix)

lemma service_url:
  assumes "plain_host h" and "sch = [] \<or> plain_scheme sch"
  shows "(if would_confuse_urlparse (render_service sch h port) then ''//'' @ render_service sch h port
          else render_service sch h port) = with_scheme sch (h @ port_text port)"
proof (cases "sch = []")
  case True
  have no: "CHR ''/'' \<notin> set (h @ port_text port)" by (rule authority_no_slash [OF assms(1)])
  have "\<not> startswith (dropWhile scheme_char (h @ port_text port)) ''://''"
    using no startswith_set set_dropWhileD by fastforce
  moreover have "\<not> startswith (h @ port_text port) ''//''" using no startswith_set by fastforce
  ultimately show ?thesis
    using True by (simp add: would_confuse_urlparse_def render_service_def with_scheme_def)
next
  case False
  then have p: "plain_scheme sch" using assms(2) by simp
  let ?r = "''//'' @ h @ port_text port"
  have r: "render_service sch h port = sch @ CHR '':'' # ?r" using False by (simp add: render_service_def)
  have "dropWhile scheme_char (sch @ CHR '':'' # ?r) = CHR '':'' # ?r"
    using plain_scheme_chars(1) [OF p]
    by (subst dropWhile_append2) (simp_all add: scheme_char_def is_alpha_def is_digit_def less_eq_char_def)
  moreover have "before CHR '':'' (sch @ CHR '':'' # ?r) = sch"
    using plain_scheme_chars(2) [OF p] by (intro no_char_split(4)) blast
  ultimately have "\<not> would_confuse_urlparse (render_service sch h port)"
    using False by (simp add: r would_confuse_urlparse_def startswith_def)
  then show ?thesis using False by (simp add: r with_scheme_def)
qed

lemma parse_service_plain:
  assumes "plain_host h" and "sch = [] \<or> plain_scheme sch" and "good_port port"
  shows "parse_service (render_service sch h port) = Inr (sch, h, port)"
proof -
  have u: "urlsplit (with_scheme sch (h @ port_text port)) =
      Inr \<lparr>u_scheme = sch, u_netloc = h @ port_text port, u_path = [], u_query = [], u_fragment = []\<rparr>"
    using assms by (intro urlsplit_plain authority_text)
  have pct: "CHR ''%'' \<notin> set h" using assms(1) by (auto simp: plain_host_def list_all_iff)
  have "p \<le> 65535" if "port = Some p" for p using that assms(3) by (simp add: good_port_def)
  note h = parse_plain [OF assms(1) this refl]
  show ?thesis
    unfolding parse_service_def service_url [OF assms(1,2)] u
    by (simp add: h pct_seqs_plain [OF pct] unquote_plain [OF pct])
qed

lemma out_service_plain:
  assumes "plain_host h" and "good_port port"
  shows "out_service sch h port = render_service sch h port"
proof -
  have "quote host_safe h = h" using assms(1) by (simp add: quote_plain plain_host_def)
  moreover have "CHR '':'' \<notin> set h" using assms(1) by (auto simp: plain_host_def list_all_iff)
  ultimately show ?thesis
    using assms(2) by (auto simp: out_service_def render_service_def good_port_def port_text_def Let_def split: option.split)
qed

lemma qualify_plain: "plain_host h \<Longrightarrow> \<forall>n. ns = Some n \<longrightarrow> list_all plain_char n \<Longrightarrow> plain_host (qualify i ns kind h)"
  by (cases ns) (auto simp: qualify_def plain_host_def plain_char_def)

lemma qualify_idem: "qualify i ns kind (qualify i ns kind h) = qualify i ns kind h"
  by (simp add: qualify_def is_qualified_def)

lemma normalize_plain:
  assumes "plain_host h" and "sch = [] \<or> plain_scheme sch" and "good_port port"
    and "\<forall>n. ns = Some n \<longrightarrow> list_all plain_char n"
  shows "normalize_service_name i (render_service sch h port) ns kind rkey =
    (render_service sch (qualify i ns kind h) port, i)"
  using assms by (simp add: normalize_service_name_def parse_service_plain out_service_plain qualify_plain)

section \<open>Malformed services\<close>

text \<open>The authority of a service, where only one kind of bracket is a syntax error.\<close>

definition service_authority :: "string \<Rightarrow> string" where
  "service_authority s = takeWhile (Not \<circ> ends_netloc) s"

definition unbalanced :: "string \<Rightarrow> bool" where
  "unbalanced a \<longleftrightarrow> (CHR ''['' \<in> set a) \<noteq> (CHR '']'' \<in> set a)"

lemma takeWhile_filter:
  assumes "\<And>c. \<not> P c \<Longrightarrow> Q c"
  shows "takeWhile Q (filter P s) = filter P (takeWhile Q s)"
  using assms by (induction s) auto

lemma clean_rest:
  assumes "sch = [] \<or> plain_scheme sch"
  shows "clean_url (with_scheme sch a) = with_scheme sch (filter (\<lambda>c. c \<notin> {CHR 9, CHR 10, CHR 13}) a)"
proof -
  have w: "with_scheme sch b = with_scheme sch [] @ b" for b by (simp add: with_scheme_def)
  have "CHR ''/'' \<in> set (with_scheme sch [])" by (simp add: with_scheme_def)
  then have "clean_url (with_scheme sch [] @ a) =
      clean_url (with_scheme sch []) @ filter (\<lambda>c. c \<notin> {CHR 9, CHR 10, CHR 13}) a"
    by (simp add: clean_url_def dropWhile_append1)
  then show ?thesis using clean_plain [OF assms, of "[]"] w [of a] w [of "filter _ a"] by simp
qed

lemma unbalanced_urlsplit:
  assumes "unbalanced (service_authority a)" and "sch = [] \<or> plain_scheme sch"
  shows "urlsplit (with_scheme sch a) = Inl (ValueError ''Invalid IPv6 URL'')"
proof -
  let ?ok = "\<lambda>c. c \<notin> {CHR 9, CHR 10, CHR 13}"
  have "takeWhile (Not \<circ> ends_netloc) (filter ?ok a) = filter ?ok (service_authority a)"
    unfolding service_authority_def by (rule takeWhile_filter) (auto simp: ends_netloc_def)
  then have "check_netloc (takeWhile (Not \<circ> ends_netloc) (filter ?ok a)) = Inl (ValueError ''Invalid IPv6 URL'')"
    using assms(1) by (simp add: check_netloc_def unbalanced_def)
  then show ?thesis
    unfolding urlsplit_def clean_rest [OF assms(2)] split_plain_scheme [OF assms(2)]
    by (simp add: startswith_def Let_def)
qed

lemma find_sub_append: "p \<noteq> [] \<Longrightarrow> find_sub p (a @ p @ b) \<noteq> None"
proof (induction a)
  case Nil
  then show ?case by (cases p) (simp_all add: startswith_def)
qed simp

lemma find_sub_none:
  assumes "find_sub p s = None" and "p \<noteq> []"
  shows "\<not> startswith (dropWhile P s) p"
proof
  assume "startswith (dropWhile P s) p"
  then obtain b where "dropWhile P s = p @ b" by (auto simp: startswith_def prefix_def)
  then have "s = takeWhile P s @ p @ b" by (metis takeWhile_dropWhile_id)
  then have "find_sub p s \<noteq> None" using find_sub_append [OF assms(2)] by metis
  with assms(1) show False by simp
qed

lemma char_lower_other:
  assumes "char_lower c = d" and "(of_char d :: nat) < 65"
  shows "c = d"
proof (rule ccontr)
  assume "c \<noteq> d"
  then have c: "65 \<le> (of_char c :: nat) \<and> (of_char c :: nat) \<le> 90" and d: "d = char_of (of_char c + 32 :: nat)"
    using assms(1) by (simp_all add: char_lower_def less_eq_char_def split: if_splits)
  have "(of_char d :: nat) = of_char c + 32" using c by (simp add: d)
  with c assms(2) show False by linarith
qed

lemma lower_sign: "map char_lower x = ''://'' \<Longrightarrow> x = ''://''"
proof -
  assume "map char_lower x = ''://''"
  then obtain c d e where "x = [c, d, e]" "char_lower c = CHR '':''" "char_lower d = CHR ''/''" "char_lower e = CHR ''/''"
    by (auto simp: map_eq_Cons_conv)
  then show ?thesis
    using char_lower_other [of c "CHR '':''"] char_lower_other [of d "CHR ''/''"] char_lower_other [of e "CHR ''/''"] by simp
qed

lemma map_part: "map f s = w @ p @ b \<Longrightarrow> \<exists>s1 s2 s3. s = s1 @ s2 @ s3 \<and> map f s2 = p"
  by (rule exI [of _ "take (length w) s"], rule exI [of _ "take (length p) (drop (length w) s)"],
      rule exI [of _ "drop (length p) (drop (length w) s)"])
    (simp add: take_map [symmetric] drop_map [symmetric] del: drop_drop)

lemma lower_no_scheme:
  assumes "find_sub ''://'' s = None"
  shows "\<not> startswith (str_lower s) (w @ ''://'')"
proof
  assume "startswith (str_lower s) (w @ ''://'')"
  then obtain b where "map char_lower s = w @ ''://'' @ b" by (auto simp: startswith_def prefix_def str_lower_def)
  from map_part [OF this] obtain s1 s2 s3 where s: "s = s1 @ s2 @ s3" "map char_lower s2 = ''://''"
    by (elim exE conjE)
  have "s = s1 @ ''://'' @ s3" unfolding s(1) lower_sign [OF s(2)] ..
  moreover have "find_sub ''://'' (s1 @ ''://'' @ s3) \<noteq> None" by (rule find_sub_append) simp
  ultimately show False using assms by (simp only: not_True_eq_False)
qed

lemma no_scheme_kept:
  assumes "find_sub ''://'' s = None"
  shows "\<exists>b fs es. service_scheme allow ctx s = (s, b, fs, es)" "unknown_scheme allow s = (s, [])"
proof -
  have "\<not> startswith (str_lower s) ''https://''" "\<not> startswith (str_lower s) ''http://''"
    using lower_no_scheme [OF assms, of "''https''"] lower_no_scheme [OF assms, of "''http''"] by simp_all
  then show "\<exists>b fs es. service_scheme allow ctx s = (s, b, fs, es)"
    by (auto simp: service_scheme_def Let_def split: option.split)
  show "unknown_scheme allow s = (s, [])" using assms by (simp add: unknown_scheme_def)
qed

section \<open>Properties\<close>

text \<open>
  C5: normalizing a service that is written as an optional scheme, a plain host name and an
  optional port keeps the scheme and the port, qualifies the host name with the namespace of the
  mapping where that is wanted, posts no error, and leaves a normalized service as it is.
\<close>

theorem normalize_service_plain:
  assumes "plain_host h" and "sch = [] \<or> plain_scheme sch" and "good_port port"
    and "\<forall>n. ns = Some n \<longrightarrow> list_all plain_char n"
    and "s = render_service sch (qualify i ns kind h) port"
  shows "normalize_service_name i (render_service sch h port) ns kind rkey = (s, i) \<and>
    normalize_service_name i s ns kind rkey = (s, i)"
proof
  show "normalize_service_name i (render_service sch h port) ns kind rkey = (s, i)"
    unfolding assms(5) using assms(1-4) by (rule normalize_plain)
  have "plain_host (qualify i ns kind h)" using assms(1,4) by (rule qualify_plain)
  then show "normalize_service_name i s ns kind rkey = (s, i)"
    using normalize_plain [of "qualify i ns kind h" sch port ns i kind rkey] assms(2-4)
    unfolding assms(5) qualify_idem by simp
qed

theorem normalize_service_plain_witness:
  "normalize_service_name demo_ir ''https://quote:25'' (Some ''team'') ''KubernetesServiceResolver'' None =
     (''https://quote.team:25'', demo_ir) \<and>
   normalize_service_name demo_ir ''https://quote.team:25'' (Some ''team'') ''KubernetesServiceResolver'' None =
     (''https://quote.team:25'', demo_ir)"
proof -
  have h: "plain_host ''quote''" "plain_scheme ''https''" "list_all plain_char ''team''" by code_simp+
  have p: "good_port (Some 25)" by (simp add: good_port_def)
  have r: "render_service ''https'' ''quote'' (Some 25) = ''https://quote:25''" by code_simp
  have s: "''https://quote.team:25'' =
      render_service ''https'' (qualify demo_ir (Some ''team'') ''KubernetesServiceResolver'' ''quote'') (Some 25)"
    by code_simp
  have n: "\<forall>n. Some ''team'' = Some n \<longrightarrow> list_all plain_char n" using h(3) by simp
  from normalize_service_plain [OF h(1) disjI2 [OF h(2)] p n s] show ?thesis
    unfolding r .
qed

text \<open>
  C39: a service without a scheme, whose authority (what comes before the first slash, question
  mark or hash) has an opening bracket and no closing one, or a closing one and no opening one, is
  reported as malformed and handed on as it is by the normalization, and building the parsed
  service from it then raises a ValueError. An IPv6 literal that is not closed is such a service.
\<close>

theorem unbalanced_bracket_raises:
  assumes "unbalanced (service_authority s)" and "find_sub ''://'' s = None" and "\<not> startswith s ''//''"
  shows "fst (normalize_service_name i s ns kind rkey) = s \<and>
    (\<exists>msg. snd (normalize_service_name i s ns kind rkey) = ir_post_error msg NoResource i) \<and>
    parsed_service s allow ctx = Inl (ValueError ''Invalid IPv6 URL'')"
proof -
  have "would_confuse_urlparse s"
    using find_sub_none [OF assms(2)] assms(3) by (simp add: would_confuse_urlparse_def)
  then have p: "parse_service s = Inl (ValueError ''Invalid IPv6 URL'')"
    using unbalanced_urlsplit [OF assms(1), of "[]"] by (simp add: parse_service_def with_scheme_def)
  obtain b fs es where 1: "service_scheme allow ctx s = (s, b, fs, es)"
    using no_scheme_kept(1) [OF assms(2)] by blast
  have "plain_scheme ''random''" by code_simp
  then have "urlsplit (''random://'' @ s) = Inl (ValueError ''Invalid IPv6 URL'')"
    using unbalanced_urlsplit [OF assms(1), of "''random''"] by (simp add: with_scheme_def)
  then have "parsed_service s allow ctx = Inl (ValueError ''Invalid IPv6 URL'')"
    unfolding parsed_service_def 1 by (simp add: no_scheme_kept(2) [OF assms(2)])
  with p show ?thesis by (auto simp: normalize_service_name_def Let_def)
qed

theorem unbalanced_bracket_raises_witness:
  "parsed_service ''[::1:8080'' True None = Inl (ValueError ''Invalid IPv6 URL'') \<and>
   parsed_service ''foo]/x'' False None = Inl (ValueError ''Invalid IPv6 URL'')"
proof -
  have "unbalanced (service_authority ''[::1:8080'')" "find_sub ''://'' ''[::1:8080'' = None" "\<not> startswith ''[::1:8080'' ''//''"
    "unbalanced (service_authority ''foo]/x'')" "find_sub ''://'' ''foo]/x'' = None" "\<not> startswith ''foo]/x'' ''//''"
    by code_simp+
  then show ?thesis
    using unbalanced_bracket_raises [of "''[::1:8080''"] unbalanced_bracket_raises [of "''foo]/x''"] by blast
qed

end
