(* ===== verification/MapGroup.thy ===== *)
theory MapGroup
  imports IRRes "HOL-Library.Multiset"
begin

text \<open>
  Mapping groups: \<open>ir/irbasemappinggroup.py\<close>, and the construction and growth of the groups of
  \<open>ir/irhttpmappinggroup.py\<close> and \<open>ir/irtcpmappinggroup.py\<close>. A group and its mappings are
  references into the heaps of the IR.

  The lemmas: normalizing the weights of a group keeps its mappings, orders those with a weight
  before the others, gives rising weights and ends at 100 when a mapping has no weight of its own.
\<close>

section \<open>Objects of the heaps\<close>

abbreviation map_at :: "ir \<Rightarrow> nat \<Rightarrow> mapping" where
  "map_at i m \<equiv> maps i ! m"

abbreviation grp_at :: "ir \<Rightarrow> nat \<Rightarrow> mgroup" where
  "grp_at i g \<equiv> grps i ! g"

definition upd_map :: "nat \<Rightarrow> (mapping \<Rightarrow> mapping) \<Rightarrow> ir \<Rightarrow> ir" where
  "upd_map m f i = i\<lparr>maps := (maps i)[m := f (map_at i m)]\<rparr>"

definition upd_grp :: "nat \<Rightarrow> (mgroup \<Rightarrow> mgroup) \<Rightarrow> ir \<Rightarrow> ir" where
  "upd_grp g f i = i\<lparr>grps := (grps i)[g := f (grp_at i g)]\<rparr>"

definition grp_post_error :: "string \<Rightarrow> nat \<Rightarrow> ir \<Rightarrow> ir" where
  "grp_post_error msg g i =
     (let (gr, i1) = res_post_error msg (grp_at i g, i) in upd_grp g (\<lambda>_. gr) i1)"

lemma upd_map_simps [simp]:
  "grps (upd_map m f i) = grps i" "length (maps (upd_map m f i)) = length (maps i)"
  "groups (upd_map m f i) = groups i" "ir_cache (upd_map m f i) = ir_cache i"
  "use_cache (upd_map m f i) = use_cache i"
  by (simp_all add: upd_map_def)

lemma upd_grp_simps [simp]:
  "maps (upd_grp g f i) = maps i" "length (grps (upd_grp g f i)) = length (grps i)"
  "groups (upd_grp g f i) = groups i" "ir_cache (upd_grp g f i) = ir_cache i"
  "use_cache (upd_grp g f i) = use_cache i"
  by (simp_all add: upd_grp_def)

lemma map_at_upd: "n < length (maps i) \<Longrightarrow> map_at (upd_map m f i) n = (if n = m then f (map_at i m) else map_at i n)"
  by (simp add: upd_map_def nth_list_update)

lemma grp_at_upd: "n < length (grps i) \<Longrightarrow> grp_at (upd_grp g f i) n = (if n = g then f (grp_at i g) else grp_at i n)"
  by (simp add: upd_grp_def nth_list_update)

lemma grp_post_error_simps [simp]:
  "maps (grp_post_error msg g i) = maps i" "length (grps (grp_post_error msg g i)) = length (grps i)"
  "groups (grp_post_error msg g i) = groups i" "ir_cache (grp_post_error msg g i) = ir_cache i"
  "use_cache (grp_post_error msg g i) = use_cache i"
  by (simp_all add: grp_post_error_def res_post_error_def Let_def)

lemma grp_at_post_error:
  "n < length (grps i) \<Longrightarrow>
     grp_at (grp_post_error msg g i) n = (if n = g then (grp_at i g)\<lparr>ir_errored := True\<rparr> else grp_at i n)"
  by (simp add: grp_post_error_def res_post_error_def Let_def grp_at_upd)

section \<open>Weights\<close>

text \<open>\<open>round(a / b)\<close>: the nearest integer, the even one of two.\<close>

definition py_round_div :: "int \<Rightarrow> int \<Rightarrow> int" where
  "py_round_div a b =
     (let q = a div b; r = a mod b
      in if 2 * r < b then q else if b < 2 * r then q + 1 else if even q then q else q + 1)"

definition has_weight :: "mapping \<Rightarrow> bool" where
  "has_weight m = dhas (ir_attrs m) ''weight''"

definition set_weight :: "int \<Rightarrow> nat \<Rightarrow> ir \<Rightarrow> ir" where
  "set_weight w m i = upd_map m (\<lambda>x. x\<lparr>m_weight := w\<rparr>) i"

fun weigh :: "int \<Rightarrow> nat list \<Rightarrow> ir \<Rightarrow> (int \<times> string option \<times> ir) res" where
  "weigh cw [] i = Inr (cw, None, i)"
| "weigh cw (m # ms) i =
     (if \<not> has_weight (map_at i m) then weigh cw ms i
      else case num_of (rget (map_at i m) ''weight'') of
          None \<Rightarrow> Inl (TypeError ''weight'')
        | Some w \<Rightarrow>
            if w > 100
            then Inr (cw, Some (''Mapping '' @ ir_name (map_at i m) @ '' has invalid weight '' @
                   pv_fmt (rget (map_at i m) ''weight'')), i)
            else weigh (cw + w) ms (set_weight (cw + w) m i))"

fun spread :: "int \<Rightarrow> int \<Rightarrow> nat list \<Rightarrow> ir \<Rightarrow> ir" where
  "spread cw per [] i = i"
| "spread cw per [m] i = set_weight 100 m i"
| "spread cw per (m # m' # ms) i = spread (cw + per) per (m' # ms) (set_weight (cw + per) m i)"

definition normalize_weights_in_mappings :: "nat \<Rightarrow> ir \<Rightarrow> (bool \<times> ir) res" where
  "normalize_weights_in_mappings g i =
     (let ms = mappings (grp_at i g) in
      if length ms = 1 then Inr (True, set_weight 100 (hd ms) i)
      else rbind (weigh 0 ms i) (\<lambda>(cw, err, i1).
        case err of
          Some msg \<Rightarrow> Inr (False, grp_post_error msg g i1)
        | None \<Rightarrow>
            if cw > 100
            then Inr (False, grp_post_error ''Total weight of mappings exceeds 100, please reconfigure for correct behavior...'' g i1)
            else
              let weighted = filter (\<lambda>m. has_weight (map_at i m)) ms;
                  weightless = filter (\<lambda>m. \<not> has_weight (map_at i m)) ms;
                  per = py_round_div (100 - cw) (int (length weightless));
                  i2 = (if weightless = [] then i1 else spread cw per weightless i1)
              in Inr (True, upd_grp g (\<lambda>x. x\<lparr>mappings := weighted @ weightless\<rparr>) i2)))"

section \<open>The order of weights\<close>

definition pv_less :: "pyval \<Rightarrow> pyval \<Rightarrow> bool res" where
  "pv_less v w =
     (case (num_of v, num_of w) of
        (Some a, Some b) \<Rightarrow> Inr (a < b)
      | _ \<Rightarrow> (case (v, w) of (PStr s, PStr t) \<Rightarrow> Inr (s < t) | _ \<Rightarrow> Inl (TypeError ''<'')))"

fun weight_less :: "pyval list \<Rightarrow> pyval list \<Rightarrow> bool res" where
  "weight_less [] ys = Inr (ys \<noteq> [])"
| "weight_less (x # xs) [] = Inr False"
| "weight_less (x # xs) (y # ys) = (if pv_eq x y then weight_less xs ys else pv_less x y)"

section \<open>Groups and the mappings they accept\<close>

definition HTTPCoreKeys :: "string list" where
  "HTTPCoreKeys = [''bypass_auth'', ''circuit_breakers'', ''cluster_timeout_ms'', ''connect_timeout_ms'',
     ''cluster_idle_timeout_ms'', ''cluster_max_connection_lifetime_ms'', ''group_id'', ''headers'',
     ''keepalive'', ''labels'', ''load_balancer'', ''method'', ''prefix'', ''prefix_regex'', ''prefix_exact'']"

definition TCPCoreKeys :: "string list" where
  "TCPCoreKeys = [''address'', ''circuit_breakers'', ''enable_ipv4'', ''enable_ipv6'', ''group_id'', ''host'',
     ''idle_timeout_ms'', ''labels'', ''port'', ''tls'']"

definition gid :: "'a irres_scheme \<Rightarrow> string" where
  "gid r = (case rget r ''group_id'' of PStr s \<Rightarrow> s | v \<Rightarrow> pv_fmt v)"

definition key_for_id :: "string \<Rightarrow> string \<Rightarrow> string" where
  "key_for_id cls group_id = cls @ ''-'' @ group_id"

definition group_class :: "mapping \<Rightarrow> string" where
  "group_class m = (if m_class m = ''IRTCPMapping'' then ''IRTCPMappingGroup'' else ''IRHTTPMappingGroup'')"

definition group_cache_key :: "mgroup \<Rightarrow> string" where
  "group_cache_key g = key_for_id (ir_kind g) (gid g)"

definition mismatched :: "mapping \<Rightarrow> mgroup \<Rightarrow> string \<Rightarrow> bool" where
  "mismatched m g k =
     (case dget (ir_attrs m) k of
        None \<Rightarrow> False
      | Some v \<Rightarrow> (case dget (ir_attrs g) k of None \<Rightarrow> True | Some w \<Rightarrow> \<not> pv_eq v w))"

definition mismatch_text :: "string list \<Rightarrow> mapping \<Rightarrow> mgroup \<Rightarrow> string" where
  "mismatch_text ks m g =
     join_with '', '' (map (\<lambda>k. k @ '': '' @ pv_fmt (rget m k) @ '' != '' @
       pv_fmt (dget_or (ir_attrs g) k (PStr ''-unset-''))) ks)"

definition tcp_add_mapping :: "nat \<Rightarrow> nat \<Rightarrow> ir \<Rightarrow> ir res" where
  "tcp_add_mapping g m i =
     (let mp = map_at i m; gr = grp_at i g; mis = filter (mismatched mp gr) TCPCoreKeys in
      if mis \<noteq> []
      then Inr (grp_post_error (''cannot accept new mapping '' @ ir_name mp @ '' with mismatched '' @
             mismatch_text mis mp gr) g i)
      else rbind (weight_less (group_weight gr) (m_route_weight mp)) (\<lambda>heavier.
             if heavier then Inl (AttributeError ''group_weight'')
             else Inr (upd_grp g (\<lambda>x. x\<lparr>mappings := mappings x @ [m]\<rparr>) i)))"

definition drop_redirect :: "mapping \<Rightarrow> mapping" where
  "drop_redirect m =
     m\<lparr>ir_attrs := fold ddel [''host_redirect'', ''path_redirect'', ''prefix_redirect'', ''regex_redirect''] (ir_attrs m)\<rparr>"

definition live_redirect :: "nat \<Rightarrow> ir \<Rightarrow> mapping option" where
  "live_redirect g i =
     (case host_redirect (grp_at i g) of
        Some r \<Rightarrow> if ir_bool (map_at i r) then Some (map_at i r) else None
      | None \<Rightarrow> None)"

definition http_add_shadow :: "nat \<Rightarrow> nat \<Rightarrow> ir \<Rightarrow> ir" where
  "http_add_shadow g m i =
     (case shadows (grp_at i g) of
        s # _ \<Rightarrow> ir_post_error (''cannot accept '' @ ir_name (map_at i m) @ '' as second shadow after '' @
                  ir_name (map_at i s)) (Other (ir_rkey (grp_at i g))) i
      | [] \<Rightarrow> upd_grp g (\<lambda>x. x\<lparr>shadows := [m]\<rparr>) i)"

definition http_add_redirect :: "nat \<Rightarrow> nat \<Rightarrow> ir \<Rightarrow> ir" where
  "http_add_redirect g m i =
     (case live_redirect g i of
        Some r \<Rightarrow> ir_post_error (''cannot accept '' @ ir_name (map_at i m) @ '' as second host_redirect after '' @
                   ir_name r) (Other (ir_rkey (grp_at i g))) i
      | None \<Rightarrow>
          (case mappings (grp_at i g) of
             f # _ \<Rightarrow> ir_post_error (''cannot accept '' @ ir_name (map_at i m) @
                       '' with host_redirect after mappings without host_redirect (eg '' @ ir_name (map_at i f) @ '')'')
                       (Other (ir_rkey (grp_at i g))) i
           | [] \<Rightarrow> upd_grp g (\<lambda>x. x\<lparr>host_redirect := Some m\<rparr>) i))"

definition http_add_plain :: "nat \<Rightarrow> nat \<Rightarrow> ir \<Rightarrow> ir res" where
  "http_add_plain g m i =
     (case live_redirect g i of
        Some r \<Rightarrow> Inr (ir_post_error (''cannot accept '' @ ir_name (map_at i m) @ '' without host_redirect after '' @
                   ir_name r @ '' with host_redirect'') NoResource i)
      | None \<Rightarrow>
          rbind (weight_less (group_weight (grp_at i g)) (m_route_weight (map_at i m))) (\<lambda>heavier.
            Inr (upd_grp g (\<lambda>x. x\<lparr>mappings := mappings x @ [m],
                   group_weight := (if heavier then m_route_weight (map_at i m) else group_weight x)\<rparr>) i)))"

definition http_add_mapping :: "nat \<Rightarrow> nat \<Rightarrow> ir \<Rightarrow> ir res" where
  "http_add_mapping g m i =
     (let mp = map_at i m; gr = grp_at i g; mis = filter (mismatched mp gr) HTTPCoreKeys in
      if mis \<noteq> []
      then Inr (grp_post_error (''cannot accept new mapping '' @ ir_name mp @ '' with mismatched '' @
             mismatch_text mis mp gr @ ''.Please verify field is set with the same value in all related mappings.'' @
             ''Example: When canary is configured, related mappings should have same fields and values'') g i)
      else
        let redir = truthy (rget mp ''host_redirect''); shadow = truthy (rget mp ''shadow'');
            i1 = (if shadow \<and> redir
                  then upd_map m drop_redirect
                         (ir_post_error ''At most one of host_redirect and shadow may be set; ignoring host_redirect''
                            (Other (ir_rkey mp)) i)
                  else i)
        in if shadow then Inr (http_add_shadow g m i1)
           else if redir then Inr (http_add_redirect g m i1)
           else http_add_plain g m i1)"

definition group_add_mapping :: "nat \<Rightarrow> nat \<Rightarrow> ir \<Rightarrow> ir res" where
  "group_add_mapping g m i =
     (if ir_kind (grp_at i g) = ''IRTCPMappingGroup'' then tcp_add_mapping g m i else http_add_mapping g m i)"

definition core_keys :: "string \<Rightarrow> string list" where
  "core_keys cls = (if cls = ''IRTCPMappingGroup'' then TCPCoreKeys else HTTPCoreKeys)"

definition lift_core :: "string \<Rightarrow> mapping \<Rightarrow> pyval pydict" where
  "lift_core cls m = List.map_filter (\<lambda>k. map_option (\<lambda>v. (k, v)) (dget (ir_attrs m) k)) (core_keys cls)"

definition group_init :: "string \<Rightarrow> string \<Rightarrow> string \<Rightarrow> nat \<Rightarrow> ir \<Rightarrow> (nat \<times> ir) res" where
  "group_init cls location name m i =
     (let mp = map_at i m;
          gr = \<lparr>ir_rkey = ir_rkey mp, ir_location = location, ir_kind = cls, ir_name = name,
                ir_namespace = ambassador_namespace (ir_settings i), ir_labels = PNone, ir_active = True,
                ir_errored = False, ir_cache_key = None, ir_attrs = lift_core cls mp, mappings = [],
                group_weight = m_route_weight mp, host_redirect = None, shadows = []\<rparr>;
          g = length (grps i)
      in rbind (group_add_mapping g m (i\<lparr>grps := grps i @ [gr]\<rparr>)) (\<lambda>i1. Inr (g, i1)))"

section \<open>What normalizing does to the weights\<close>

definition weights :: "nat list \<Rightarrow> ir \<Rightarrow> int list" where
  "weights ms i = map (\<lambda>m. m_weight (map_at i m)) ms"

definition own_weight :: "mapping \<Rightarrow> int" where
  "own_weight m = (case num_of (rget m ''weight'') of Some w \<Rightarrow> w | None \<Rightarrow> 0)"

text \<open>States that differ in the weights of the given mappings only.\<close>

definition reweighed :: "nat set \<Rightarrow> ir \<Rightarrow> ir \<Rightarrow> bool" where
  "reweighed ms i i' \<longleftrightarrow> grps i' = grps i \<and> length (maps i') = length (maps i) \<and>
     (\<forall>n < length (maps i). ir_attrs (map_at i' n) = ir_attrs (map_at i n) \<and>
        (n \<notin> ms \<longrightarrow> map_at i' n = map_at i n))"

lemma reweighed_refl: "reweighed S i i"
  by (simp add: reweighed_def)

lemma reweighed_trans: "reweighed S i j \<Longrightarrow> reweighed T j k \<Longrightarrow> reweighed (S \<union> T) i k"
  by (simp add: reweighed_def)

lemma reweighed_mono: "reweighed S i j \<Longrightarrow> S \<subseteq> T \<Longrightarrow> reweighed T i j"
  by (auto simp: reweighed_def)

lemma reweighed_set: "reweighed {m} i (set_weight w m i)"
  by (simp add: reweighed_def set_weight_def map_at_upd)

lemma reweighed_step: "reweighed S (set_weight w m i) j \<Longrightarrow> reweighed (insert m S) i j"
  using reweighed_trans [OF reweighed_set] by force

lemma reweighed_attrs: "reweighed S i j \<Longrightarrow> m < length (maps i) \<Longrightarrow> ir_attrs (map_at j m) = ir_attrs (map_at i m)"
  by (simp add: reweighed_def)

lemma reweighed_same: "reweighed S i j \<Longrightarrow> m < length (maps i) \<Longrightarrow> m \<notin> S \<Longrightarrow> map_at j m = map_at i m"
  by (simp add: reweighed_def)

lemma reweighed_length: "reweighed S i j \<Longrightarrow> length (maps j) = length (maps i)"
  by (simp add: reweighed_def)

lemma weights_same:
  "reweighed S i j \<Longrightarrow> set ms \<subseteq> {..<length (maps i)} - S \<Longrightarrow> weights ms j = weights ms i"
  by (auto simp: weights_def reweighed_def)

lemma set_weight_at: "m < length (maps i) \<Longrightarrow> m_weight (map_at (set_weight w m i) m) = w"
  by (simp add: set_weight_def map_at_upd)

lemma set_weight_attrs [simp]:
  "n < length (maps i) \<Longrightarrow> ir_attrs (map_at (set_weight w m i) n) = ir_attrs (map_at i n)"
  "length (maps (set_weight w m i)) = length (maps i)" "grps (set_weight w m i) = grps i"
  by (simp_all add: set_weight_def map_at_upd)

lemma has_weight_cong: "ir_attrs a = ir_attrs b \<Longrightarrow> has_weight a = has_weight b"
  by (simp add: has_weight_def)

lemma own_weight_cong: "ir_attrs (a :: mapping) = ir_attrs (b :: mapping) \<Longrightarrow> own_weight a = own_weight b"
  by (simp add: own_weight_def rget_def)

lemma weigh_result:
  assumes "weigh cw ms i = Inr (c, None, i')" and "distinct ms" and "set ms \<subseteq> {..<length (maps i)}"
    and "\<forall>m \<in> set ms. 0 \<le> own_weight (map_at i m)"
  shows "reweighed (set ms) i i' \<and> cw \<le> c \<and>
    sorted (weights (filter (\<lambda>m. has_weight (map_at i m)) ms) i') \<and>
    set (weights (filter (\<lambda>m. has_weight (map_at i m)) ms) i') \<subseteq> {cw..c}"
  using assms
proof (induction ms arbitrary: cw i)
  case Nil
  then show ?case by (simp add: reweighed_refl weights_def)
next
  case (Cons m ms)
  show ?case
  proof (cases "has_weight (map_at i m)")
    case False
    then have "weigh cw ms i = Inr (c, None, i')" using Cons.prems(1) by simp
    from Cons.IH [OF this] Cons.prems False show ?thesis
      by (auto intro: reweighed_mono)
  next
    case True
    obtain w where w: "num_of (rget (map_at i m) ''weight'') = Some w" "\<not> w > 100"
      using Cons.prems(1) True by (auto split: option.splits if_splits)
    have w0: "0 \<le> w" using Cons.prems(4) w(1) by (simp add: own_weight_def)
    let ?j = "set_weight (cw + w) m i"
    have run: "weigh (cw + w) ms ?j = Inr (c, None, i')"
      using Cons.prems(1) True w by simp
    have at: "ir_attrs (map_at ?j n) = ir_attrs (map_at i n)" if "n \<in> set ms" for n
      using that Cons.prems(3) by (intro set_weight_attrs) auto
    have hw: "has_weight (map_at ?j n) = has_weight (map_at i n)" if "n \<in> set ms" for n
      using at [OF that] by (rule has_weight_cong)
    have fl: "filter (\<lambda>m. has_weight (map_at ?j m)) ms = filter (\<lambda>m. has_weight (map_at i m)) ms"
      by (rule filter_cong) (simp_all add: hw)
    have nn: "\<forall>n \<in> set ms. 0 \<le> own_weight (map_at ?j n)"
      using Cons.prems(4) own_weight_cong [OF at] by simp
    note ih = Cons.IH [OF run, unfolded fl]
    have r: "reweighed (set ms) ?j i'" "cw + w \<le> c"
      "sorted (weights (filter (\<lambda>m. has_weight (map_at i m)) ms) i')"
      "set (weights (filter (\<lambda>m. has_weight (map_at i m)) ms) i') \<subseteq> {cw + w..c}"
      using ih Cons.prems(2,3) nn by auto
    have "m_weight (map_at i' m) = cw + w"
      using reweighed_same [OF r(1), of m] Cons.prems(2,3) set_weight_at [of m i "cw + w"] by simp
    with r(2-4) True w0 reweighed_step [OF r(1)] show ?thesis
      by (auto simp: weights_def)
  qed
qed

lemma spread_result:
  assumes "distinct ms" and "set ms \<subseteq> {..<length (maps i)}" and "0 \<le> per" and "ms \<noteq> []"
  shows "reweighed (set ms) i (spread cw per ms i) \<and> last (weights ms (spread cw per ms i)) = 100 \<and>
    sorted (butlast (weights ms (spread cw per ms i))) \<and>
    set (butlast (weights ms (spread cw per ms i))) \<subseteq> {cw..cw + (int (length ms) - 1) * per}"
  using assms
proof (induction cw per ms i rule: spread.induct)
  case (2 cw per m i)
  then show ?case by (simp add: reweighed_set weights_def set_weight_at)
next
  case (3 cw per m m' ms i)
  let ?j = "set_weight (cw + per) m i" and ?r = "m' # ms"
  let ?i' = "spread (cw + per) per ?r ?j"
  have ih: "reweighed (set ?r) ?j ?i'" "last (weights ?r ?i') = 100" "sorted (butlast (weights ?r ?i'))"
    "set (butlast (weights ?r ?i')) \<subseteq> {cw + per..cw + per + (int (length ?r) - 1) * per}"
    using "3.IH" "3.prems" by simp_all
  have m: "m_weight (map_at ?i' m) = cw + per"
    using reweighed_same [OF ih(1), of m] "3.prems"(1,2) set_weight_at [of m i "cw + per"] by simp
  have w: "weights (m # ?r) ?i' = (cw + per) # weights ?r ?i'" by (simp add: weights_def m)
  have ne: "weights ?r ?i' \<noteq> []" by (simp add: weights_def)
  have eq: "cw + per + (int (length ?r) - 1) * per = cw + (int (length (m # ?r)) - 1) * per"
    by (simp add: algebra_simps)
  from ih(4) have "set (butlast (weights ?r ?i')) \<subseteq> {cw + per..cw + (int (length (m # ?r)) - 1) * per}"
    unfolding eq .
  moreover have "cw + per \<le> cw + (int (length (m # ?r)) - 1) * per"
    using "3.prems"(3) by (simp add: algebra_simps)
  ultimately show ?case
    using ih(2,3) ne "3.prems"(3) reweighed_step [OF ih(1)] unfolding spread.simps(3) w
    by (auto simp: reweighed_mono)
qed simp

lemma py_round_div_bounds:
  assumes "0 \<le> a" "0 < b"
  shows "0 \<le> py_round_div a b" "2 * b * py_round_div a b \<le> 2 * a + b"
proof -
  have q: "0 \<le> a div b" using assms by (simp add: pos_imp_zdiv_nonneg_iff)
  then show "0 \<le> py_round_div a b" by (simp add: py_round_div_def Let_def)
  define q r where qr: "q = a div b" "r = a mod b"
  have d: "a = b * q + r" unfolding qr by simp
  have r: "0 \<le> r" using assms unfolding qr by simp
  have lo: "2 * b * q \<le> 2 * a + b"
    using d r assms(2) by (simp add: algebra_simps)
  have hi: "2 * b * (q + 1) \<le> 2 * a + b" if "b \<le> 2 * r"
    using d that by (simp add: algebra_simps)
  show "2 * b * py_round_div a b \<le> 2 * a + b"
    using lo hi unfolding py_round_div_def Let_def qr(1) [symmetric] qr(2) [symmetric] by auto
qed

lemma spread_bound:
  assumes "c \<le> 100" "0 < n"
  shows "c + (n - 1) * py_round_div (100 - c) n \<le> 100 + (n - 1) div 2"
proof -
  let ?p = "py_round_div (100 - c) n"
  note p = py_round_div_bounds [of "100 - c" n]
  have "(n - 1) * (2 * n * ?p) \<le> (n - 1) * (2 * (100 - c) + n)"
    using p(2) assms by (intro mult_left_mono) simp_all
  then have "n * (2 * ((n - 1) * ?p)) \<le> n * (2 * (100 - c) + (n - 1)) - 2 * (100 - c)"
    by (simp add: algebra_simps)
  also have "\<dots> \<le> n * (2 * (100 - c) + (n - 1))" using assms by simp
  finally have "2 * ((n - 1) * ?p) \<le> 2 * (100 - c) + (n - 1)" using assms by simp
  then show ?thesis by simp
qed

lemma weights_append [simp]: "weights (xs @ ys) i = weights xs i @ weights ys i"
  by (simp add: weights_def)

lemma weights_Nil [simp]: "weights ms i = [] \<longleftrightarrow> ms = []"
  by (simp add: weights_def)

lemma weights_upd_grp [simp]: "weights ms (upd_grp g f i) = weights ms i"
  by (simp add: weights_def)

lemma int_half_pred: "0 < n \<Longrightarrow> (int n - 1) div 2 = int ((n - 1) div 2)"
  by (simp add: zdiv_int of_nat_diff)

lemma spread_weights:
  assumes "distinct (xs @ ys)" and "set (xs @ ys) \<subseteq> {..<length (maps i)}" and "ys \<noteq> []"
    and "sorted (weights xs i)" "set (weights xs i) \<subseteq> {0..c}" "0 \<le> c" "c \<le> 100"
  defines "i' \<equiv> spread c (py_round_div (100 - c) (int (length ys))) ys i"
  shows "set (weights (xs @ ys) i') \<subseteq> {0..100 + int ((length ys - 1) div 2)} \<and>
    sorted (butlast (weights (xs @ ys) i')) \<and> last (weights (xs @ ys) i') = 100 \<and> grps i' = grps i"
proof -
  let ?p = "py_round_div (100 - c) (int (length ys))"
  have n: "0 < int (length ys)" using assms(3) by simp
  have p: "0 \<le> ?p" using py_round_div_bounds(1) [of "100 - c"] assms(7) n by simp
  have s: "reweighed (set ys) i i'" "last (weights ys i') = 100" "sorted (butlast (weights ys i'))"
    "set (butlast (weights ys i')) \<subseteq> {c..c + (int (length ys) - 1) * ?p}"
    using spread_result [of ys i ?p c] assms(1-3) p unfolding i'_def by simp_all
  have x: "weights xs i' = weights xs i"
    using assms(1,2) by (intro weights_same [OF s(1)]) auto
  have b: "c + (int (length ys) - 1) * ?p \<le> 100 + int ((length ys - 1) div 2)"
    using spread_bound [OF assms(7) n] int_half_pred [of "length ys"] n by simp
  have lst: "weights ys i' = butlast (weights ys i') @ [100]"
    using s(2) append_butlast_last_id [of "weights ys i'"] assms(3) by simp
  have "set (weights ys i') = insert 100 (set (butlast (weights ys i')))"
    by (subst lst) simp
  moreover have "butlast (weights (xs @ ys) i') = weights xs i @ butlast (weights ys i')"
    using x assms(3) by (simp add: butlast_append)
  moreover have "x \<le> c" "0 \<le> x" if "x \<in> set (weights xs i)" for x
    using that assms(5) by auto
  moreover have "c \<le> y" "y \<le> 100 + int ((length ys - 1) div 2)" if "y \<in> set (butlast (weights ys i'))" for y
    using that s(4) b by (auto dest: subsetD)
  ultimately show ?thesis
    using x s(1-3) assms(3,4,6,7)
    by (fastforce simp: sorted_append reweighed_def last_append)
qed

lemma normalize_weights_result:
  fixes i i' :: ir
  assumes "normalize_weights_in_mappings g i = Inr (True, i')"
    and "g < length (grps i)"
    and "distinct (mappings (grp_at i g))" and "set (mappings (grp_at i g)) \<subseteq> {..<length (maps i)}"
    and "\<forall>m \<in> set (mappings (grp_at i g)). 0 \<le> own_weight (map_at i m)"
  defines "ws \<equiv> weights (mappings (grp_at i' g)) i'"
    and "n \<equiv> length (filter (\<lambda>m. \<not> has_weight (map_at i m)) (mappings (grp_at i g)))"
  shows "mset (mappings (grp_at i' g)) = mset (mappings (grp_at i g)) \<and>
    set ws \<subseteq> {0..100 + int ((n - 1) div 2)} \<and> sorted (butlast ws) \<and> (0 < n \<longrightarrow> last ws = 100)"
proof -
  let ?ms = "mappings (grp_at i g)"
  let ?w = "filter (\<lambda>m. has_weight (map_at i m)) ?ms" and ?u = "filter (\<lambda>m. \<not> has_weight (map_at i m)) ?ms"
  have n: "n = length ?u" by (simp add: n_def)
  show ?thesis
  proof (cases "length ?ms = 1")
    case True
    then obtain m where m: "?ms = [m]" by (cases ?ms) auto
    have i': "i' = set_weight 100 m i"
      using assms(1) m by (simp add: normalize_weights_in_mappings_def)
    have "ws = [100]" using assms(4) m by (simp add: ws_def i' weights_def set_weight_at)
    with m show ?thesis by (simp add: i')
  next
    case False
    obtain c i1 where 1: "weigh 0 ?ms i = Inr (c, None, i1)" "c \<le> 100"
      and 2: "i' = upd_grp g (\<lambda>x. x\<lparr>mappings := ?w @ ?u\<rparr>)
        (if ?u = [] then i1 else spread c (py_round_div (100 - c) (int (length ?u))) ?u i1)"
      using assms(1) False
      by (auto simp: normalize_weights_in_mappings_def Let_def rbind_eq_Inr split: option.splits if_splits prod.splits)
    have r: "reweighed (set ?ms) i i1" "0 \<le> c" "sorted (weights ?w i1)" "set (weights ?w i1) \<subseteq> {0..c}"
      using weigh_result [OF 1(1) assms(3,4,5)] by simp_all
    have len: "length (maps i1) = length (maps i)" "grps i1 = grps i" using r(1) by (simp_all add: reweighed_def)
    have mm: "mset (?w @ ?u) = mset ?ms"
      using multiset_partition [of "mset ?ms" "\<lambda>m. has_weight (map_at i m)"] by (simp add: mset_filter)
    show ?thesis
    proof (cases "?u = []")
      case True
      then have i': "i' = upd_grp g (\<lambda>x. x\<lparr>mappings := ?w\<rparr>) i1" using 2 by simp
      have "mappings (grp_at i' g) = ?w" using assms(2) len unfolding i' by (simp add: grp_at_upd)
      moreover have "ws = weights ?w i1" unfolding ws_def calculation by (simp add: i')
      moreover have "n = 0" using True n by simp
      ultimately show ?thesis using r(3,4) 1(2) mm True by (auto intro: sorted_butlast)
    next
      case False
      let ?i2 = "spread c (py_round_div (100 - c) (int (length ?u))) ?u i1"
      have i': "i' = upd_grp g (\<lambda>x. x\<lparr>mappings := ?w @ ?u\<rparr>) ?i2" using 2 False by simp
      have "set (weights (?w @ ?u) ?i2) \<subseteq> {0..100 + int ((length ?u - 1) div 2)} \<and>
        sorted (butlast (weights (?w @ ?u) ?i2)) \<and> last (weights (?w @ ?u) ?i2) = 100 \<and> grps ?i2 = grps i1"
        using assms(3,4) len r(2-4) 1(2) False by (intro spread_weights) auto
      moreover from this have "mappings (grp_at i' g) = ?w @ ?u"
        using assms(2) len unfolding i' by (simp add: grp_at_upd)
      moreover have "ws = weights (?w @ ?u) ?i2" unfolding ws_def calculation(2) by (simp add: i')
      ultimately show ?thesis using mm n by simp
    qed
  qed
qed

section \<open>Properties\<close>

text \<open>
  C4: normalizing the weights of a group of mappings with non-negative weights, when it succeeds,
  keeps the mappings of the group; the calculated weights lie between 0 and 100 plus half the
  number of other mappings without a weight, they do not fall except for the last one, and the
  last one is 100 when some mapping has no weight of its own.
\<close>

theorem normalized_weights_bounded:
  assumes "normalize_weights_in_mappings g i = Inr (True, i')"
    and "g < length (grps i)"
    and "distinct (mappings (grp_at i g))" and "set (mappings (grp_at i g)) \<subseteq> {..<length (maps i)}"
    and "\<forall>m \<in> set (mappings (grp_at i g)). 0 \<le> own_weight (map_at i m)"
    and "n = length (filter (\<lambda>m. \<not> has_weight (map_at i m)) (mappings (grp_at i g)))"
    and "ws = weights (mappings (grp_at i' g)) i'"
  shows "mset (mappings (grp_at i' g)) = mset (mappings (grp_at i g)) \<and>
    set ws \<subseteq> {0..100 + int ((n - 1) div 2)} \<and> sorted (butlast ws) \<and> (0 < n \<longrightarrow> last ws = 100)"
  using normalize_weights_result [OF assms(1-5)] unfolding assms(6,7) .

definition demo_mapping :: "string \<Rightarrow> pyval pydict \<Rightarrow> mapping" where
  "demo_mapping name attrs =
     \<lparr>ir_rkey = name, ir_location = name, ir_kind = ''Mapping'', ir_name = name, ir_namespace = ''n'',
      ir_labels = PNone, ir_active = True, ir_errored = False, ir_cache_key = Some (''Mapping-v2-'' @ name @ ''-n''),
      ir_attrs = attrs, m_class = ''IRHTTPMapping'', m_weight = 0, m_cluster_key = None,
      m_route_weight = [PInt 0], cached_status = PNone\<rparr>"

definition demo_group :: "nat list \<Rightarrow> mgroup" where
  "demo_group ms =
     \<lparr>ir_rkey = ''r'', ir_location = ''l'', ir_kind = ''IRHTTPMappingGroup'', ir_name = ''g'', ir_namespace = ''n'',
      ir_labels = PNone, ir_active = True, ir_errored = False, ir_cache_key = None, ir_attrs = [],
      mappings = ms, group_weight = [PInt 0], host_redirect = None, shadows = []\<rparr>"

text \<open>A canary with weight 10 and five mappings that share the rest.\<close>

definition canary_ir :: "int \<Rightarrow> ir" where
  "canary_ir w = demo_ir\<lparr>maps := map (\<lambda>k. demo_mapping ''m'' (if k = 0 then [(''weight'', PInt w)] else [])) [0::nat, 1, 2, 3, 4, 5],
     grps := [demo_group [0, 1, 2, 3, 4, 5]]\<rparr>"

theorem normalized_weights_bounded_witness:
  "\<exists>i'. normalize_weights_in_mappings 0 (canary_ir 10) = Inr (True, i') \<and>
     set (weights (mappings (grp_at i' 0)) i') \<subseteq> {0..102} \<and> last (weights (mappings (grp_at i' 0)) i') = 100"
proof -
  let ?r = "normalize_weights_in_mappings 0 (canary_ir 10)"
  have "map_sum (\<lambda>_. ()) fst ?r = Inr True" by code_simp
  then obtain i' where r: "?r = Inr (True, i')" by (cases ?r) auto
  have n: "5 = length (filter (\<lambda>m. \<not> has_weight (map_at (canary_ir 10) m)) (mappings (grp_at (canary_ir 10) 0)))"
    by code_simp
  have g: "0 < length (grps (canary_ir 10))" by code_simp
  have ms: "distinct (mappings (grp_at (canary_ir 10) 0))"
    "set (mappings (grp_at (canary_ir 10) 0)) \<subseteq> {..<length (maps (canary_ir 10))}"
    by code_simp+
  have w: "\<forall>m \<in> set (mappings (grp_at (canary_ir 10) 0)). 0 \<le> own_weight (map_at (canary_ir 10) m)"
    by code_simp
  from normalized_weights_bounded [OF r g ms w n refl]
  have "set (weights (mappings (grp_at i' 0)) i') \<subseteq> {0..102} \<and> last (weights (mappings (grp_at i' 0)) i') = 100"
    by simp
  with r show ?thesis by blast
qed

text \<open>
  The bound is not 100: with a weight of 97 and five mappings that share the remaining 3, each
  share is rounded up, and the weight before the last one is 101.
\<close>

lemma weights_overshoot:
  "map_sum (\<lambda>_. ()) (\<lambda>(ok, i'). weights (mappings (grp_at i' 0)) i') (normalize_weights_in_mappings 0 (canary_ir 97)) =
     Inr [97, 98, 99, 100, 101, 100]"
  by code_simp

end
