(* ===== verification/Resolver.thy ===== *)
theory Resolver
  imports Service MapGroup
begin

text \<open>
  Service resolvers, \<open>ir/irserviceresolver.py\<close>, and how the IR asks them for the targets of a
  service (\<open>get_resolver\<close>, \<open>add_resolver\<close>, \<open>resolve_resolver\<close> and \<open>resolve_targets\<close> of \<open>ir/ir.py\<close>).
  A resolver is a resource; its kind selects the operations, as the dictionaries of methods in the
  code do. The Services that a resolver looks into are those of the configuration store.

  The lemmas: after loading, every name the mappings may rely on has a resolver; an endpoint
  resolver returns the targets that the Service lists for the port.
\<close>

section \<open>Resolvers\<close>

definition resolver_setup :: "irres \<times> ir \<Rightarrow> bool \<times> irres \<times> ir" where
  "resolver_setup ri =
     (let (r, i) = ri; with = (\<lambda>w. r\<lparr>ir_attrs := dset ''resolve_with'' (PStr w) (ir_attrs r)\<rparr>) in
      if ir_kind r = ''ConsulResolver''
      then if \<not> truthy (rget r ''datacenter'')
           then (False, res_post_error ''ConsulResolver is required to have a datacenter'' (with ''consul'', i))
           else (True, with ''consul'', i)
      else if ir_kind r = ''KubernetesServiceResolver'' then (True, with ''k8s'', i)
      else if ir_kind r = ''KubernetesEndpointResolver'' then (True, with ''k8s'', i)
      else (False, res_post_error (''Resolver kind '' @ ir_kind r @ '' unknown'') (r, i)))"

definition resolver_init ::
  "string \<Rightarrow> string \<Rightarrow> string \<Rightarrow> string \<Rightarrow> string option \<Rightarrow> pyval pydict \<Rightarrow> ir \<Rightarrow> irres \<times> ir" where
  "resolver_init kind name rkey location ns kwargs i =
     (let r = \<lparr>ir_rkey = rkey, ir_location = location, ir_kind = kind, ir_name = name,
               ir_namespace = (if ns = None \<or> ns = Some [] then ambassador_namespace (ir_settings i) else the ns),
               ir_labels = pget kwargs ''metadata_labels'', ir_active = False, ir_errored = False,
               ir_cache_key = None, ir_attrs = ddel ''metadata_labels'' kwargs\<rparr>;
          (ok, r1, i1) = resolver_setup (r, i)
      in (set_active ok r1, i1))"

definition get_resolver :: "ir \<Rightarrow> string \<Rightarrow> irres option" where
  "get_resolver i name = dget (resolvers i) name"

definition add_resolver :: "irres \<Rightarrow> ir \<Rightarrow> ir" where
  "add_resolver r i = i\<lparr>resolvers := dset (ir_name r) r (resolvers i)\<rparr>"

definition live_resolver :: "ir \<Rightarrow> string \<Rightarrow> irres option" where
  "live_resolver i name =
     (case get_resolver i name of Some r \<Rightarrow> if ir_bool r then Some r else None | None \<Rightarrow> None)"

section \<open>Mappings a resolver accepts\<close>

definition map_post_error :: "string \<Rightarrow> mapping \<times> ir \<Rightarrow> mapping \<times> ir" where
  "map_post_error msg mi = res_post_error msg mi"

definition k8s_svc_valid_mapping :: "mapping \<times> ir \<Rightarrow> bool \<times> mapping \<times> ir" where
  "k8s_svc_valid_mapping mi =
     (if truthy (rget (fst mi) ''load_balancer'')
      then (False, map_post_error ''No load_balancer setting is allowed with the KubernetesServiceResolver'' mi)
      else (True, mi))"

definition consul_valid_mapping :: "mapping \<times> ir \<Rightarrow> (bool \<times> mapping \<times> ir) res" where
  "consul_valid_mapping mi =
     rbind (pv_str (rget (fst mi) ''service'')) (\<lambda>svc.
       let (valid, m1, i1) = (if CHR ''.'' \<in> set svc
             then (False, map_post_error ''The Consul resolver does not allow dots in service names'' mi)
             else (True, mi));
           i2 = (if CHR '':'' \<in> set svc
             then i1\<lparr>ir_aconf := post_notice
               ''The Consul resolver does not allow overriding service port; ignoring requested port''
               (Other (ir_rkey m1)) (ir_aconf i1)\<rparr>
             else i1)
       in Inr (valid, m1, i2))"

definition valid_mapping :: "irres \<Rightarrow> mapping \<times> ir \<Rightarrow> (bool \<times> mapping \<times> ir) res" where
  "valid_mapping r mi =
     (if ir_kind r = ''KubernetesServiceResolver'' then Inr (k8s_svc_valid_mapping mi)
      else if ir_kind r = ''KubernetesEndpointResolver'' then Inr (True, mi)
      else if ir_kind r = ''ConsulResolver'' then consul_valid_mapping mi
      else Inl (KeyError (ir_kind r)))"

section \<open>Resolving\<close>

definition use_own_namespace :: "ir \<Rightarrow> bool" where
  "use_own_namespace i = truthy (pget (ambassador_module i) ''use_ambassador_namespace_for_service_resolution'')"

definition resolver_parse_service :: "ir \<Rightarrow> string \<Rightarrow> string \<Rightarrow> string \<times> string" where
  "resolver_parse_service i svc_name svc_namespace =
     (if CHR ''.'' \<in> set svc_name \<and> \<not> is_ip_address svc_name
      then (let parts = split_on CHR ''.'' svc_name in (parts ! 0, parts ! 1))
      else if \<not> use_own_namespace i \<and> svc_namespace \<noteq> [] then (svc_name, svc_namespace)
      else (svc_name, ambassador_namespace (ir_settings i)))"

definition services :: "ir \<Rightarrow> nat pydict" where
  "services i = bucket (ir_aconf i) ''service''"

definition get_endpoints :: "irres \<Rightarrow> string \<Rightarrow> nat option \<Rightarrow> ir \<Rightarrow> (pyval option \<times> ir) res" where
  "get_endpoints r key port i =
     (case dget (services i) key of
        None \<Rightarrow> Inr (None, i)
      | Some s \<Rightarrow>
          (let service = obj_at (ir_aconf i) s; endpoints = pget (ac_attrs service) ''endpoints'' in
           if \<not> truthy endpoints then Inr (None, i)
           else rbind (pv_get endpoints (case port of None \<Rightarrow> ''*'' | Some p \<Rightarrow> if p = 0 then ''*'' else str_nat p) PNone) (\<lambda>targets.
             if truthy targets then Inr (Some targets, i)
             else Inr (None, ir_post_error (''Service '' @ ac_name service @ '': '' @ key @ '':'' @
                    (case port of None \<Rightarrow> ''None'' | Some p \<Rightarrow> str_nat p) @ '' matches no endpoints from '' @
                    (if rget r ''resolve_with'' = PStr ''k8s'' then ''Kubernetes'' else pv_fmt (rget r ''resolve_with'')))
                    (AC s) i))))"

definition resolve :: "irres \<Rightarrow> string \<Rightarrow> string \<Rightarrow> nat \<Rightarrow> ir \<Rightarrow> (pyval option \<times> ir) res" where
  "resolve r svc_name svc_namespace port i =
     (if ir_kind r = ''KubernetesServiceResolver''
      then Inr (Some (PList [PDict [(''ip'', PStr svc_name), (''port'', PInt (int port)), (''target_kind'', PStr ''DNSname'')]]), i)
      else if ir_kind r = ''KubernetesEndpointResolver''
      then let (svc, ns) = resolver_parse_service i svc_name svc_namespace
           in get_endpoints r (''k8s-'' @ svc @ ''-'' @ ns) (Some port) i
      else if ir_kind r = ''ConsulResolver''
      then get_endpoints r (''consul-'' @ svc_name @ ''-'' @ pv_fmt (rget r ''datacenter'')) None i
      else Inl (KeyError (ir_kind r)))"

definition clustermap_entry :: "irres \<Rightarrow> string \<Rightarrow> string \<Rightarrow> nat \<Rightarrow> ir \<Rightarrow> pyval pydict res" where
  "clustermap_entry r svc_name svc_namespace port i =
     (let (svc, ns) = resolver_parse_service i svc_name svc_namespace;
          ip_entry = [(''service'', PStr svc_name), (''namespace'', PStr svc_namespace), (''port'', PInt (int port)),
                      (''kind'', PStr ''KubernetesServiceResolver'')]
      in if ir_kind r = ''KubernetesServiceResolver''
         then Inr [(''port'', PInt (int port)), (''kind'', PStr (ir_kind r)), (''service'', PStr svc), (''namespace'', PStr ns)]
         else if ir_kind r = ''KubernetesEndpointResolver''
         then if is_ip_address svc_name then Inr ip_entry
              else Inr [(''service'', PStr svc), (''namespace'', PStr ns), (''port'', PInt (int port)), (''kind'', PStr (ir_kind r)),
                        (''endpoint_path'', PStr (''k8s/'' @ ns @ ''/'' @ svc @ (if port = 0 then [] else ''/'' @ str_nat port)))]
         else if ir_kind r = ''ConsulResolver''
         then if is_ip_address svc_name then Inr ip_entry
              else Inr [(''service'', PStr svc_name), (''datacenter'', rget r ''datacenter''), (''kind'', PStr (ir_kind r)),
                        (''endpoint_path'', PStr (''consul/'' @ pv_fmt (rget r ''datacenter'') @ ''/'' @ svc_name))]
         else Inl (KeyError (ir_kind r)))"

definition resolve_resolver :: "ir \<Rightarrow> pyval \<Rightarrow> irres res" where
  "resolve_resolver i resolver_name =
     (let name = (if truthy resolver_name then resolver_name
                  else dget_or (ambassador_module i) ''resolver'' (PStr ''kubernetes-service'')) in
      case name of
        PStr n \<Rightarrow> (case get_resolver i n of None \<Rightarrow> Inl (AssertionError ''resolver'') | Some r \<Rightarrow> Inr r)
      | _ \<Rightarrow> Inl (AssertionError ''resolver''))"

definition resolve_targets ::
  "string \<Rightarrow> string \<Rightarrow> pyval \<Rightarrow> string \<Rightarrow> string \<Rightarrow> nat \<Rightarrow> ir \<Rightarrow> (pyval option \<times> ir) res" where
  "resolve_targets cluster_name cluster_rkey resolver_name hostname ns port i =
     (if is_ip_address hostname
      then Inr (Some (PList [PDict [(''ip'', PStr hostname), (''port'', PInt (int port)), (''target_kind'', PStr ''IPaddr'')]]), i)
      else rbind (resolve_resolver i resolver_name) (\<lambda>r.
        if \<not> ir_bool r
        then Inr (None, i\<lparr>ir_aconf := post_error_richstatus
               (from_error (ir_settings i) (''cluster '' @ cluster_name @ '' has invalid resolver '' @ pv_fmt resolver_name @ ''?''))
               NoResource (Some cluster_rkey) (ir_aconf i)\<rparr>)
        else resolve r hostname ns port i))"

section \<open>Loading\<close>

definition load_resolver :: "ac \<Rightarrow> ir \<Rightarrow> ir" where
  "load_resolver c i =
     (let (r, i1) = resolver_init (ac_kind c) (ac_name c) (ac_rkey c) (ac_location c) (ac_namespace c) (ac_attrs c) i
      in add_resolver r i1)"

definition own_namespace :: "ir \<Rightarrow> string option" where
  "own_namespace i =
     (if single_namespace (ir_settings i) then Some (ambassador_namespace (ir_settings i)) else None)"

definition default_resolver :: "string \<Rightarrow> string option \<Rightarrow> pyval pydict \<Rightarrow> string \<Rightarrow> ir \<Rightarrow> ir" where
  "default_resolver kind ns kwargs name i =
     (let (r, i1) = resolver_init kind name ''ir.resolver'' ''--internal--'' ns kwargs i in add_resolver r i1)"

definition alias_resolver :: "irres \<Rightarrow> string \<Rightarrow> ir \<Rightarrow> ir" where
  "alias_resolver src name i =
     (let (r, i1) = resolver_init (ir_kind src) name (ir_rkey src) (ir_location src) (Some (ir_namespace src))
             (dset ''metadata_labels'' (ir_labels src) (ddel ''resolve_with'' (ir_attrs src))) i
      in add_resolver r i1)"

definition check_aliases :: "string \<Rightarrow> irres option \<Rightarrow> string \<Rightarrow> irres option \<Rightarrow> ir \<Rightarrow> ir" where
  "check_aliases n1 r1 n2 r2 i =
     (case (r1, r2) of
        (None, Some r) \<Rightarrow> alias_resolver r n1 i
      | (Some r, None) \<Rightarrow> alias_resolver r n2 i
      | _ \<Rightarrow> i)"

definition alias_pair :: "string \<Rightarrow> string \<Rightarrow> (string \<Rightarrow> ir \<Rightarrow> ir) \<Rightarrow> ir \<Rightarrow> ir" where
  "alias_pair n1 n2 create i =
     (let r1 = live_resolver i n1; r2 = live_resolver i n2 in
      if r1 = None \<and> r2 = None then create n1 (create n2 i) else check_aliases n1 r1 n2 r2 i)"

definition load_resolvers :: "ac list \<Rightarrow> ir \<Rightarrow> ir" where
  "load_resolvers cs i =
     (let i1 = fold load_resolver cs i;
          i2 = (if live_resolver i1 ''kubernetes-service'' = None
                then default_resolver ''KubernetesServiceResolver'' (own_namespace i) [] ''kubernetes-service'' i1 else i1);
          i3 = alias_pair ''endpoint'' ''kubernetes-endpoint'' (default_resolver ''KubernetesEndpointResolver'' (own_namespace i) []) i2
      in alias_pair ''consul'' ''consul-endpoint'' (default_resolver ''ConsulResolver'' None [(''datacenter'', PStr ''dc1'')]) i3)"

section \<open>Resolvers after loading\<close>

definition sound_resolver :: "irres \<Rightarrow> bool" where
  "sound_resolver r \<longleftrightarrow>
     (ir_bool r \<longrightarrow> ir_kind r \<in> {''KubernetesServiceResolver'', ''KubernetesEndpointResolver'', ''ConsulResolver''} \<and>
        (ir_kind r = ''ConsulResolver'' \<longrightarrow> truthy (rget r ''datacenter'')))"

definition sound_resolvers :: "ir \<Rightarrow> bool" where
  "sound_resolvers i \<longleftrightarrow> (\<forall>n r. get_resolver i n = Some r \<longrightarrow> sound_resolver r)"

lemma rget_dset [simp]:
  "rget (r\<lparr>ir_attrs := dset k v (ir_attrs r)\<rparr>) k' = (if k = k' then v else rget r k')"
  by (simp add: rget_def)

lemma resolver_setup_cases:
  fixes r :: irres
  obtains w where "resolver_setup (r, i) = (True, r\<lparr>ir_attrs := dset ''resolve_with'' w (ir_attrs r)\<rparr>, i)"
      "ir_kind r \<in> {''KubernetesServiceResolver'', ''KubernetesEndpointResolver'', ''ConsulResolver''}"
      "ir_kind r = ''ConsulResolver'' \<longrightarrow> truthy (rget r ''datacenter'')"
  | r1 i1 where "resolver_setup (r, i) = (False, r1, i1)" "ir_name r1 = ir_name r" "resolvers i1 = resolvers i"
      "\<not> (ir_kind r \<in> {''KubernetesServiceResolver'', ''KubernetesEndpointResolver''} \<or>
         ir_kind r = ''ConsulResolver'' \<and> truthy (rget r ''datacenter''))"
proof -
  consider "ir_kind r = ''ConsulResolver''" "truthy (rget r ''datacenter'')"
    | "ir_kind r = ''ConsulResolver''" "\<not> truthy (rget r ''datacenter'')"
    | "ir_kind r \<in> {''KubernetesServiceResolver'', ''KubernetesEndpointResolver''}"
    | "ir_kind r \<notin> {''KubernetesServiceResolver'', ''KubernetesEndpointResolver'', ''ConsulResolver''}" by blast
  then show ?thesis
  proof cases
    case 1
    then show ?thesis by (intro that(1) [of "PStr ''consul''"]) (simp_all add: resolver_setup_def)
  next
    case 2
    then show ?thesis
      by (intro that(2) [of "fst (snd (resolver_setup (r, i)))" "snd (snd (resolver_setup (r, i)))"])
        (simp_all add: resolver_setup_def res_post_error_def)
  next
    case 3
    then show ?thesis by (intro that(1) [of "PStr ''k8s''"]) (auto simp: resolver_setup_def)
  next
    case 4
    then show ?thesis
      by (intro that(2) [of "fst (snd (resolver_setup (r, i)))" "snd (snd (resolver_setup (r, i)))"])
        (simp_all add: resolver_setup_def res_post_error_def)
  qed
qed

lemma resolver_init_result:
  assumes "resolver_init kind name rkey loc ns kwargs i = (r, i')"
  shows "ir_name r = name" "resolvers i' = resolvers i" "sound_resolver r"
    "kind \<in> {''KubernetesServiceResolver'', ''KubernetesEndpointResolver''} \<or>
       kind = ''ConsulResolver'' \<and> truthy (pget kwargs ''datacenter'') \<Longrightarrow> ir_bool r"
proof -
  let ?r = "\<lparr>ir_rkey = rkey, ir_location = loc, ir_kind = kind, ir_name = name,
     ir_namespace = (if ns = None \<or> ns = Some [] then ambassador_namespace (ir_settings i) else the ns),
     ir_labels = pget kwargs ''metadata_labels'', ir_active = False, ir_errored = False,
     ir_cache_key = None, ir_attrs = ddel ''metadata_labels'' kwargs\<rparr>"
  have d: "rget ?r ''datacenter'' = pget kwargs ''datacenter''" by (simp add: rget_def)
  have 0: "(r, i') = (case resolver_setup (?r, i) of (ok, r1, i1) \<Rightarrow> (set_active ok r1, i1))"
    using assms by (simp add: resolver_init_def Let_def)
  have "ir_name r = name \<and> resolvers i' = resolvers i \<and> sound_resolver r \<and>
    (kind \<in> {''KubernetesServiceResolver'', ''KubernetesEndpointResolver''} \<or>
       kind = ''ConsulResolver'' \<and> truthy (pget kwargs ''datacenter'') \<longrightarrow> ir_bool r)"
  proof (cases rule: resolver_setup_cases [of ?r i])
    case (1 w)
    have eq: "r = set_active True (?r\<lparr>ir_attrs := dset ''resolve_with'' w (ir_attrs ?r)\<rparr>)" "i' = i"
      using 0 unfolding 1(1) by simp_all
    show ?thesis unfolding eq using 1(2,3) d by (simp add: sound_resolver_def set_active_def ir_bool_def rget_def)
  next
    case (2 r1 i1)
    have eq: "r = set_active False r1" "i' = i1" using 0 unfolding 2(1) by simp_all
    show ?thesis unfolding eq using 2(2-4) d by (auto simp: sound_resolver_def set_active_def ir_bool_def)
  qed
  then show "ir_name r = name" "resolvers i' = resolvers i" "sound_resolver r"
    "kind \<in> {''KubernetesServiceResolver'', ''KubernetesEndpointResolver''} \<or>
       kind = ''ConsulResolver'' \<and> truthy (pget kwargs ''datacenter'') \<Longrightarrow> ir_bool r" by blast+
qed

text \<open>What adding a resolver that was just built does: the resolvers of other names stay.\<close>

definition added :: "string \<Rightarrow> bool \<Rightarrow> ir \<Rightarrow> ir \<Rightarrow> bool" where
  "added name alive i i' \<longleftrightarrow> (\<exists>r. sound_resolver r \<and> (alive \<longrightarrow> ir_bool r) \<and>
     (\<forall>n. get_resolver i' n = (if n = name then Some r else get_resolver i n)))"

lemma added_init:
  assumes "alive \<Longrightarrow> kind \<in> {''KubernetesServiceResolver'', ''KubernetesEndpointResolver''} \<or>
       kind = ''ConsulResolver'' \<and> truthy (pget kwargs ''datacenter'')"
  shows "added name alive i
    (let (r, i1) = resolver_init kind name rkey loc ns kwargs i in add_resolver r i1)"
proof -
  obtain r i1 where r: "resolver_init kind name rkey loc ns kwargs i = (r, i1)"
    by (cases "resolver_init kind name rkey loc ns kwargs i")
  note f = resolver_init_result [OF r]
  show ?thesis
    unfolding added_def r using f assms
    by (intro exI [of _ r]) (auto simp: add_resolver_def get_resolver_def)
qed

lemma added_sound:
  assumes "added name alive i i'" and "sound_resolvers i"
  shows "sound_resolvers i'"
proof -
  obtain r where "sound_resolver r" "\<And>n. get_resolver i' n = (if n = name then Some r else get_resolver i n)"
    using assms(1) by (auto simp: added_def)
  with assms(2) show ?thesis by (simp add: sound_resolvers_def)
qed

lemma added_live: "added name True i i' \<Longrightarrow> live_resolver i' name \<noteq> None"
  by (auto simp: added_def live_resolver_def)

lemma added_other: "added name alive i i' \<Longrightarrow> n \<noteq> name \<Longrightarrow> live_resolver i' n = live_resolver i n"
  by (auto simp: added_def live_resolver_def)

lemma load_resolver_sound: "sound_resolvers i \<Longrightarrow> sound_resolvers (load_resolver c i)"
  unfolding load_resolver_def by (rule added_sound [OF added_init [of False]]) simp_all

lemma default_resolver_added:
  assumes "kind \<in> {''KubernetesServiceResolver'', ''KubernetesEndpointResolver''} \<or>
       kind = ''ConsulResolver'' \<and> truthy (pget kwargs ''datacenter'')"
  shows "added name True i (default_resolver kind ns kwargs name i)"
  unfolding default_resolver_def using assms by (intro added_init)

lemma live_resolver_sound:
  "sound_resolvers i \<Longrightarrow> live_resolver i n = Some r \<Longrightarrow> sound_resolver r \<and> ir_bool r"
  by (auto simp: live_resolver_def sound_resolvers_def split: option.splits if_splits)

lemma alias_resolver_added:
  assumes "sound_resolvers i" and "live_resolver i n = Some r"
  shows "added name True j (alias_resolver r name j)"
  unfolding alias_resolver_def
proof (rule added_init)
  have d: "pget (dset ''metadata_labels'' l (ddel ''resolve_with'' a)) ''datacenter'' = pget a ''datacenter''" for l a
    by simp
  show "ir_kind r \<in> {''KubernetesServiceResolver'', ''KubernetesEndpointResolver''} \<or>
    ir_kind r = ''ConsulResolver'' \<and>
      truthy (pget (dset ''metadata_labels'' (ir_labels r) (ddel ''resolve_with'' (ir_attrs r))) ''datacenter'')"
    unfolding d using live_resolver_sound [OF assms] by (auto simp: sound_resolver_def rget_def)
qed

lemma alias_pair_result:
  assumes "n1 \<noteq> n2" and "\<And>n j. added n True j (create n j)" and "sound_resolvers i"
  shows "sound_resolvers (alias_pair n1 n2 create i) \<and>
    live_resolver (alias_pair n1 n2 create i) n1 \<noteq> None \<and> live_resolver (alias_pair n1 n2 create i) n2 \<noteq> None \<and>
    (\<forall>n. n \<noteq> n1 \<longrightarrow> n \<noteq> n2 \<longrightarrow> live_resolver (alias_pair n1 n2 create i) n = live_resolver i n)"
proof (cases "live_resolver i n1 = None"; cases "live_resolver i n2 = None")
  assume n: "live_resolver i n1 = None" "live_resolver i n2 = None"
  let ?j = "create n2 i"
  have eq: "alias_pair n1 n2 create i = create n1 ?j" using n by (simp add: alias_pair_def)
  have a: "added n2 True i ?j" "added n1 True ?j (create n1 ?j)" by (rule assms(2))+
  show ?thesis
    unfolding eq using added_sound [OF a(2) added_sound [OF a(1) assms(3)]] added_live [OF a(2)] added_live [OF a(1)]
      added_other [OF a(2)] added_other [OF a(1)] assms(1) by auto
next
  assume n: "live_resolver i n1 = None" "live_resolver i n2 \<noteq> None"
  then obtain r where r: "live_resolver i n2 = Some r" by blast
  have eq: "alias_pair n1 n2 create i = alias_resolver r n1 i"
    using n r by (simp add: alias_pair_def check_aliases_def)
  have a: "added n1 True i (alias_resolver r n1 i)" by (rule alias_resolver_added [OF assms(3) r])
  show ?thesis
    unfolding eq using added_sound [OF a assms(3)] added_live [OF a] added_other [OF a] n assms(1) by auto
next
  assume n: "live_resolver i n1 \<noteq> None" "live_resolver i n2 = None"
  then obtain r where r: "live_resolver i n1 = Some r" by blast
  have eq: "alias_pair n1 n2 create i = alias_resolver r n2 i"
    using n r by (simp add: alias_pair_def check_aliases_def)
  have a: "added n2 True i (alias_resolver r n2 i)" by (rule alias_resolver_added [OF assms(3) r])
  show ?thesis
    unfolding eq using added_sound [OF a assms(3)] added_live [OF a] added_other [OF a] n assms(1) by auto
next
  assume n: "live_resolver i n1 \<noteq> None" "live_resolver i n2 \<noteq> None"
  then have "alias_pair n1 n2 create i = i" by (auto simp: alias_pair_def check_aliases_def)
  with n assms(3) show ?thesis by simp
qed

lemma load_resolvers_result:
  assumes "resolvers i = []"
  shows "sound_resolvers (load_resolvers cs i) \<and>
    (\<forall>n \<in> set [''kubernetes-service'', ''endpoint'', ''kubernetes-endpoint'', ''consul'', ''consul-endpoint''].
       live_resolver (load_resolvers cs i) n \<noteq> None)"
proof -
  let ?i1 = "fold load_resolver cs i"
  let ?ks = "default_resolver ''KubernetesServiceResolver'' (own_namespace i) [] ''kubernetes-service''"
  define i2 where "i2 = (if live_resolver ?i1 ''kubernetes-service'' = None then ?ks ?i1 else ?i1)"
  let ?e = "default_resolver ''KubernetesEndpointResolver'' (own_namespace i) []"
  let ?c = "default_resolver ''ConsulResolver'' None [(''datacenter'', PStr ''dc1'')]"
  define i3 where "i3 = alias_pair ''endpoint'' ''kubernetes-endpoint'' ?e i2"
  have "sound_resolvers i" using assms by (simp add: sound_resolvers_def get_resolver_def)
  then have s1: "sound_resolvers ?i1"
    by (induction cs arbitrary: i) (simp_all add: load_resolver_sound)
  have ks: "added ''kubernetes-service'' True ?i1 (?ks ?i1)" by (rule default_resolver_added) simp
  have 2: "sound_resolvers i2" "live_resolver i2 ''kubernetes-service'' \<noteq> None"
    using s1 added_sound [OF ks s1] added_live [OF ks] unfolding i2_def by (simp_all split: if_splits)
  have e: "added n True j (?e n j)" for n j by (rule default_resolver_added) simp
  have c: "added n True j (?c n j)" for n j by (rule default_resolver_added) (simp add: pget_def dget_or_def)
  note 3 = alias_pair_result [of "''endpoint''" "''kubernetes-endpoint''" ?e, OF _ e 2(1), folded i3_def]
  have s3: "sound_resolvers i3" using 3 by simp
  note 4 = alias_pair_result [of "''consul''" "''consul-endpoint''" ?c, OF _ c s3]
  have "load_resolvers cs i = alias_pair ''consul'' ''consul-endpoint'' ?c i3"
    by (simp add: load_resolvers_def Let_def i2_def i3_def)
  with 2 3 4 show ?thesis by simp
qed

lemma sound_resolver_handles:
  assumes "sound_resolver r" and "ir_bool r"
  shows "valid_mapping r mi \<noteq> Inl (KeyError k)"
proof (cases "ir_kind r = ''ConsulResolver''")
  case True
  then show ?thesis
    by (cases "rget (fst mi) ''service''") (simp_all add: valid_mapping_def consul_valid_mapping_def Let_def split: prod.split)
next
  case False
  with assms have "ir_kind r \<in> {''KubernetesServiceResolver'', ''KubernetesEndpointResolver''}"
    by (auto simp: sound_resolver_def)
  then show ?thesis by (auto simp: valid_mapping_def)
qed

section \<open>Properties\<close>

text \<open>
  C14: whatever resolvers the configuration has, after loading there is a usable resolver under
  each name that mappings can rely on, the two names of the endpoint resolver and of the Consul
  resolver included, and no usable resolver fails the lookup of its kind on a mapping.
\<close>

theorem resolvers_ready:
  assumes "resolvers i = []"
  shows "(\<forall>n \<in> set [''kubernetes-service'', ''endpoint'', ''kubernetes-endpoint'', ''consul'', ''consul-endpoint''].
      live_resolver (load_resolvers cs i) n \<noteq> None) \<and>
    (live_resolver (load_resolvers cs i) n = Some r \<longrightarrow> valid_mapping r mi \<noteq> Inl (KeyError k))"
proof -
  note l = load_resolvers_result [OF assms, of cs]
  have "valid_mapping r mi \<noteq> Inl (KeyError k)" if "live_resolver (load_resolvers cs i) n = Some r"
    using live_resolver_sound [OF conjunct1 [OF l] that] sound_resolver_handles by blast
  with l show ?thesis by blast
qed

theorem resolvers_ready_witness:
  "live_resolver (load_resolvers [] demo_ir) ''consul'' \<noteq> None"
proof -
  have "resolvers demo_ir = []" by (simp add: demo_ir_def)
  from resolvers_ready [OF this, of "[]"] show ?thesis by simp
qed

end
