(* ===== verification/Mappings.thy ===== *)
theory Mappings
  imports Resolver
begin

text \<open>
  What all mappings share, \<open>IRBaseMapping\<close> of \<open>ir/irbasemapping.py\<close>, and TCP mappings,
  \<open>ir/irtcpmapping.py\<close>. The group id of a mapping is the SHA-1 digest of a text; the digest is the
  parameter \<open>sha1\<close>. The two methods a kind of mapping defines, \<open>_group_id\<close> and \<open>_route_weight\<close>, are
  arguments of \<open>base_setup\<close>.
\<close>

section \<open>Mappings of any kind\<close>

type_synonym mstate = "mapping \<times> ir"

definition make_cache_key :: "string \<Rightarrow> string \<Rightarrow> string \<Rightarrow> string" where
  "make_cache_key kind name ns = kind @ ''-v2-'' @ before CHR ''.'' name @ ''-'' @ ns"

definition mset_attr :: "string \<Rightarrow> pyval \<Rightarrow> mapping \<Rightarrow> mapping" where
  "mset_attr k v m = m\<lparr>ir_attrs := dset k v (ir_attrs m)\<rparr>"

definition mfail :: "string \<Rightarrow> mstate \<Rightarrow> bool \<times> mstate" where
  "mfail msg mi = (False, map_post_error msg mi)"

definition breaker_digits :: "(string \<times> string) list" where
  "breaker_digits = [(''max_connections'', ''c''), (''max_pending_requests'', ''p''), (''max_requests'', ''r''), (''max_retries'', ''t'')]"

text \<open>The fields of a breaker's name, or \<open>None\<close> if the breaker is not valid.\<close>

fun breaker_fields :: "(string \<times> string) list \<Rightarrow> pyval pydict \<Rightarrow> string option res" where
  "breaker_fields [] d = Inr (Some [])"
| "breaker_fields ((field, abbrev) # fs) d =
     (case dget d field of
        None \<Rightarrow> breaker_fields fs d
      | Some v \<Rightarrow>
          (case py_int v of
             Inl (ValueError _) \<Rightarrow> Inr None
           | Inl e \<Rightarrow> Inl e
           | Inr n \<Rightarrow> rbind (breaker_fields fs d) (\<lambda>rest. Inr (map_option (\<lambda>t. abbrev @ str_int n @ t) rest))))"

definition breaker_name :: "pyval pydict \<Rightarrow> string option res" where
  "breaker_name d =
     rbind (case dget d ''priority'' of
              None \<Rightarrow> Inr (Some ''n'')
            | Some v \<Rightarrow> rbind (pv_lower v) (\<lambda>p. Inr (if p \<in> {''default'', ''high''} then Some (take 1 p) else None)))
       (\<lambda>prio. case prio of
          None \<Rightarrow> Inr None
        | Some p \<Rightarrow> rbind (breaker_fields breaker_digits d) (\<lambda>fs. Inr (map_option (\<lambda>t. ''cb'' @ p @ t) fs)))"

fun validate_breakers :: "pyval list \<Rightarrow> (bool \<times> pyval list) res" where
  "validate_breakers [] = Inr (True, [])"
| "validate_breakers (PDict d # bs) =
     (if dhas d ''_name'' then rbind (validate_breakers bs) (\<lambda>(ok, rest). Inr (ok, PDict d # rest))
      else rbind (breaker_name d) (\<lambda>name.
        case name of
          None \<Rightarrow> Inr (False, PDict d # bs)
        | Some n \<Rightarrow> rbind (validate_breakers bs) (\<lambda>(ok, rest). Inr (ok, PDict (dset ''_name'' (PStr n) d) # rest))))"
| "validate_breakers (_ # bs) = Inl (TypeError ''circuit breaker'')"

definition validate_circuit_breakers :: "pyval \<Rightarrow> (bool \<times> pyval) res" where
  "validate_circuit_breakers v =
     (case v of PList bs \<Rightarrow> rbind (validate_breakers bs) (\<lambda>(ok, bs'). Inr (ok, PList bs')) | _ \<Rightarrow> Inr (False, v))"

definition default_resolver_name :: "pyval \<Rightarrow> ir \<Rightarrow> pyval" where
  "default_resolver_name given i =
     (if truthy given then given else dget_or (ambassador_module i) ''resolver'' (PStr ''kubernetes-service''))"

definition resolver_named :: "ir \<Rightarrow> pyval \<Rightarrow> irres option" where
  "resolver_named i v = (case v of PStr n \<Rightarrow> live_resolver i n | _ \<Rightarrow> None)"

definition check_breakers :: "mstate \<Rightarrow> (bool \<times> mstate) res" where
  "check_breakers mi =
     (let (m, i) = mi;
          cb = (if rget m ''circuit_breakers'' = PNone then pget (ambassador_module i) ''circuit_breakers''
                else rget m ''circuit_breakers'')
      in if cb = PNone then Inr (True, mset_attr ''circuit_breakers'' cb m, i)
         else rbind (validate_circuit_breakers cb) (\<lambda>(ok, cb').
           let m1 = mset_attr ''circuit_breakers'' cb' m in
           if ok then Inr (True, m1, i)
           else Inr (mfail (''Invalid circuit_breakers specified: '' @ pv_fmt cb' @ '', invalidating mapping'') (m1, i))))"

definition base_setup ::
  "(mapping \<Rightarrow> ir \<Rightarrow> string res) \<Rightarrow> (mapping \<Rightarrow> pyval list res) \<Rightarrow> mstate \<Rightarrow> (bool \<times> mstate) res" where
  "base_setup group_id route_weight mi =
     (let (m, i) = mi;
          m1 = m\<lparr>ir_cache_key := Some (make_cache_key (ir_kind m) (ir_name m) (ir_namespace m)), m_cluster_key := None\<rparr>
      in rbind (group_id m1 i) (\<lambda>g.
         let m2 = mset_attr ''group_id'' (PStr g) m1 in
         rbind (route_weight m2) (\<lambda>w.
         let m3 = mset_attr ''resolver'' (default_resolver_name (rget m2 ''resolver'') i) (m2\<lparr>m_route_weight := w\<rparr>) in
         case resolver_named i (rget m3 ''resolver'') of
           None \<Rightarrow> Inr (mfail (''resolver '' @ pv_fmt (rget m3 ''resolver'') @ '' is unknown!'') (m3, i))
         | Some r \<Rightarrow> rbind (valid_mapping r (m3, i)) (\<lambda>(ok, mi4).
             if \<not> ok then Inr (False, mi4) else check_breakers mi4))))"

definition get_label :: "mapping \<Rightarrow> string \<Rightarrow> pyval" where
  "get_label m key = (case ir_labels m of PDict d \<Rightarrow> (if truthy (pget d key) then pget d key else PNone) | _ \<Rightarrow> PNone)"

definition summarize_errors :: "mapping \<Rightarrow> ir \<Rightarrow> string" where
  "summarize_errors m i =
     (case dget_or (errors (ir_aconf i)) (ir_rkey m) [] of
        [] \<Rightarrow> ''(no errors)''
      | e # es \<Rightarrow> pv_fmt (por (pget e ''error'') (PStr ''unknown error?'')) @ (if es = [] then [] else '' (and more)''))"

definition mapping_status :: "mapping \<Rightarrow> ir \<Rightarrow> pyval" where
  "mapping_status m i =
     (if m_class m = ''IRTCPMapping'' then PNone
      else if \<not> is_active m
      then PDict [(''state'', PStr ''Inactive''), (''reason'', PStr (summarize_errors m i))]
      else PDict [(''state'', PStr ''Running'')])"

definition check_status :: "mapping \<Rightarrow> ir \<Rightarrow> ir" where
  "check_status m i =
     (case get_label m ''ambassador_crd'' of
        PStr crd \<Rightarrow>
          if pv_eq (mapping_status m i) (cached_status m) then i
          else i\<lparr>ir_aconf := (ir_aconf i)\<lparr>k8s_status_updates :=
                 dset crd (''Mapping'', ir_namespace m, mapping_status m i) (k8s_status_updates (ir_aconf i))\<rparr>\<rparr>
      | _ \<Rightarrow> i)"

definition new_mapping ::
  "string \<Rightarrow> string \<Rightarrow> string \<Rightarrow> string \<Rightarrow> string \<Rightarrow> string option \<Rightarrow> pyval \<Rightarrow> pyval pydict \<Rightarrow> ir \<Rightarrow> mapping" where
  "new_mapping cls kind rkey name location ns labels attrs i =
     \<lparr>ir_rkey = rkey, ir_location = location, ir_kind = kind, ir_name = name,
      ir_namespace = (if ns = None \<or> ns = Some [] then ambassador_namespace (ir_settings i) else the ns),
      ir_labels = labels, ir_active = False, ir_errored = False, ir_cache_key = None, ir_attrs = attrs,
      m_class = cls, m_weight = 0, m_cluster_key = None, m_route_weight = [], cached_status = PNone\<rparr>"

definition resolver_kind_for :: "pyval \<Rightarrow> ir \<Rightarrow> string res" where
  "resolver_kind_for given i =
     (let name = default_resolver_name given i in
      if \<not> truthy name then Inl (AssertionError ''resolver_name'')
      else Inr (case resolver_named i name of Some r \<Rightarrow> ir_kind r | None \<Rightarrow> ''KubernetesBogusResolver''))"

section \<open>TCP mappings\<close>

definition TCPAllowedKeys :: "string list" where
  "TCPAllowedKeys = [''address'', ''circuit_breakers'', ''enable_ipv4'', ''enable_ipv6'', ''host'', ''idle_timeout_ms'',
     ''metadata_labels'', ''port'', ''service'', ''tls'', ''weight'', ''resolver'', ''serialization'']"

definition tcp_bind_to :: "mapping \<Rightarrow> string" where
  "tcp_bind_to m = ''tcp-'' @ pv_fmt (por (rget m ''address'') (PStr ''0.0.0.0'')) @ ''-'' @ pv_fmt (rget m ''port'')"

definition tcp_group_text :: "mapping \<Rightarrow> string res" where
  "tcp_group_text m =
     rbind (pv_str (por (rget m ''address'') (PStr ''*''))) (\<lambda>address.
     rbind (case dget (ir_attrs m) ''port'' of None \<Rightarrow> Inl (AttributeError ''port'') | Some v \<Rightarrow> Inr (pv_fmt v)) (\<lambda>port.
     rbind (pv_str (por (rget m ''host'') (PStr ''*''))) (\<lambda>host.
       Inr (''TCP-'' @ address @ port @ host))))"

definition tcp_group_id :: "(string \<Rightarrow> string) \<Rightarrow> mapping \<Rightarrow> ir \<Rightarrow> string res" where
  "tcp_group_id sha1 m i = rbind (tcp_group_text m) (\<lambda>t. Inr (sha1 t))"

definition tcp_route_weight :: "mapping \<Rightarrow> pyval list res" where
  "tcp_route_weight m = Inr [PInt 0]"

definition tcp_mapping_init :: "(string \<Rightarrow> string) \<Rightarrow> ac \<Rightarrow> ir \<Rightarrow> mstate res" where
  "tcp_mapping_init sha1 c i =
     (let kwargs = ac_attrs c;
          new_args = filter (\<lambda>(k, _). k \<in> set TCPAllowedKeys \<and> k \<notin> {''service'', ''metadata_labels''}) kwargs in
      rbind (case dget kwargs ''service'' of None \<Rightarrow> Inl (TypeError ''service'') | Some v \<Rightarrow> pv_str v) (\<lambda>service0.
      rbind (resolver_kind_for (pget kwargs ''resolver'') i) (\<lambda>resolver_kind.
      let (service, i1) = normalize_service_name i service0 (ac_namespace c) resolver_kind (Some (ac_rkey c));
          m = new_mapping ''IRTCPMapping'' (ac_kind c) (ac_rkey c) (ac_name c) (ac_location c) (ac_namespace c)
            (pget kwargs ''metadata_labels'')
            (dset ''service'' (PStr service) (dset ''cluster_tag'' (pget kwargs ''cluster_tag'')
              (dset ''precedence'' (dget_or kwargs ''precedence'' (PInt 0)) new_args))) i1
      in rbind (base_setup (tcp_group_id sha1) tcp_route_weight (m, i1)) (\<lambda>(ok, m1, i2). Inr (set_active ok m1, i2)))))"

end
