(* ===== verification/HttpMapping.thy ===== *)
theory HttpMapping
  imports Mappings Globs
begin

text \<open>
  HTTP mappings, \<open>ir/irhttpmapping.py\<close>, with the parts of \<open>ir/ircors.py\<close> and \<open>ir/irretrypolicy.py\<close>
  that their setup runs. The constructor is cut at the comments of the code: the arguments, the
  headers and the host, the headers to add, the query parameters and the rewrite. A decorated
  header or query parameter is the dictionary that the code makes of it. Defaults are copies, so
  the header for Linkerd is added to the mapping only.
\<close>

section \<open>Decorated keys\<close>

definition kv :: "string \<Rightarrow> pyval \<Rightarrow> pyval \<Rightarrow> pyval" where
  "kv name value regex = PDict [(''name'', PStr name), (''value'', value), (''regex'', regex)]"

fun kv_parts :: "pyval \<Rightarrow> (string \<times> pyval \<times> pyval) res" where
  "kv_parts (PDict d) = rbind (pv_str (pget d ''name'')) (\<lambda>n. Inr (n, pget d ''value'', pget d ''regex''))"
| "kv_parts _ = Inl (AttributeError ''name'')"

definition kv_length :: "pyval \<Rightarrow> int res" where
  "kv_length h =
     rbind (kv_parts h) (\<lambda>(n, v, r).
     rbind (pv_len (por v (PStr ''*''))) (\<lambda>k. Inr (int (length n) + int k + (if truthy r then 1 else 0))))"

definition kv_key :: "pyval \<Rightarrow> string res" where
  "kv_key h =
     rbind (kv_parts h) (\<lambda>(n, v, r). rbind (pv_str (por v (PStr ''*''))) (\<lambda>s. Inr (n @ ''-'' @ s)))"

definition kv_text :: "pyval \<Rightarrow> string res" where
  "kv_text h =
     rbind (kv_parts h) (\<lambda>(n, v, r). if v = PNone then Inr n else rbind (pv_str v) (\<lambda>s. Inr (n @ s)))"

definition kv_list :: "pyval \<Rightarrow> pyval list res" where
  "kv_list v = pv_iter v"

section \<open>The constructor\<close>

definition HTTPAllowedKeys :: "(string \<times> bool) list" where
  "HTTPAllowedKeys =
     [(''add_linkerd_headers'', False), (''auto_host_rewrite'', False), (''bypass_auth'', False),
      (''auth_context_extensions'', False), (''case_sensitive'', False), (''circuit_breakers'', False),
      (''cluster_idle_timeout_ms'', False), (''cluster_max_connection_lifetime_ms'', False),
      (''connect_timeout_ms'', False), (''cors'', False), (''docs'', False), (''dns_type'', False),
      (''enable_ipv4'', False), (''enable_ipv6'', False), (''error_response_overrides'', False), (''grpc'', False),
      (''health_checks'', False), (''host_redirect'', False), (''host_regex'', False), (''host_rewrite'', False),
      (''idle_timeout_ms'', False), (''keepalive'', False), (''labels'', False), (''load_balancer'', False),
      (''metadata_labels'', False), (''method_regex'', False), (''path_redirect'', False), (''prefix_redirect'', False),
      (''regex_redirect'', False), (''redirect_response_code'', False), (''prefix'', False), (''prefix_exact'', False),
      (''prefix_regex'', False), (''priority'', False), (''rate_limits'', False), (''remove_request_headers'', True),
      (''remove_response_headers'', True), (''resolver'', False), (''respect_dns_ttl'', False), (''retry_policy'', False),
      (''service'', False), (''shadow'', False), (''stats_name'', True), (''timeout_ms'', False), (''tls'', False),
      (''use_websocket'', False), (''allow_upgrade'', False), (''weight'', False), (''serialization'', False)]"

text \<open>The keyword arguments proper: what the signature of the constructor names is not among them.\<close>

definition http_kwargs :: "ac \<Rightarrow> pyval pydict" where
  "http_kwargs c = fold ddel [''service'', ''metadata_labels'', ''precedence'', ''rewrite'', ''cluster_tag''] (ac_attrs c)"

definition http_default :: "string \<Rightarrow> pyval \<Rightarrow> ir \<Rightarrow> pyval res" where
  "http_default key default_value i =
     lookup_default (ambassador_module i)
       (new_mapping ''IRHTTPMapping'' [] [] [] [] None PNone [(''default_class'', PStr ''httpmapping'')] i)
       key default_value None"

definition http_arg :: "pyval pydict \<Rightarrow> ir \<Rightarrow> string \<times> bool \<Rightarrow> pyval pydict \<Rightarrow> pyval pydict res" where
  "http_arg kwargs i kc args =
     (let (key, check_defaults) = kc in
      case dget kwargs key of
        Some v \<Rightarrow> Inr (dset key v args)
      | None \<Rightarrow>
          if \<not> check_defaults then Inr args
          else rbind (http_default key PNone i) (\<lambda>v. Inr (if v = PNone then args else dset key v args)))"

definition http_args :: "pyval pydict \<Rightarrow> ir \<Rightarrow> pyval pydict res" where
  "http_args kwargs i =
     rbind (rfold (http_arg kwargs i) HTTPAllowedKeys []) (\<lambda>args.
       let v = pget (ambassador_module i) ''add_linkerd_headers'' in
       Inr (if \<not> dhas args ''add_linkerd_headers'' \<and> v \<noteq> PNone then dset ''add_linkerd_headers'' v args else args))"

definition star_in :: "pyval \<Rightarrow> bool res" where
  "star_in v =
     (case v of
        PStr s \<Rightarrow> Inr (CHR ''*'' \<in> set s)
      | PList vs \<Rightarrow> Inr (\<exists>w \<in> set vs. w = PStr ''*'')
      | PDict d \<Rightarrow> Inr (dhas d ''*'')
      | _ \<Rightarrow> Inl (TypeError ''not iterable''))"

text \<open>The state of the header loop: the headers, the host, and the deferred error.\<close>

type_synonym hstate = "pyval list \<times> pyval \<times> pyval"

definition header_step :: "string \<times> pyval \<Rightarrow> hstate \<Rightarrow> hstate res" where
  "header_step nv st =
     (let (name, value) = nv; (hdrs, host, err) = st in
      if value = PBool True then Inr (hdrs @ [kv name PNone (PBool False)], host, err)
      else if str_lower name = '':authority''
      then rbind (star_in value) (\<lambda>star.
             Inr (if star
                  then (hdrs, host, PStr ('':authority exact-match '' @ [CHR 39] @ pv_fmt value @ [CHR 39] @
                          '' contains *, which cannot match anything.''))
                  else (hdrs, value, err)))
      else Inr (hdrs @ [kv name value (PBool False)], host, err))"

definition items_of :: "pyval pydict \<Rightarrow> string \<Rightarrow> (string \<times> pyval) list res" where
  "items_of kwargs k = (case dget kwargs k of None \<Rightarrow> Inr [] | Some v \<Rightarrow> pv_items v)"

definition host_arg :: "pyval pydict \<Rightarrow> hstate \<Rightarrow> (hstate \<times> pyval) res" where
  "host_arg kwargs st =
     (let (hdrs, host, err) = st in
      case dget kwargs ''host'' of
        None \<Rightarrow> Inr (st, PBool False)
      | Some h \<Rightarrow>
          (let rx = dget_or kwargs ''host_regex'' (PBool False) in
           if truthy rx then Inr ((hdrs, h, err), rx)
           else rbind (star_in h) (\<lambda>star.
             Inr ((hdrs, h, if star then PStr (''host exact-match '' @ pv_fmt h @ '' contains *, which cannot match anything.'')
                            else err), rx))))"

text \<open>The headers of a mapping, its host (\<open>PNone\<close> for a regular expression), and the deferred error.\<close>

definition http_headers :: "pyval pydict \<Rightarrow> hstate res" where
  "http_headers kwargs =
     rbind (items_of kwargs ''headers'') (\<lambda>exact.
     rbind (rfold header_step exact ([], PNone, PNone)) (\<lambda>(hdrs1, host1, err1).
     rbind (items_of kwargs ''regex_headers'') (\<lambda>regex.
     rbind (host_arg kwargs (hdrs1 @ map (\<lambda>(n, v). kv n v (PBool True)) regex, host1, err1)) (\<lambda>((hdrs2, host2, err2), rx2).
       let (host, rx) = (case dget kwargs ''hostname'' of None \<Rightarrow> (host2, rx2) | Some h \<Rightarrow> (h, PBool False));
           hdrs3 = (if truthy host then hdrs2 @ [kv '':authority'' host rx] else hdrs2);
           self_host = (if truthy host \<and> \<not> truthy rx then host else PNone);
           hdrs4 = (case dget kwargs ''method'' of
                      None \<Rightarrow> hdrs3
                    | Some m \<Rightarrow> hdrs3 @ [kv '':method'' m (dget_or kwargs ''method_regex'' (PBool False))])
       in Inr (hdrs4, self_host, err2)))))"

definition websocket_arg :: "pyval pydict \<Rightarrow> pyval pydict res" where
  "websocket_arg args =
     (if \<not> dhas args ''use_websocket'' then Inr args
      else (case dget_or args ''allow_upgrade'' (PList []) of
              PList us \<Rightarrow> Inr (ddel ''use_websocket'' (dset ''allow_upgrade''
                 (PList (if PStr ''websocket'' \<in> set us then us else us @ [PStr ''websocket''])) args))
            | _ \<Rightarrow> Inl (TypeError ''allow_upgrade'')))"

definition added_headers :: "string \<Rightarrow> pyval pydict \<Rightarrow> ir \<Rightarrow> pyval res" where
  "added_headers key kwargs i =
     (case dget kwargs key of Some v \<Rightarrow> Inr v | None \<Rightarrow> http_default key (PDict []) i)"

definition linkerd_headers :: "pyval pydict \<Rightarrow> string \<Rightarrow> pyval \<Rightarrow> pyval res" where
  "linkerd_headers args hostname_port hdrs =
     (if \<not> truthy (dget_or args ''add_linkerd_headers'' (PBool False)) then Inr hdrs
      else (case hdrs of
              PDict h \<Rightarrow> Inr (PDict (dset ''l5d-dst-override'' (PStr hostname_port) h))
            | _ \<Rightarrow> Inl (TypeError ''add_request_headers'')))"

definition http_query :: "pyval pydict \<Rightarrow> pyval list res" where
  "http_query kwargs =
     rbind (items_of kwargs ''query_parameters'') (\<lambda>exact.
     rbind (items_of kwargs ''regex_query_parameters'') (\<lambda>regex.
       Inr (map (\<lambda>(n, v). kv n (if v = PBool True then PNone else v) (PBool False)) exact @
            map (\<lambda>(n, v). kv n v (PBool True)) regex)))"

definition http_rewrite :: "pyval pydict \<Rightarrow> pyval \<Rightarrow> ir \<Rightarrow> (pyval \<times> pyval \<times> ir) res" where
  "http_rewrite kwargs rewrite i =
     (case dget kwargs ''regex_rewrite'' of
        None \<Rightarrow> Inr (rewrite, PDict [], i)
      | Some v \<Rightarrow>
          rbind (pv_get v ''pattern'' (PStr [])) (\<lambda>pattern.
          rbind (pv_get v ''substitution'' (PStr [])) (\<lambda>substitution.
            Inr (PStr [], PDict [(''pattern'', pattern), (''substitution'', substitution)],
                 if truthy rewrite \<and> rewrite \<noteq> PStr ''/''
                 then i\<lparr>ir_aconf := post_notice
                   ''Cannot specify both rewrite and regex_rewrite: using regex_rewrite and ignoring rewrite'' NoResource (ir_aconf i)\<rparr>
                 else i))))"

section \<open>Groups and weights\<close>

definition selector_text :: "(string \<Rightarrow> string option) \<Rightarrow> mapping \<Rightarrow> irres \<Rightarrow> string" where
  "selector_text env m host =
     (let mapsel = rget host ''mappingSelector'' in
      if truthy mapsel \<and> selector_matches env (str_dicts mapsel) (str_dict (ir_labels m))
      then concat (map (\<lambda>(k, v). k @ v) (dget_or (str_dicts mapsel) ''matchLabels'' []))
      else [])"

fun texts :: "pyval list \<Rightarrow> string res" where
  "texts [] = Inr []"
| "texts (h # hs) = rbind (kv_text h) (\<lambda>t. rbind (texts hs) (\<lambda>ts. Inr (t @ ts)))"

definition http_group_text :: "(string \<Rightarrow> string option) \<Rightarrow> mapping \<Rightarrow> ir \<Rightarrow> string res" where
  "http_group_text env m i =
     rbind (pv_str (por (rget m ''method'') (PStr ''GET''))) (\<lambda>meth.
     rbind (case dget (ir_attrs m) ''prefix'' of None \<Rightarrow> Inl (AttributeError ''prefix'') | Some v \<Rightarrow> pv_str v) (\<lambda>prefix.
     rbind (rbind (kv_list (rget m ''headers'')) texts) (\<lambda>hdrs.
     rbind (rbind (kv_list (rget m ''query_parameters'')) texts) (\<lambda>query.
       Inr (''HTTP-'' @ meth @ prefix @ hdrs @ query @
            (if \<not> truthy (rget m ''host'') \<and> ir_labels m \<noteq> PNone
             then concat (map (selector_text env m \<circ> snd) (hosts i)) else []) @
            (if pv_eq (rget m ''precedence'') (PInt 0) then [] else pv_fmt (rget m ''precedence'')))))))"

definition http_group_id :: "(string \<Rightarrow> string) \<Rightarrow> (string \<Rightarrow> string option) \<Rightarrow> mapping \<Rightarrow> ir \<Rightarrow> string res" where
  "http_group_id sha1 env m i = rbind (http_group_text env m i) (\<lambda>t. Inr (sha1 t))"

fun lengths :: "pyval list \<Rightarrow> int res" where
  "lengths [] = Inr 0"
| "lengths (h # hs) = rbind (kv_length h) (\<lambda>n. rbind (lengths hs) (\<lambda>k. Inr (n + k)))"

fun keys_of :: "pyval list \<Rightarrow> pyval list res" where
  "keys_of [] = Inr []"
| "keys_of (h # hs) = rbind (kv_key h) (\<lambda>k. rbind (keys_of hs) (\<lambda>ks. Inr (PStr k # ks)))"

definition http_route_weight :: "mapping \<Rightarrow> pyval list res" where
  "http_route_weight m =
     rbind (kv_list (rget m ''headers'')) (\<lambda>hs.
     rbind (kv_list (rget m ''query_parameters'')) (\<lambda>qs.
     rbind (lengths hs) (\<lambda>len_headers.
     rbind (lengths qs) (\<lambda>len_query.
     rbind (pv_len (rget m ''prefix'')) (\<lambda>len_prefix.
     rbind (keys_of hs) (\<lambda>hkeys.
     rbind (keys_of qs) (\<lambda>qkeys.
       Inr ([rget m ''precedence'', PInt (int len_prefix), PInt len_headers, PInt len_query, rget m ''prefix'',
             dget_or (ir_attrs m) ''method'' (PStr ''GET'')] @ hkeys @ qkeys))))))))"

section \<open>Setup\<close>

definition cors_normalize :: "pyval \<Rightarrow> pyval" where
  "cors_normalize v = (case v of PList vs \<Rightarrow> PStr (join_with '', '' (map pv_fmt vs)) | _ \<Rightarrow> v)"

definition cors_keys :: "(string \<times> string) list" where
  "cors_keys = [(''max_age'', ''max_age''), (''credentials'', ''allow_credentials''), (''methods'', ''allow_methods''),
     (''headers'', ''allow_headers''), (''exposed_headers'', ''expose_headers'')]"

definition cors_filter :: "string \<Rightarrow> pyval" where
  "cors_filter group_id =
     PDict [(''default_value'', PDict [(''denominator'', PStr ''HUNDRED''), (''numerator'', PInt 100)]),
            (''runtime_key'', PStr (''routing.cors_enabled.'' @ group_id))]"

definition cors_init :: "pyval \<Rightarrow> pyval res" where
  "cors_init v =
     (case v of
        PDict kwargs \<Rightarrow>
          (let renamed = List.map_filter (\<lambda>(f, t). if truthy (pget kwargs f) then Some (t, cors_normalize (pget kwargs f)) else None) cors_keys
           in rbind (if pget kwargs ''origins'' = PNone then Inr renamed
                     else rbind (pv_iter (pget kwargs ''origins'')) (\<lambda>os.
                       Inr (renamed @ [(''allow_origin_string_match'', PList (map (\<lambda>x. PDict [(''exact'', x)]) os))])))
                (\<lambda>new_kwargs. Inr (PDict (new_kwargs @ [(''filter_enabled'', cors_filter ''unset'')]))))
      | _ \<Rightarrow> Inl (TypeError ''cors''))"

definition validate_retry_policy :: "pyval pydict \<Rightarrow> bool" where
  "validate_retry_policy d \<longleftrightarrow> pget d ''retry_on'' \<in> PStr ` {''5xx'', ''gateway-error'', ''connect-failure'', ''retriable-4xx'',
     ''refused-stream'', ''retriable-status-codes''}"

definition validate_load_balancer :: "pyval \<Rightarrow> bool res" where
  "validate_load_balancer v =
     (case v of
        PDict lb \<Rightarrow>
          (let policy = pget lb ''policy'' in
           if policy \<in> PStr ` {''round_robin'', ''least_request''} then Inr (length lb = 1)
           else if policy \<in> PStr ` {''ring_hash'', ''maglev''}
           then if length lb \<noteq> 2 then Inr False
                else (case dget lb ''cookie'' of
                        Some (PDict cookie) \<Rightarrow> Inr (dhas cookie ''name'')
                      | Some (PStr s) \<Rightarrow> Inr (find_sub ''name'' s \<noteq> None)
                      | Some (PList vs) \<Rightarrow> Inr (PStr ''name'' \<in> set vs)
                      | Some _ \<Rightarrow> Inl (TypeError ''cookie'')
                      | None \<Rightarrow> Inr (dhas lb ''header'' \<or> dhas lb ''source_ip''))
           else Inr False)
      | _ \<Rightarrow> Inl (AttributeError ''get''))"

definition enforce_mutual_exclusion :: "string \<Rightarrow> string \<Rightarrow> mstate \<Rightarrow> mstate" where
  "enforce_mutual_exclusion preferred other mi =
     (let (m, i) = mi in
      if dhas (ir_attrs m) preferred \<and> dhas (ir_attrs m) other
      then (m\<lparr>ir_attrs := ddel other (ir_attrs m)\<rparr>,
            ir_post_error (''Cannot specify both '' @ preferred @ '' and '' @ other @ ''. Using '' @ preferred @
              '' and ignoring '' @ other @ ''.'') (Other (ir_rkey m)) i)
      else mi)"

definition setup_cors :: "mstate \<Rightarrow> (bool \<times> mstate) res" where
  "setup_cors mi =
     (let (m, i) = mi in
      case dget (ir_attrs m) ''cors'' of
        None \<Rightarrow> Inr (True, mi)
      | Some v \<Rightarrow> rbind (cors_init v) (\<lambda>c. Inr (True, mset_attr ''cors'' c m, i)))"

definition setup_retry :: "mstate \<Rightarrow> (bool \<times> mstate) res" where
  "setup_retry mi =
     (let (m, i) = mi in
      case dget (ir_attrs m) ''retry_policy'' of
        None \<Rightarrow> Inr (True, mi)
      | Some (PDict d) \<Rightarrow>
          if validate_retry_policy d then Inr (True, mi)
          else Inr (False, m, ir_post_error ''Invalid retry policy specified: <IRRetryPolicy ir.retrypolicy>'' (Other ''ir.retrypolicy'') i)
      | Some _ \<Rightarrow> Inl (TypeError ''retry_policy''))"

definition setup_overrides :: "mstate \<Rightarrow> mstate" where
  "setup_overrides mi =
     (if dhas (ir_attrs (fst mi)) ''error_response_overrides''
      then map_post_error ''error_response_overrides is not supported in Emissary 4 and will be ignored'' mi else mi)"

definition setup_balancer :: "mstate \<Rightarrow> (bool \<times> mstate) res" where
  "setup_balancer mi =
     (let lb = rget (fst mi) ''load_balancer'' in
      if lb = PNone then Inr (True, mi)
      else rbind (validate_load_balancer lb) (\<lambda>ok.
        Inr (if ok then (True, mi)
             else mfail (''Invalid load_balancer specified: '' @ pv_fmt lb @ '', invalidating mapping'') mi)))"

definition exclude_redirects :: "mstate \<Rightarrow> mstate" where
  "exclude_redirects mi =
     enforce_mutual_exclusion ''prefix_redirect'' ''regex_redirect''
       (enforce_mutual_exclusion ''path_redirect'' ''regex_redirect''
         (enforce_mutual_exclusion ''path_redirect'' ''prefix_redirect'' mi))"

definition andthen :: "(bool \<times> mstate) res \<Rightarrow> (mstate \<Rightarrow> (bool \<times> mstate) res) \<Rightarrow> (bool \<times> mstate) res" where
  "andthen r f = rbind r (\<lambda>(ok, mi). if ok then f mi else Inr (False, mi))"

definition http_setup :: "(string \<Rightarrow> string) \<Rightarrow> (string \<Rightarrow> string option) \<Rightarrow> mstate \<Rightarrow> (bool \<times> mstate) res" where
  "http_setup sha1 env mi =
     (let err = rget (fst mi) ''_deferred_error'' in
      if truthy err then Inr (mfail (pv_fmt err) mi)
      else andthen (base_setup (http_group_id sha1 env) http_route_weight mi) (\<lambda>mi1.
           andthen (setup_cors mi1) (\<lambda>mi2.
           andthen (setup_retry mi2) (\<lambda>mi3.
           andthen (setup_balancer (setup_overrides mi3)) (\<lambda>mi4.
             Inr (True, exclude_redirects mi4))))))"

text \<open>The end of the constructor, in three steps: the mapping is made, its attributes are put together, and the rest.\<close>

definition http_create ::
  "(string \<Rightarrow> string) \<Rightarrow> (string \<Rightarrow> string option) \<Rightarrow> ac \<Rightarrow> pyval pydict \<Rightarrow> ir \<Rightarrow> mstate res" where
  "http_create sha1 env c attrs i =
     (let m = new_mapping ''IRHTTPMapping'' (ac_kind c) (ac_rkey c) (ac_name c) (ac_location c) (ac_namespace c)
                (pget (ac_attrs c) ''metadata_labels'') attrs i
      in rbind (http_setup sha1 env (m, i)) (\<lambda>(ok, m1, i1).
           let mi = (set_active ok m1, i1) in
           Inr (if dhas (http_kwargs c) ''outlier_detection''
                then map_post_error ''outlier_detection is not supported'' mi else mi)))"

definition http_build ::
  "(string \<Rightarrow> string) \<Rightarrow> (string \<Rightarrow> string option) \<Rightarrow> ac \<Rightarrow> pyval pydict \<Rightarrow> pyval list \<Rightarrow> pyval \<Rightarrow> pyval \<Rightarrow> pyval \<Rightarrow>
     string \<Rightarrow> ir \<Rightarrow> mstate res" where
  "http_build sha1 env c args hdrs host req0 resp service i =
     (let kwargs = http_kwargs c in
      rbind (parsed_service service True None) (\<lambda>svc.
      rbind (linkerd_headers args (ps_hostname_port svc) req0) (\<lambda>req.
      rbind (http_query kwargs) (\<lambda>query.
      rbind (http_rewrite kwargs (dget_or (ac_attrs c) ''rewrite'' (PStr ''/'')) i) (\<lambda>(rewrite, regex_rewrite, i1).
        http_create sha1 env c
          (dupdate [(''default_class'', PStr ''httpmapping''), (''host'', host), (''service'', PStr service),
             (''headers'', PList hdrs), (''add_request_headers'', req), (''add_response_headers'', resp),
             (''precedence'', dget_or (ac_attrs c) ''precedence'' (PInt 0)), (''rewrite'', rewrite),
             (''cluster_tag'', pget (ac_attrs c) ''cluster_tag''), (''query_parameters'', PList query),
             (''regex_rewrite'', regex_rewrite)] args) i1)))))"

definition http_mapping_init ::
  "(string \<Rightarrow> string) \<Rightarrow> (string \<Rightarrow> string option) \<Rightarrow> ac \<Rightarrow> ir \<Rightarrow> mstate res" where
  "http_mapping_init sha1 env c i =
     (let kwargs = http_kwargs c in
      rbind (case dget (ac_attrs c) ''service'' of None \<Rightarrow> Inl (TypeError ''service'') | Some v \<Rightarrow> pv_str v) (\<lambda>service0.
      rbind (http_args kwargs i) (\<lambda>args0.
      rbind (http_headers kwargs) (\<lambda>(hdrs, host, err).
      rbind (websocket_arg (if err = PNone then args0 else dset ''_deferred_error'' err args0)) (\<lambda>args.
      rbind (added_headers ''add_request_headers'' kwargs i) (\<lambda>req0.
      rbind (added_headers ''add_response_headers'' kwargs i) (\<lambda>resp.
      rbind (resolver_kind_for (pget kwargs ''resolver'') i) (\<lambda>resolver_kind.
      let (service, i1) = normalize_service_name i service0 (ac_namespace c) resolver_kind (Some (ac_rkey c))
      in http_build sha1 env c args hdrs host req0 resp service i1))))))))"

end
