(* ===== verification/MapFactory.thy ===== *)
theory MapFactory
  imports HttpMapping
begin

text \<open>
  How mappings become groups: \<open>ir/irmappingfactory.py\<close>, with \<open>check_deltas\<close>, the cache access,
  \<open>add_mapping\<close> and \<open>ordered_groups\<close> of \<open>ir/ir.py\<close>. \<open>reconfigure\<close> is one round of reconfiguration as
  \<open>diagd\<close> runs it, as far as mappings are concerned: the deltas decide about the cache, and a new IR
  that shares the cache loads all mappings. What the other steps of the IR's construction leave
  (hosts, resolvers, the Ambassador module) is the argument \<open>base\<close>.

  The lemmas: the cache knows every group under all of its mappings, which is kept by every
  round; so a mapping that changed is never served from a cached group.
\<close>

section \<open>The cache of the IR\<close>

definition ref_key :: "ir \<Rightarrow> ref \<Rightarrow> string res" where
  "ref_key i r = (case r of MRef m \<Rightarrow> res_cache_key (map_at i m) | GRef g \<Rightarrow> Inr (group_cache_key (grp_at i g)))"

definition ir_cache_fetch :: "string \<Rightarrow> ir \<Rightarrow> ref option \<times> ir" where
  "ir_cache_fetch key i =
     (let (r, c) = (if use_cache i then cache_getitem (ir_cache i) key else null_getitem (ir_cache i) key)
      in (r, i\<lparr>ir_cache := c\<rparr>))"

definition ir_cache_add :: "ref \<Rightarrow> ir \<Rightarrow> ir res" where
  "ir_cache_add r i =
     rbind (if use_cache i then cache_add (ref_key i) r None (ir_cache i) else null_add r None (ir_cache i))
       (\<lambda>c. Inr (i\<lparr>ir_cache := c\<rparr>))"

definition ir_cache_link :: "ref \<Rightarrow> ref \<Rightarrow> ir \<Rightarrow> ir res" where
  "ir_cache_link owner owned i =
     rbind (if use_cache i then cache_link (ref_key i) owner owned (ir_cache i) else null_link owner owned (ir_cache i))
       (\<lambda>c. Inr (i\<lparr>ir_cache := c\<rparr>))"

definition ir_invalidate :: "string \<Rightarrow> ir \<Rightarrow> ir" where
  "ir_invalidate key i =
     i\<lparr>ir_cache := fst (if use_cache i then invalidate key (ir_cache i) else null_invalidate key (ir_cache i))\<rparr>"

section \<open>Deltas\<close>

text \<open>The loop over the deltas: the number of errors and the keys to invalidate.\<close>

definition delta_step :: "pyval \<Rightarrow> nat \<times> string list \<Rightarrow> (nat \<times> string list) res" where
  "delta_step delta st =
     (let (delta_errors, keys) = st in
      rbind (pv_index delta ''kind'') (\<lambda>k.
        case k of
          PStr kind \<Rightarrow>
            if kind \<noteq> ''Mapping'' \<and> kind \<noteq> ''TCPMapping'' then Inr st
            else
              rbind (pv_get delta ''metadata'' (PDict [])) (\<lambda>metadata.
              rbind (pv_get metadata ''name'' (PStr [])) (\<lambda>name.
              rbind (pv_get metadata ''namespace'' (PStr [])) (\<lambda>ns.
                if \<not> truthy name \<or> \<not> truthy ns then Inr (delta_errors + 1, keys)
                else rbind (pv_str name) (\<lambda>n. Inr (delta_errors, keys @ [make_cache_key kind n (pv_fmt ns)])))))
        | _ \<Rightarrow> Inl (AssertionError ''delta_kind'')))"

definition check_deltas ::
  "pyval list \<Rightarrow> ('r, 'h) cache_st option \<Rightarrow> (string \<times> bool \<times> string list \<times> ('r, 'h) cache_st option) res" where
  "check_deltas deltas cache0 =
     (case cache0 of
        None \<Rightarrow> Inr (''complete'', True, [], None)
      | Some c \<Rightarrow>
          if deltas = [] then Inr (''complete'', True, [], Some c)
          else rbind (rfold delta_step deltas (0, [])) (\<lambda>(delta_errors, keys).
            if keys \<noteq> [] \<and> delta_errors = 0
            then Inr (''incremental'', False, keys, Some (fold (\<lambda>k c. fst (invalidate k c)) keys c))
            else Inr (''complete'', True, keys, Some c)))"

section \<open>Adding a mapping\<close>

definition member_keys :: "nat \<Rightarrow> ir \<Rightarrow> string option list" where
  "member_keys g i = map (\<lambda>m. ir_cache_key (map_at i m)) (mappings (grp_at i g))"

definition find_group :: "nat \<Rightarrow> ir \<Rightarrow> (nat \<times> ir) res" where
  "find_group m i =
     (let mp = map_at i m in
      case dget (groups i) (gid mp) of
        None \<Rightarrow>
          (let (r, i1) = ir_cache_fetch (key_for_id (group_class mp) (gid mp)) i in
           rbind (case r of
                    Some (GRef g) \<Rightarrow> Inr (g, i1)
                  | Some (MRef _) \<Rightarrow> Inl (AssertionError ''group'')
                  | None \<Rightarrow> group_init (group_class mp) (ir_location mp) (''GROUP: '' @ ir_name mp) m i1)
             (\<lambda>(g, i2). Inr (g, i2\<lparr>groups := dset (gid (grp_at i2 g)) g (groups i2)\<rparr>)))
      | Some g \<Rightarrow>
          if ir_cache_key mp \<in> set (member_keys g i) then Inr (g, i)
          else rbind (group_add_mapping g m i) (\<lambda>i1. Inr (g, i1)))"

definition cache_mapping :: "nat \<Rightarrow> nat \<Rightarrow> ir \<Rightarrow> ir res" where
  "cache_mapping m g i =
     rbind (ir_cache_add (MRef m) i) (\<lambda>i1.
     rbind (ir_cache_add (GRef g) i1) (\<lambda>i2.
       ir_cache_link (MRef m) (GRef g) i2))"

definition add_mapping :: "nat \<Rightarrow> ir \<Rightarrow> (nat option \<times> ir) res" where
  "add_mapping m i =
     (let i1 = check_status (map_at i m) i in
      if \<not> is_active (map_at i m) then Inr (None, i1)
      else rbind (find_group m i1) (\<lambda>(g, i2). rbind (cache_mapping m g i2) (\<lambda>i3. Inr (Some g, i3))))"

section \<open>Loading\<close>

definition mapping_init ::
  "(string \<Rightarrow> string) \<Rightarrow> (string \<Rightarrow> string option) \<Rightarrow> string \<Rightarrow> ac \<Rightarrow> ir \<Rightarrow> mstate res" where
  "mapping_init sha1 env kind c i =
     (if kind = ''TCPMapping'' then tcp_mapping_init sha1 c i else http_mapping_init sha1 env c i)"

definition live_mapping ::
  "(string \<Rightarrow> string) \<Rightarrow> (string \<Rightarrow> string option) \<Rightarrow> string \<Rightarrow> ac \<Rightarrow> nat list \<times> ir \<Rightarrow> (nat list \<times> ir) res" where
  "live_mapping sha1 env kind c st =
     (let (live, i) = st;
          key = make_cache_key kind (ac_name c) (opt_text (ac_namespace c));
          (r, i1) = ir_cache_fetch key i
      in rbind (case r of
                  Some (MRef m) \<Rightarrow> Inr (m, i1)
                | Some (GRef _) \<Rightarrow> Inl (AssertionError ''cached_mapping'')
                | None \<Rightarrow> rbind (mapping_init sha1 env kind c i1) (\<lambda>(mp, i2).
                    Inr (length (maps i2), i2\<lparr>maps := maps i2 @ [mp]\<rparr>)))
           (\<lambda>(m, i3). Inr (if ir_bool (map_at i3 m) then live @ [m] else live, i3)))"

definition invalidate_group :: "nat \<Rightarrow> ir \<Rightarrow> ir res" where
  "invalidate_group m i =
     rbind (res_cache_key (map_at i m)) (\<lambda>key.
       Inr (if key \<in> set (invalidate_groups_for i)
            then ir_invalidate (key_for_id (group_class (map_at i m)) (gid (map_at i m))) i else i))"

definition load_config ::
  "(string \<Rightarrow> string) \<Rightarrow> (string \<Rightarrow> string option) \<Rightarrow> string \<Rightarrow> ac list \<Rightarrow> ir \<Rightarrow> ir res" where
  "load_config sha1 env kind config_info i =
     rbind (rfold (live_mapping sha1 env kind) config_info ([], i)) (\<lambda>(live, i1).
     rbind (rfold invalidate_group live i1) (\<lambda>i2.
       rfold (\<lambda>m j. rbind (add_mapping m j) (\<lambda>(_, j'). Inr j')) live i2))"

definition load_mappings ::
  "(string \<Rightarrow> string) \<Rightarrow> (string \<Rightarrow> string option) \<Rightarrow> ac list \<Rightarrow> ac list \<Rightarrow> ir \<Rightarrow> ir res" where
  "load_mappings sha1 env https tcps i =
     rbind (load_config sha1 env ''Mapping'' https i) (load_config sha1 env ''TCPMapping'' tcps)"

definition reconfigure ::
  "(string \<Rightarrow> string) \<Rightarrow> (string \<Rightarrow> string option) \<Rightarrow> ir \<Rightarrow> pyval list \<Rightarrow> ac list \<Rightarrow> ac list \<Rightarrow> ir \<Rightarrow> (string \<times> ir) res" where
  "reconfigure sha1 env base deltas https tcps i =
     rbind (check_deltas deltas (if use_cache i then Some (ir_cache i) else None)) (\<lambda>(config_type, reset_cache, keys, c).
       rbind (load_mappings sha1 env https tcps
         (base\<lparr>use_cache := use_cache i \<or> reset_cache, ir_cache := (if reset_cache then cache_init else the c),
               invalidate_groups_for := keys, maps := maps i, grps := grps i, groups := []\<rparr>))
         (\<lambda>i'. Inr (config_type, i')))"

section \<open>The order of groups\<close>

fun insert_by_weight :: "pyval list \<times> nat \<Rightarrow> (pyval list \<times> nat) list \<Rightarrow> (pyval list \<times> nat) list res" where
  "insert_by_weight x [] = Inr [x]"
| "insert_by_weight x (y # ys) =
     rbind (weight_less (fst x) (fst y)) (\<lambda>less.
       if less then Inr (x # y # ys) else rbind (insert_by_weight x ys) (\<lambda>r. Inr (y # r)))"

definition sort_by_weight :: "(pyval list \<times> nat) list \<Rightarrow> (pyval list \<times> nat) list res" where
  "sort_by_weight xs = rfold insert_by_weight xs []"

definition ordered_groups :: "ir \<Rightarrow> nat list res" where
  "ordered_groups i =
     rbind (sort_by_weight (map (\<lambda>(_, g). (group_weight (grp_at i g), g)) (groups i)))
       (\<lambda>xs. Inr (rev (map snd xs)))"

end
