(* ===== verification/MapInv.thy ===== *)
theory MapInv
  imports MapFactory
begin

text \<open>
  The invariant of mappings, groups and cache: every group that is cached or in use is owned, in
  the cache, by the key of each of its mappings. It is kept by every round of reconfiguration, and
  it is why a cached group never outlives one of its mappings.
\<close>

section \<open>Frames\<close>

text \<open>States that agree on everything the invariant speaks about.\<close>

definition same_core :: "ir \<Rightarrow> ir \<Rightarrow> bool" where
  "same_core i i' \<longleftrightarrow> maps i' = maps i \<and> grps i' = grps i \<and> ir_cache i' = ir_cache i \<and> groups i' = groups i \<and>
     use_cache i' = use_cache i \<and> invalidate_groups_for i' = invalidate_groups_for i"

lemma same_core_refl [simp]: "same_core i i"
  by (simp add: same_core_def)

lemma same_core_trans: "same_core i j \<Longrightarrow> same_core j k \<Longrightarrow> same_core i k"
  by (simp add: same_core_def)

lemma same_core_post [simp]: "same_core i (ir_post_error msg r i)"
  by (simp add: same_core_def)

lemma same_core_aconf [simp]: "same_core i (i\<lparr>ir_aconf := c\<rparr>)" "same_core i (i\<lparr>ambassador_module := d\<rparr>)"
  by (simp_all add: same_core_def)

lemma same_core_check_status [simp]: "same_core i (check_status m i)"
  by (simp add: check_status_def split: pyval.split)

lemma same_core_normalize [simp]: "same_core i (snd (normalize_service_name i s ns kind rkey))"
  by (auto simp: normalize_service_name_def Let_def split: sum.split prod.split)

text \<open>What a step of a mapping's setup keeps: the core of the IR and the identity of the mapping.\<close>

definition keeps :: "mstate \<Rightarrow> mstate \<Rightarrow> bool" where
  "keeps mi mi' \<longleftrightarrow> same_core (snd mi) (snd mi') \<and> ir_cache_key (fst mi') = ir_cache_key (fst mi) \<and>
     ir_kind (fst mi') = ir_kind (fst mi)"

lemma keeps_refl [simp]: "keeps mi mi"
  by (simp add: keeps_def)

lemma keeps_trans: "keeps a b \<Longrightarrow> keeps b c \<Longrightarrow> keeps a c"
  by (auto simp: keeps_def intro: same_core_trans)

lemma keeps_post [simp]: "keeps mi (map_post_error msg mi)"
  by (cases mi) (simp add: keeps_def map_post_error_def res_post_error_def)

lemma keeps_attr [simp]: "keeps (m, i) (mset_attr k v m, i)"
  by (simp add: keeps_def mset_attr_def)

lemma keeps_mfail [simp]: "keeps mi (snd (mfail msg mi))"
  by (simp add: mfail_def)

lemma keeps_exclusion [simp]: "keeps mi (enforce_mutual_exclusion a b mi)"
  by (cases mi) (simp add: enforce_mutual_exclusion_def keeps_def)

lemma keeps_exclude [simp]: "keeps mi (exclude_redirects mi)"
  unfolding exclude_redirects_def by (rule keeps_trans, rule keeps_trans) (rule keeps_exclusion)+

lemma keeps_overrides [simp]: "keeps mi (setup_overrides mi)"
  by (simp add: setup_overrides_def)

lemma keeps_cors: "setup_cors mi = Inr (ok, mi') \<Longrightarrow> keeps mi mi'"
  by (cases mi) (auto simp: setup_cors_def rbind_eq_Inr split: option.splits)

lemma keeps_retry: "setup_retry mi = Inr (ok, mi') \<Longrightarrow> keeps mi mi'"
  by (cases mi) (auto simp: setup_retry_def keeps_def split: option.splits pyval.splits if_splits)

lemma keeps_balancer: "setup_balancer mi = Inr (ok, mi') \<Longrightarrow> keeps mi mi'"
  by (auto simp: setup_balancer_def rbind_eq_Inr Let_def mfail_def split: if_splits)

lemma keeps_notice [simp]: "keeps (m, i) (m, i\<lparr>ir_aconf := c\<rparr>)"
  by (simp add: keeps_def)

lemma keeps_consul:
  assumes "consul_valid_mapping mi = Inr (ok, mi')"
  shows "keeps mi mi'"
proof -
  obtain svc where svc: "pv_str (rget (fst mi) ''service'') = Inr svc"
    using assms by (auto simp: consul_valid_mapping_def rbind_eq_Inr)
  obtain v m1 i1 where q: "(if CHR ''.'' \<in> set svc
      then (False, map_post_error ''The Consul resolver does not allow dots in service names'' mi) else (True, mi)) = (v, m1, i1)"
    by (metis prod_cases3)
  then have 1: "keeps mi (m1, i1)"
    using keeps_post [of mi "''The Consul resolver does not allow dots in service names''"]
    by (cases "CHR ''.'' \<in> set svc") auto
  have "keeps (m1, i1) mi'"
    using assms svc q by (auto simp: consul_valid_mapping_def Let_def)
  with 1 show ?thesis by (rule keeps_trans)
qed

lemma keeps_balancer_overrides: "setup_balancer (setup_overrides mi) = Inr (ok, mi') \<Longrightarrow> keeps mi mi'"
  using keeps_trans [OF keeps_overrides keeps_balancer] .

lemma keeps_three: "keeps a b \<Longrightarrow> keeps b c \<Longrightarrow> keeps c d \<Longrightarrow> keeps a d"
  by (blast intro: keeps_trans)

lemma keeps_excluded: "keeps a b \<Longrightarrow> keeps b c \<Longrightarrow> keeps c d \<Longrightarrow> keeps a (exclude_redirects d)"
  by (blast intro: keeps_trans keeps_exclude)

lemma keeps_valid_mapping: "valid_mapping r mi = Inr (ok, mi') \<Longrightarrow> keeps mi mi'"
  by (auto simp: valid_mapping_def k8s_svc_valid_mapping_def split: if_splits dest: keeps_consul)

lemma keeps_breakers: "check_breakers mi = Inr (ok, mi') \<Longrightarrow> keeps mi mi'"
  by (cases mi) (auto simp: check_breakers_def rbind_eq_Inr Let_def mfail_def split: if_splits
      intro: keeps_trans [OF keeps_attr keeps_post])

lemma base_setup_keeps:
  assumes "base_setup gf rf (m, i) = Inr (ok, m', i')"
  shows "same_core i i' \<and> ir_cache_key m' = Some (make_cache_key (ir_kind m) (ir_name m) (ir_namespace m))"
proof -
  let ?m1 = "m\<lparr>ir_cache_key := Some (make_cache_key (ir_kind m) (ir_name m) (ir_namespace m)), m_cluster_key := None\<rparr>"
  obtain g w where gw: "gf ?m1 i = Inr g" "rf (mset_attr ''group_id'' (PStr g) ?m1) = Inr w"
    using assms by (auto simp: base_setup_def rbind_eq_Inr Let_def)
  define m3 where "m3 = mset_attr ''resolver''
      (default_resolver_name (rget (mset_attr ''group_id'' (PStr g) ?m1) ''resolver'') i)
      ((mset_attr ''group_id'' (PStr g) ?m1)\<lparr>m_route_weight := w\<rparr>)"
  have k3: "ir_cache_key m3 = Some (make_cache_key (ir_kind m) (ir_name m) (ir_namespace m))"
    by (simp add: m3_def mset_attr_def)
  have eq: "Inr (ok, m', i') =
      (case resolver_named i (rget m3 ''resolver'') of
         None \<Rightarrow> Inr (mfail (''resolver '' @ pv_fmt (rget m3 ''resolver'') @ '' is unknown!'') (m3, i))
       | Some r \<Rightarrow> rbind (valid_mapping r (m3, i)) (\<lambda>(ok, mi4).
           if \<not> ok then Inr (False, mi4) else check_breakers mi4))"
    using assms gw unfolding m3_def base_setup_def Let_def by simp
  have "keeps (m3, i) (m', i')"
  proof (cases "resolver_named i (rget m3 ''resolver'')")
    case None
    then have "(m', i') = snd (mfail (''resolver '' @ pv_fmt (rget m3 ''resolver'') @ '' is unknown!'') (m3, i))"
      using eq by (simp add: mfail_def)
    then show ?thesis using keeps_mfail by metis
  next
    case (Some r)
    have "rbind (valid_mapping r (m3, i)) (\<lambda>(ok, mi4). if \<not> ok then Inr (False, mi4) else check_breakers mi4) =
        Inr (ok, m', i')" using eq Some by simp
    then obtain ok4 mi4 where v: "valid_mapping r (m3, i) = Inr (ok4, mi4)"
        and c: "(if \<not> ok4 then Inr (False, mi4) else check_breakers mi4) = Inr (ok, m', i')"
      unfolding rbind_eq_Inr by auto
    then show ?thesis
      using keeps_valid_mapping [OF v] keeps_breakers [of mi4 ok "(m', i')"]
      by (cases ok4) (auto intro: keeps_trans)
  qed
  with k3 show ?thesis by (simp add: keeps_def)
qed

section \<open>Constructors\<close>

lemma andthen_Inr:
  "andthen r f = Inr (ok, mi) \<longleftrightarrow>
     (\<exists>ok1 mi1. r = Inr (ok1, mi1) \<and> (if ok1 then f mi1 = Inr (ok, mi) else ok = False \<and> mi = mi1))"
  by (auto simp: andthen_def rbind_eq_Inr)

definition identified :: "string \<Rightarrow> mapping \<Rightarrow> bool" where
  "identified kind m \<longleftrightarrow> (\<exists>n ns. ir_cache_key m = Some (make_cache_key kind n ns))"

lemma keeps_identified: "keeps mi mi' \<Longrightarrow> identified kind (fst mi) \<Longrightarrow> identified kind (fst mi')"
  by (simp add: keeps_def identified_def)

lemma http_setup_keeps:
  assumes "http_setup sha1 env (m, i) = Inr (ok, mi')"
  shows "same_core i (snd mi') \<and> (ok \<longrightarrow> identified (ir_kind m) (fst mi'))"
proof (cases "truthy (rget m ''_deferred_error'')")
  case True
  then show ?thesis
    using assms keeps_post [of "(m, i)" "pv_fmt (rget m ''_deferred_error'')"]
    by (auto simp: http_setup_def Let_def mfail_def keeps_def)
next
  case False
  let ?b = "base_setup (http_group_id sha1 env) http_route_weight (m, i)"
  let ?rest = "\<lambda>mi1. andthen (setup_cors mi1) (\<lambda>mi2. andthen (setup_retry mi2) (\<lambda>mi3.
      andthen (setup_balancer (setup_overrides mi3)) (\<lambda>mi4. Inr (True, exclude_redirects mi4))))"
  have eq: "andthen ?b ?rest = Inr (ok, mi')" using assms False by (simp add: http_setup_def Let_def)
  then obtain ok1 m1 i1 where b: "?b = Inr (ok1, m1, i1)"
      and r: "if ok1 then ?rest (m1, i1) = Inr (ok, mi') else ok = False \<and> mi' = (m1, i1)"
    unfolding andthen_Inr by auto
  have 1: "same_core i i1" "identified (ir_kind m) m1"
    using base_setup_keeps [OF b] by (auto simp: identified_def)
  have "keeps (m1, i1) mi'"
  proof (cases ok1)
    case True
    with r have "?rest (m1, i1) = Inr (ok, mi')" by simp
    then show ?thesis
      unfolding andthen_Inr
      by (auto split: if_splits dest!: keeps_cors keeps_retry keeps_balancer_overrides
          intro: keeps_trans keeps_three keeps_excluded)
  next
    case False
    with r show ?thesis by simp
  qed
  with 1 show ?thesis
    using same_core_trans keeps_identified [of "(m1, i1)" mi'] by (auto simp: keeps_def)
qed

lemma rewrite_core: "http_rewrite kwargs rw i = Inr (a, b, i') \<Longrightarrow> same_core i i'"
  by (auto simp: http_rewrite_def rbind_eq_Inr split: if_splits option.splits)

lemma kind_new_mapping [simp]: "ir_kind (new_mapping cls kind rkey name loc ns labels attrs i) = kind"
  by (simp add: new_mapping_def)

lemma http_create_result:
  assumes "http_create sha1 env c attrs i = Inr (m, i')"
  shows "same_core i i' \<and> (is_active m \<longrightarrow> identified (ac_kind c) m)"
proof -
  obtain m0 ok m1 i1 where s: "http_setup sha1 env (m0, i) = Inr (ok, m1, i1)" and k: "ir_kind m0 = ac_kind c"
      and e: "(m, i') = (if dhas (http_kwargs c) ''outlier_detection''
        then map_post_error ''outlier_detection is not supported'' (set_active ok m1, i1) else (set_active ok m1, i1))"
    using assms kind_new_mapping by (auto simp: http_create_def rbind_eq_Inr Let_def dest: sym)
  have "keeps (set_active ok m1, i1) (m, i')" unfolding e by simp
  moreover have "is_active m \<Longrightarrow> ok"
    using e by (auto simp: set_active_def is_active_def map_post_error_def res_post_error_def split: if_splits)
  ultimately show ?thesis
    using http_setup_keeps [OF s] k by (auto simp: keeps_def identified_def set_active_def intro: same_core_trans)
qed

lemma http_build_result:
  assumes "http_build sha1 env c args hdrs host req0 resp service i = Inr (m, i')"
  shows "same_core i i' \<and> (is_active m \<longrightarrow> identified (ac_kind c) m)"
proof -
  obtain rw a b i1 attrs where "http_rewrite (http_kwargs c) rw i = Inr (a, b, i1)"
      and "http_create sha1 env c attrs i1 = Inr (m, i')"
    using assms by (auto simp: http_build_def rbind_eq_Inr Let_def)
  then show ?thesis
    by (meson http_create_result rewrite_core same_core_trans)
qed

lemma http_init_result:
  assumes "http_mapping_init sha1 env c i = Inr (m, i')"
  shows "same_core i i' \<and> (is_active m \<longrightarrow> identified (ac_kind c) m)"
proof -
  obtain svc ns kind rkey args hdrs host req0 resp where
      "http_build sha1 env c args hdrs host req0 resp (fst (normalize_service_name i svc ns kind rkey))
        (snd (normalize_service_name i svc ns kind rkey)) = Inr (m, i')"
    using assms by (auto simp: http_mapping_init_def rbind_eq_Inr Let_def split_beta)
  from http_build_result [OF this] show ?thesis
    by (blast intro: same_core_trans same_core_normalize)
qed

lemma tcp_init_result:
  assumes "tcp_mapping_init sha1 c i = Inr (m, i')"
  shows "same_core i i' \<and> (is_active m \<longrightarrow> identified (ac_kind c) m)"
proof -
  obtain svc ns kind rkey m0 ok m1 where
      b: "base_setup (tcp_group_id sha1) tcp_route_weight (m0, snd (normalize_service_name i svc ns kind rkey)) = Inr (ok, m1, i')"
      and k: "ir_kind m0 = ac_kind c" and m: "m = set_active ok m1"
    using assms kind_new_mapping
    by (auto simp: tcp_mapping_init_def rbind_eq_Inr Let_def split_beta)
  from base_setup_keeps [OF b] k show ?thesis
    unfolding m by (auto simp: identified_def set_active_def intro: same_core_trans [OF same_core_normalize])
qed

lemma mapping_init_result:
  "mapping_init sha1 env kind c i = Inr (m, i') \<Longrightarrow> same_core i i' \<and> (is_active m \<longrightarrow> identified (ac_kind c) m)"
  by (auto simp: mapping_init_def dest: http_init_result tcp_init_result split: if_splits)

section \<open>The invariant\<close>

definition members :: "mgroup \<Rightarrow> nat list" where
  "members g = mappings g @ shadows g @ (case host_redirect g of None \<Rightarrow> [] | Some r \<Rightarrow> [r])"

definition group_like :: "string \<Rightarrow> bool" where
  "group_like k \<longleftrightarrow> take 1 k = ''I''"

definition cache_ok :: "ir \<Rightarrow> bool" where
  "cache_ok i \<longleftrightarrow>
     (\<forall>k m h. dget (cache (ir_cache i)) k = Some (MRef m, h) \<longrightarrow>
        m < length (maps i) \<and> ir_cache_key (map_at i m) = Some k \<and> k \<noteq> [] \<and> \<not> group_like k) \<and>
     (\<forall>k g h. dget (cache (ir_cache i)) k = Some (GRef g, h) \<longrightarrow>
        g < length (grps i) \<and> group_cache_key (grp_at i g) = k \<and> group_like k) \<and>
     (\<forall>k. dhas (links (ir_cache i)) k \<longrightarrow> \<not> group_like k)"

definition used :: "ir \<Rightarrow> nat set" where
  "used i = {g. \<exists>k h. dget (cache (ir_cache i)) k = Some (GRef g, h)} \<union> snd ` set (groups i)"

definition owned_by :: "ir \<Rightarrow> nat \<Rightarrow> nat \<Rightarrow> bool" where
  "owned_by i g m \<longleftrightarrow> m < length (maps i) \<and>
     (\<exists>k. ir_cache_key (map_at i m) = Some k \<and> owns (ir_cache i) k (group_cache_key (grp_at i g)))"

definition grp_ok :: "ir \<Rightarrow> nat \<Rightarrow> bool" where
  "grp_ok i g \<longleftrightarrow> g < length (grps i) \<and> group_like (group_cache_key (grp_at i g)) \<and>
     (\<forall>m \<in> set (members (grp_at i g)). owned_by i g m)"

definition map_inv :: "ir \<Rightarrow> bool" where
  "map_inv i \<longleftrightarrow> use_cache i \<and> cache_ok i \<and> (\<forall>g \<in> used i. grp_ok i g)"

text \<open>No mapping whose key is in \<open>D\<close> comes from before \<open>L\<close>.\<close>

definition fresh_at :: "string set \<Rightarrow> nat \<Rightarrow> ir \<Rightarrow> nat \<Rightarrow> bool" where
  "fresh_at D L i m \<longleftrightarrow> (\<forall>k \<in> D. ir_cache_key (map_at i m) = Some k \<longrightarrow> L \<le> m)"

definition fresh :: "string set \<Rightarrow> nat \<Rightarrow> ir \<Rightarrow> bool" where
  "fresh D L i \<longleftrightarrow> L \<le> length (maps i) \<and>
     (\<forall>g \<in> used i. \<forall>m \<in> set (members (grp_at i g)). fresh_at D L i m) \<and>
     (\<forall>k m h. dget (cache (ir_cache i)) k = Some (MRef m, h) \<longrightarrow> fresh_at D L i m)"

definition live_ok :: "string set \<Rightarrow> nat \<Rightarrow> ir \<Rightarrow> nat \<Rightarrow> bool" where
  "live_ok D L i m \<longleftrightarrow> m < length (maps i) \<and> fresh_at D L i m \<and>
     (\<exists>k. ir_cache_key (map_at i m) = Some k \<and> k \<noteq> [] \<and> \<not> group_like k)"

lemma cache_okI:
  assumes "\<And>k m h. dget (cache (ir_cache i)) k = Some (MRef m, h) \<Longrightarrow>
        m < length (maps i) \<and> ir_cache_key (map_at i m) = Some k \<and> k \<noteq> [] \<and> \<not> group_like k"
    and "\<And>k g h. dget (cache (ir_cache i)) k = Some (GRef g, h) \<Longrightarrow>
        g < length (grps i) \<and> group_cache_key (grp_at i g) = k \<and> group_like k"
    and "\<And>k. dhas (links (ir_cache i)) k \<Longrightarrow> \<not> group_like k"
  shows "cache_ok i"
  unfolding cache_ok_def using assms by blast

lemma cache_okD:
  assumes "cache_ok i"
  shows "dget (cache (ir_cache i)) k = Some (MRef m, h) \<Longrightarrow>
        m < length (maps i) \<and> ir_cache_key (map_at i m) = Some k \<and> k \<noteq> [] \<and> \<not> group_like k"
    and "dget (cache (ir_cache i)) k = Some (GRef g, h) \<Longrightarrow>
        g < length (grps i) \<and> group_cache_key (grp_at i g) = k \<and> group_like k"
    and "dhas (links (ir_cache i)) k \<Longrightarrow> \<not> group_like k"
  using assms unfolding cache_ok_def by blast+

lemmas inv_defs = map_inv_def cache_ok_def used_def grp_ok_def owned_by_def
lemmas fresh_defs = fresh_def fresh_at_def used_def

lemma same_core_inv:
  assumes "same_core i i'"
  shows "map_inv i' = map_inv i" "fresh D L i' = fresh D L i" "live_ok D L i' m = live_ok D L i m"
  using assms by (simp_all add: same_core_def inv_defs fresh_defs live_ok_def)

text \<open>A state in which only the statistics of the cache differ.\<close>

lemma fetch_inv:
  assumes "ir_cache_fetch key i = (r, i')" and "map_inv i"
  shows "r = map_option fst (dget (cache (ir_cache i)) key)" "map_inv i'" "fresh D L i' = fresh D L i"
    "live_ok D L i' m = live_ok D L i m" "maps i' = maps i" "grps i' = grps i" "groups i' = groups i"
    "cache (ir_cache i') = cache (ir_cache i)" "invalidate_groups_for i' = invalidate_groups_for i"
proof -
  have u: "use_cache i" using assms(2) by (simp add: map_inv_def)
  then have eq: "i' = i\<lparr>ir_cache := snd (cache_getitem (ir_cache i) key)\<rparr>" "r = fst (cache_getitem (ir_cache i) key)"
    using assms(1) by (auto simp: ir_cache_fetch_def split_beta Let_def)
  show "r = map_option fst (dget (cache (ir_cache i)) key)" by (simp add: eq)
  show "map_inv i'" using assms(2) by (simp add: eq inv_defs owns_def)
  show "fresh D L i' = fresh D L i" "live_ok D L i' m = live_ok D L i m"
    by (simp_all add: eq fresh_defs live_ok_def)
  show "maps i' = maps i" "grps i' = grps i" "groups i' = groups i" "cache (ir_cache i') = cache (ir_cache i)"
    "invalidate_groups_for i' = invalidate_groups_for i"
    by (simp_all add: eq)
qed

section \<open>New mappings\<close>

lemma append_map_inv:
  assumes "map_inv i" and "fresh D L i"
  shows "map_inv (i\<lparr>maps := maps i @ [m]\<rparr>)" "fresh D L (i\<lparr>maps := maps i @ [m]\<rparr>)"
proof -
  have own: "owned_by (i\<lparr>maps := maps i @ [m]\<rparr>) g n" if "owned_by i g n" for g n
    using that by (auto simp: owned_by_def nth_append)
  have used: "used (i\<lparr>maps := maps i @ [m]\<rparr>) = used i" by (simp add: used_def)
  have ok: "cache_ok i" using assms(1) by (simp add: map_inv_def)
  have "cache_ok (i\<lparr>maps := maps i @ [m]\<rparr>)"
    using cache_okD [OF ok] by (intro cache_okI) (fastforce simp: nth_append)+
  with assms(1) own show "map_inv (i\<lparr>maps := maps i @ [m]\<rparr>)" by (auto simp: map_inv_def used grp_ok_def)
  have old: "fresh_at D L (i\<lparr>maps := maps i @ [m]\<rparr>) n" if "fresh_at D L i n" "n < length (maps i)" for n
    using that by (simp add: fresh_at_def nth_append)
  have "n < length (maps i)" if "g \<in> used i" "n \<in> set (members (grp_at i g))" for g n
    using that assms(1) by (auto simp: map_inv_def grp_ok_def owned_by_def)
  moreover have "n < length (maps i)" if "dget (cache (ir_cache i)) k = Some (MRef n, h)" for k n h
    using that assms(1) by (auto simp: map_inv_def cache_ok_def)
  ultimately show "fresh D L (i\<lparr>maps := maps i @ [m]\<rparr>)"
    using assms(2) old unfolding fresh_def used by simp blast
qed

lemma append_live_ok: "live_ok D L i n \<Longrightarrow> live_ok D L (i\<lparr>maps := maps i @ [m]\<rparr>) n"
  by (auto simp: live_ok_def fresh_at_def nth_append)

definition proper_kind :: "string \<Rightarrow> bool" where
  "proper_kind k \<longleftrightarrow> k \<in> {''Mapping'', ''TCPMapping''}"

lemma identified_key:
  assumes "identified kind m" and "proper_kind kind"
  shows "\<exists>k. ir_cache_key m = Some k \<and> k \<noteq> [] \<and> \<not> group_like k"
  using assms by (auto simp: identified_def proper_kind_def make_cache_key_def group_like_def)

text \<open>What the first loop of \<open>load_config\<close> keeps of the mappings found so far.\<close>

definition loading :: "string set \<Rightarrow> nat \<Rightarrow> nat pydict \<Rightarrow> nat list \<times> ir \<Rightarrow> bool" where
  "loading D L gs st \<longleftrightarrow> map_inv (snd st) \<and> fresh D L (snd st) \<and> (\<forall>m \<in> set (fst st). live_ok D L (snd st) m) \<and>
     groups (snd st) = gs"

lemma live_mapping_loading:
  assumes "live_mapping sha1 env kind c (live, i) = Inr st'" and "loading D L gs (live, i)" and "proper_kind (ac_kind c)"
  shows "loading D L gs st'"
proof -
  define key where "key = make_cache_key kind (ac_name c) (opt_text (ac_namespace c))"
  obtain r i1 where f: "ir_cache_fetch key i = (r, i1)" by (cases "ir_cache_fetch key i")
  have inv: "map_inv i" "fresh D L i" "\<forall>m \<in> set live. live_ok D L i m" "groups i = gs"
    using assms(2) by (simp_all add: loading_def)
  note f1 = fetch_inv [OF f inv(1)]
  have i1: "map_inv i1" "fresh D L i1" "\<forall>m \<in> set live. live_ok D L i1 m" "groups i1 = gs"
    using f1 inv by simp_all
  have eq: "rbind (case r of
        Some (MRef m) \<Rightarrow> Inr (m, i1)
      | Some (GRef _) \<Rightarrow> Inl (AssertionError ''cached_mapping'')
      | None \<Rightarrow> rbind (mapping_init sha1 env kind c i1) (\<lambda>(mp, i2).
          Inr (length (maps i2), i2\<lparr>maps := maps i2 @ [mp]\<rparr>)))
      (\<lambda>(m, i3). Inr (if ir_bool (map_at i3 m) then live @ [m] else live, i3)) = Inr st'"
    using assms(1) f by (simp add: live_mapping_def Let_def key_def)
  show ?thesis
  proof (cases r)
    case (Some x)
    obtain m where m: "x = MRef m" using eq Some by (cases x) auto
    then obtain h where h: "dget (cache (ir_cache i1)) key = Some (MRef m, h)"
      using f1(1,8) Some by (cases "dget (cache (ir_cache i)) key") auto
    then have "live_ok D L i1 m"
      using i1(1,2) unfolding map_inv_def cache_ok_def fresh_def live_ok_def by blast
    moreover have "st' = (if ir_bool (map_at i1 m) then live @ [m] else live, i1)" using eq Some m by simp
    ultimately show ?thesis using i1 by (auto simp: loading_def)
  next
    case None
    then obtain mp i2 where b: "mapping_init sha1 env kind c i1 = Inr (mp, i2)"
      and st: "st' = (if ir_bool ((maps i2 @ [mp]) ! length (maps i2)) then live @ [length (maps i2)] else live,
          i2\<lparr>maps := maps i2 @ [mp]\<rparr>)"
      using eq by (auto simp: rbind_eq_Inr)
    note b1 = mapping_init_result [OF b]
    then have i2: "map_inv i2" "fresh D L i2" "\<forall>m \<in> set live. live_ok D L i2 m" "groups i2 = gs"
      using i1 same_core_inv [of i1 i2] by (auto simp: same_core_def)
    let ?i3 = "i2\<lparr>maps := maps i2 @ [mp]\<rparr>"
    have "live_ok D L ?i3 (length (maps i2))" if "ir_bool mp"
    proof -
      have "is_active mp" using that by (simp add: ir_bool_def is_active_def)
      then have "\<exists>k. ir_cache_key mp = Some k \<and> k \<noteq> [] \<and> \<not> group_like k"
        using b1 assms(3) identified_key by blast
      then show ?thesis using i2(2) by (auto simp: live_ok_def fresh_at_def fresh_def)
    qed
    then show ?thesis
      unfolding st using i2 append_map_inv [OF i2(1,2)] append_live_ok by (auto simp: loading_def)
  qed
qed

lemma live_mappings_loading:
  assumes "rfold (live_mapping sha1 env kind) cs st = Inr st'" and "loading D L gs st"
    and "\<forall>c \<in> set cs. proper_kind (ac_kind c)"
  shows "loading D L gs st'"
  using assms
proof (induction cs arbitrary: st)
  case (Cons c cs)
  obtain live i where st: "st = (live, i)" by (cases st)
  from Cons.prems(1) obtain st1 where 1: "live_mapping sha1 env kind c (live, i) = Inr st1"
      "rfold (live_mapping sha1 env kind) cs st1 = Inr st'"
    by (auto simp: st rbind_eq_Inr)
  have "loading D L gs st1" using live_mapping_loading [OF 1(1)] Cons.prems by (simp add: st)
  with Cons.IH [OF 1(2)] Cons.prems(3) show ?case by simp
qed simp

section \<open>Invalidation\<close>

abbreviation inval_in :: "string \<Rightarrow> ir \<Rightarrow> ir" where
  "inval_in k i \<equiv> i\<lparr>ir_cache := fst (invalidate k (ir_cache i))\<rparr>"

lemma smitten_closed: "k \<in> smitten c k0 \<Longrightarrow> owns c k k' \<Longrightarrow> dhas (cache c) k' \<Longrightarrow> k' \<in> smitten c k0"
  by (auto simp: smitten_def)

lemma smitten_group:
  assumes "cache_ok i" and "group_like x"
  shows "smitten (ir_cache i) x \<subseteq> {x}"
proof -
  have "\<not> owns (ir_cache i) x y" for y
    using cache_okD(3) [OF assms(1), of x] assms(2) by (auto simp: owns_def dhas_def)
  then have "k = x" if "(owns (ir_cache i))\<^sup>*\<^sup>* x k" for k
    using that by (metis converse_rtranclpE)
  then show ?thesis by (auto simp: smitten_def)
qed

lemma cache_ok_invalidate: "cache_ok i \<Longrightarrow> cache_ok (inval_in k0 i)"
  by (rule cache_okI) (auto dest: cache_okD split: if_splits)

lemma used_invalidate: "used (inval_in k0 i) \<subseteq> used i"
  by (auto simp: used_def split: if_splits)

lemma fresh_invalidate: "fresh D L i \<Longrightarrow> fresh D L (inval_in k0 i)"
  using used_invalidate [of k0 i] by (auto simp: fresh_def fresh_at_def split: if_splits)

lemma live_ok_cache [simp]: "live_ok D L (i\<lparr>ir_cache := c\<rparr>) m = live_ok D L i m"
  by (simp add: live_ok_def fresh_at_def)

lemma invalidate_group_like:
  assumes "map_inv i" and "group_like x"
  shows "map_inv (inval_in x i)"
proof -
  have ok: "cache_ok i" using assms(1) by (simp add: map_inv_def)
  have "grp_ok (inval_in x i) g" if "g \<in> used (inval_in x i)" for g
  proof -
    have "grp_ok i g" using that used_invalidate assms(1) by (auto simp: map_inv_def)
    moreover have "owned_by (inval_in x i) g m" if o: "owned_by i g m" for m
    proof -
      obtain k where k: "ir_cache_key (map_at i m) = Some k" "owns (ir_cache i) k (group_cache_key (grp_at i g))"
        using o by (auto simp: owned_by_def)
      then have "\<not> group_like k" using cache_okD(3) [OF ok] by (auto simp: owns_def dhas_def)
      then have "k \<notin> smitten (ir_cache i) x" using smitten_group [OF ok assms(2)] assms(2) by auto
      with k o show ?thesis by (simp add: owned_by_def owns_invalidate)
    qed
    ultimately show ?thesis by (simp add: grp_ok_def)
  qed
  with cache_ok_invalidate [OF ok] assms(1) show ?thesis by (simp add: map_inv_def)
qed

text \<open>
  While no group is in use, any key can be invalidated, and then no cached group has a mapping
  with that key.
\<close>

definition no_member :: "string \<Rightarrow> ir \<Rightarrow> bool" where
  "no_member k i \<longleftrightarrow> \<not> dhas (cache (ir_cache i)) k \<and>
     (\<forall>g \<in> used i. \<forall>m \<in> set (members (grp_at i g)). ir_cache_key (map_at i m) \<noteq> Some k)"

lemma invalidate_any:
  assumes "map_inv i" and "groups i = []"
  shows "map_inv (inval_in k0 i)" "no_member k0 (inval_in k0 i)"
proof -
  have ok: "cache_ok i" using assms(1) by (simp add: map_inv_def)
  have own: "\<exists>k. ir_cache_key (map_at i m) = Some k \<and> owns (ir_cache i) k (group_cache_key (grp_at i g)) \<and>
      k \<notin> smitten (ir_cache i) k0" if g: "g \<in> used (inval_in k0 i)" and m: "m \<in> set (members (grp_at i g))" for g m
  proof -
    obtain gk h where c: "dget (cache (ir_cache i)) gk = Some (GRef g, h)" "gk \<notin> smitten (ir_cache i) k0"
      using g assms(2) by (auto simp: used_def split: if_splits)
    have "g \<in> used i" using g used_invalidate by blast
    then obtain k where k: "ir_cache_key (map_at i m) = Some k" "owns (ir_cache i) k (group_cache_key (grp_at i g))"
      using assms(1) m by (auto simp: map_inv_def grp_ok_def owned_by_def)
    have "group_cache_key (grp_at i g) = gk" using cache_okD(2) [OF ok c(1)] by simp
    then have "k \<notin> smitten (ir_cache i) k0"
      using smitten_closed [of k "ir_cache i" k0 gk] k(2) c by (auto simp: dhas_def)
    with k show ?thesis by blast
  qed
  have "grp_ok (inval_in k0 i) g" if g: "g \<in> used (inval_in k0 i)" for g
  proof -
    have "grp_ok i g" using g used_invalidate assms(1) by (auto simp: map_inv_def)
    then show ?thesis using own [OF g] by (auto simp: grp_ok_def owned_by_def owns_invalidate)
  qed
  with cache_ok_invalidate [OF ok] assms(1) show "map_inv (inval_in k0 i)" by (simp add: map_inv_def)
  have "ir_cache_key (map_at i m) \<noteq> Some k0"
    if gm: "g \<in> used (inval_in k0 i)" "m \<in> set (members (grp_at i g))" for g m
  proof -
    obtain k where "ir_cache_key (map_at i m) = Some k" "dhas (cache (ir_cache i)) k" "k \<notin> smitten (ir_cache i) k0"
      using own [OF gm] by (auto simp: owns_def)
    then show ?thesis using smitten_start [of "ir_cache i" k0] by auto
  qed
  moreover have "\<not> dhas (cache (fst (invalidate k0 (ir_cache i)))) k0"
    using smitten_start [of "ir_cache i" k0] by auto
  ultimately show "no_member k0 (inval_in k0 i)" by (simp add: no_member_def)
qed

lemma no_member_kept: "no_member k i \<Longrightarrow> no_member k (inval_in k0 i)"
  using used_invalidate [of k0 i] by (auto simp: no_member_def)

lemma invalidate_all:
  assumes "map_inv i" and "groups i = []"
  shows "map_inv (i\<lparr>ir_cache := fold (\<lambda>k c. fst (invalidate k c)) ks (ir_cache i)\<rparr>) \<and>
    (\<forall>k \<in> set ks. no_member k (i\<lparr>ir_cache := fold (\<lambda>k c. fst (invalidate k c)) ks (ir_cache i)\<rparr>))"
  using assms
proof (induction ks arbitrary: i)
  case (Cons k ks)
  let ?j = "inval_in k i"
  let ?fin = "?j\<lparr>ir_cache := fold (\<lambda>k c. fst (invalidate k c)) ks (ir_cache ?j)\<rparr>"
  have j: "map_inv ?j" "no_member k ?j" "groups ?j = []" using invalidate_any [OF Cons.prems] Cons.prems(2) by simp_all
  have ih: "map_inv ?fin" "\<forall>k \<in> set ks. no_member k ?fin" using Cons.IH [OF j(1,3)] by simp_all
  have "no_member k (?j\<lparr>ir_cache := fold (\<lambda>k c. fst (invalidate k c)) ks' (ir_cache ?j)\<rparr>)" for ks'
  proof (induction ks' rule: rev_induct)
    case Nil
    then show ?case using j(2) by simp
  next
    case (snoc x xs)
    then show ?case
      using no_member_kept [of k "?j\<lparr>ir_cache := fold (\<lambda>k c. fst (invalidate k c)) xs (ir_cache ?j)\<rparr>" x] by simp
  qed
  from this [of ks] ih show ?case by simp
qed simp

lemma no_member_fresh:
  assumes "map_inv i" and "\<forall>k \<in> D. no_member k i" and "L \<le> length (maps i)"
  shows "fresh D L i"
proof -
  have "fresh_at D L i m" if "dget (cache (ir_cache i)) k = Some (MRef m, h)" for k m h
  proof -
    have "ir_cache_key (map_at i m) = Some k" using that assms(1) by (auto simp: map_inv_def dest: cache_okD)
    with that assms(2) show ?thesis by (auto simp: fresh_at_def no_member_def dhas_def)
  qed
  moreover have "fresh_at D L i m" if "g \<in> used i" "m \<in> set (members (grp_at i g))" for g m
    using that assms(2) by (auto simp: fresh_at_def no_member_def)
  ultimately show ?thesis using assms(3) by (simp add: fresh_def)
qed

section \<open>Growing a group\<close>

definition grows :: "nat \<Rightarrow> nat \<Rightarrow> ir \<Rightarrow> ir \<Rightarrow> bool" where
  "grows g m i i' \<longleftrightarrow> length (grps i') = length (grps i) \<and> length (maps i') = length (maps i) \<and>
     (\<forall>n < length (grps i). n \<noteq> g \<longrightarrow> grp_at i' n = grp_at i n) \<and>
     ir_kind (grp_at i' g) = ir_kind (grp_at i g) \<and> ir_attrs (grp_at i' g) = ir_attrs (grp_at i g) \<and>
     set (members (grp_at i' g)) \<subseteq> insert m (set (members (grp_at i g))) \<and>
     (\<forall>n < length (maps i). ir_cache_key (map_at i' n) = ir_cache_key (map_at i n)) \<and>
     ir_cache i' = ir_cache i \<and> groups i' = groups i \<and> use_cache i' = use_cache i"

lemma grows_same: "same_core i i' \<Longrightarrow> grows g m i i'"
  by (auto simp: same_core_def grows_def)

lemma grows_posted: "grows g m i (ir_post_error msg r i)"
  by (rule grows_same) simp

lemma grows_refl [simp]: "grows g m i i"
  by (auto simp: grows_def)

lemma grows_trans: "grows g m i j \<Longrightarrow> grows g m j k \<Longrightarrow> grows g m i k"
  by (auto simp: grows_def)

lemma grows_upd_grp:
  assumes "g < length (grps i)"
    and "ir_kind (f (grp_at i g)) = ir_kind (grp_at i g)" "ir_attrs (f (grp_at i g)) = ir_attrs (grp_at i g)"
    and "set (members (f (grp_at i g))) \<subseteq> insert m (set (members (grp_at i g)))"
  shows "grows g m i (upd_grp g f i)"
  using assms by (simp add: grows_def grp_at_upd)

lemma grows_upd_map:
  assumes "ir_cache_key (f (map_at i m)) = ir_cache_key (map_at i m)"
  shows "grows g m i (upd_map m f i)"
  using assms by (auto simp: grows_def map_at_upd)

lemma grows_grp_error: "g < length (grps i) \<Longrightarrow> grows g m i (grp_post_error msg g i)"
  by (auto simp: grows_def grp_at_post_error members_def)

lemma tcp_add_grows:
  assumes "tcp_add_mapping g m i = Inr i'" and "g < length (grps i)"
  shows "grows g m i i'"
  using assms
  by (auto simp: tcp_add_mapping_def Let_def rbind_eq_Inr members_def intro!: grows_grp_error grows_upd_grp split: if_splits)

lemma http_shadow_grows: "g < length (grps i) \<Longrightarrow> grows g m i (http_add_shadow g m i)"
  by (simp add: http_add_shadow_def grows_posted grows_upd_grp members_def split: list.split)

lemma http_redirect_grows: "g < length (grps i) \<Longrightarrow> grows g m i (http_add_redirect g m i)"
  by (auto simp: http_add_redirect_def grows_posted members_def intro!: grows_upd_grp split: option.split list.split)

lemma http_plain_grows:
  assumes "http_add_plain g m i = Inr i'" and "g < length (grps i)"
  shows "grows g m i i'"
  using assms
  by (auto simp: http_add_plain_def rbind_eq_Inr grows_posted members_def intro!: grows_upd_grp split: option.splits)

lemma http_add_grows:
  assumes "http_add_mapping g m i = Inr i'" and "g < length (grps i)"
  shows "grows g m i i'"
proof (cases "filter (mismatched (map_at i m) (grp_at i g)) HTTPCoreKeys = []")
  case False
  then show ?thesis using assms by (auto simp: http_add_mapping_def Let_def intro: grows_grp_error)
next
  case True
  let ?s = "truthy (rget (map_at i m) ''shadow'')" and ?r = "truthy (rget (map_at i m) ''host_redirect'')"
  define i1 where "i1 = (if ?s \<and> ?r
      then upd_map m drop_redirect
             (ir_post_error ''At most one of host_redirect and shadow may be set; ignoring host_redirect''
                (Other (ir_rkey (map_at i m))) i)
      else i)"
  have g1: "grows g m i i1"
    unfolding i1_def by (auto intro!: grows_trans [OF grows_same grows_upd_map] simp: drop_redirect_def)
  then have g: "g < length (grps i1)" using assms(2) by (simp add: grows_def)
  have "Inr i' = (if ?s then Inr (http_add_shadow g m i1) else if ?r then Inr (http_add_redirect g m i1)
      else http_add_plain g m i1)"
    unfolding assms(1) [symmetric] http_add_mapping_def Let_def i1_def by (simp only: True simp_thms if_False)
  then have "grows g m i1 i'"
    using http_shadow_grows [OF g] http_redirect_grows [OF g] http_plain_grows [OF _ g] by (auto split: if_splits)
  with g1 show ?thesis by (rule grows_trans)
qed

lemma group_add_grows: "group_add_mapping g m i = Inr i' \<Longrightarrow> g < length (grps i) \<Longrightarrow> grows g m i i'"
  by (auto simp: group_add_mapping_def intro: tcp_add_grows http_add_grows split: if_splits)

text \<open>A state in which the group \<open>g\<close> may lack the ownership of \<open>m\<close> only.\<close>

definition prepared :: "string set \<Rightarrow> nat \<Rightarrow> nat \<Rightarrow> nat \<Rightarrow> ir \<Rightarrow> bool" where
  "prepared D L g m i \<longleftrightarrow> use_cache i \<and> cache_ok i \<and> L \<le> length (maps i) \<and>
     g < length (grps i) \<and> group_like (group_cache_key (grp_at i g)) \<and> live_ok D L i m \<and>
     (\<forall>n \<in> used i - {g}. grp_ok i n) \<and> (\<forall>x \<in> set (members (grp_at i g)). x = m \<or> owned_by i g x) \<and>
     (\<forall>n \<in> insert g (used i). \<forall>x \<in> set (members (grp_at i n)). fresh_at D L i x) \<and>
     (\<forall>k x h. dget (cache (ir_cache i)) k = Some (MRef x, h) \<longrightarrow> fresh_at D L i x)"

lemma grows_group_key: "grows g m i i' \<Longrightarrow> n < length (grps i) \<Longrightarrow> group_cache_key (grp_at i' n) = group_cache_key (grp_at i n)"
  by (cases "n = g") (simp_all add: grows_def group_cache_key_def gid_def rget_def)

lemma grows_used: "grows g m i i' \<Longrightarrow> used i' = used i"
  by (simp add: grows_def used_def)

lemma grows_fresh_at: "grows g m i i' \<Longrightarrow> x < length (maps i) \<Longrightarrow> fresh_at D L i' x = fresh_at D L i x"
  by (simp add: grows_def fresh_at_def)

lemma grows_live_ok: "grows g m i i' \<Longrightarrow> live_ok D L i x \<Longrightarrow> live_ok D L i' x"
  by (auto simp: live_ok_def grows_fresh_at) (simp_all add: grows_def)

lemma grows_owned_by:
  "grows g m i i' \<Longrightarrow> n < length (grps i) \<Longrightarrow> owned_by i n x \<Longrightarrow> owned_by i' n x"
  by (auto simp: owned_by_def grows_group_key) (simp_all add: grows_def)

lemma grows_cache_ok:
  assumes "grows g m i i'" and "cache_ok i"
  shows "cache_ok i'"
proof (rule cache_okI)
  have c: "ir_cache i' = ir_cache i" using assms(1) by (simp add: grows_def)
  fix k x h
  show "x < length (maps i') \<and> ir_cache_key (map_at i' x) = Some k \<and> k \<noteq> [] \<and> \<not> group_like k"
    if "dget (cache (ir_cache i')) k = Some (MRef x, h)"
    using that cache_okD(1) [OF assms(2), of k x h] assms(1) unfolding c by (simp add: grows_def)
  show "x < length (grps i') \<and> group_cache_key (grp_at i' x) = k \<and> group_like k"
    if "dget (cache (ir_cache i')) k = Some (GRef x, h)"
    using that cache_okD(2) [OF assms(2), of k x h] grows_group_key [OF assms(1)] assms(1) unfolding c
    by (simp add: grows_def)
  show "\<not> group_like k" if "dhas (links (ir_cache i')) k"
    using that cache_okD(3) [OF assms(2)] unfolding c by blast
qed

lemma prepared_grows:
  assumes "prepared D L g m i" and "grows g m i i'"
  shows "prepared D L g m i'"
proof -
  note p = assms(1) [unfolded prepared_def]
  have lens: "length (grps i') = length (grps i)" "length (maps i') = length (maps i)" and u: "used i' = used i"
    using assms(2) grows_used by (auto simp: grows_def)
  have same: "grp_at i' n = grp_at i n" if "n \<in> used i - {g}" for n
    using that p assms(2) by (auto simp: grp_ok_def grows_def)
  have sub: "set (members (grp_at i' g)) \<subseteq> insert m (set (members (grp_at i g)))"
    using assms(2) by (simp add: grows_def)
  have lt: "x < length (maps i)" if "n \<in> insert g (used i)" "x \<in> set (members (grp_at i n))" for n x
    using that p by (auto simp: grp_ok_def owned_by_def live_ok_def)
  have ok: "grp_ok i' n" if n: "n \<in> used i' - {g}" for n
  proof -
    have "grp_ok i n" using n p u by auto
    with same [of n] n u grows_owned_by [OF assms(2)] grows_group_key [OF assms(2)] lens show ?thesis
      by (auto simp: grp_ok_def)
  qed
  moreover have "\<forall>x \<in> set (members (grp_at i' g)). x = m \<or> owned_by i' g x"
    using sub p grows_owned_by [OF assms(2)] by blast
  moreover have "fresh_at D L i' x" if "n \<in> insert g (used i')" "x \<in> set (members (grp_at i' n))" for n x
  proof (cases "n = g")
    case True
    then have "x = m \<or> x \<in> set (members (grp_at i g))" using that sub by auto
    then have "fresh_at D L i x \<and> x < length (maps i)" using p lt [of g x] by (auto simp: live_ok_def)
    then show ?thesis using grows_fresh_at [OF assms(2)] by simp
  next
    case False
    then have "n \<in> used i - {g}" using that u by simp
    moreover from this have "x \<in> set (members (grp_at i n))" using that same by simp
    ultimately show ?thesis using p lt [of n x] grows_fresh_at [OF assms(2)] by auto
  qed
  moreover have "fresh_at D L i' x" if c: "dget (cache (ir_cache i')) k = Some (MRef x, h)" for k x h
  proof -
    have c': "dget (cache (ir_cache i)) k = Some (MRef x, h)" using c assms(2) by (simp add: grows_def)
    then have "x < length (maps i)" using p cache_okD(1) by blast
    then show ?thesis using c' p grows_fresh_at [OF assms(2)] by blast
  qed
  moreover have "live_ok D L i' m" using p grows_live_ok [OF assms(2)] by blast
  moreover have "cache_ok i'" using p grows_cache_ok [OF assms(2)] by blast
  moreover have "group_like (group_cache_key (grp_at i' g))" using p grows_group_key [OF assms(2)] by simp
  ultimately show ?thesis using p lens assms(2) unfolding prepared_def by (simp add: grows_def)
qed

section \<open>Finding the group of a mapping\<close>

lemma prepared_used:
  assumes "map_inv i" "fresh D L i" "live_ok D L i m" and "g \<in> used i"
  shows "prepared D L g m i"
  using assms unfolding prepared_def map_inv_def fresh_def grp_ok_def by auto

lemma prepared_new:
  assumes "map_inv i" "fresh D L i" "live_ok D L i m"
    and "members gr = []" and "group_like (group_cache_key gr)"
  shows "prepared D L (length (grps i)) m (i\<lparr>grps := grps i @ [gr]\<rparr>)"
proof -
  let ?j = "i\<lparr>grps := grps i @ [gr]\<rparr>"
  have u: "used ?j = used i" and lt: "\<And>n. n \<in> used i \<Longrightarrow> n < length (grps i)"
    using assms(1) by (auto simp: used_def map_inv_def grp_ok_def)
  have same: "grp_at ?j n = grp_at i n" if "n \<in> used i" for n using lt [OF that] by (simp add: nth_append)
  have ok: "cache_ok i" using assms(1) by (simp add: map_inv_def)
  have "cache_ok ?j"
  proof (rule cache_okI)
    fix k x h
    show "x < length (maps ?j) \<and> ir_cache_key (map_at ?j x) = Some k \<and> k \<noteq> [] \<and> \<not> group_like k"
      if "dget (cache (ir_cache ?j)) k = Some (MRef x, h)"
      using that cache_okD(1) [OF ok, of k x h] by simp
    show "x < length (grps ?j) \<and> group_cache_key (grp_at ?j x) = k \<and> group_like k"
      if "dget (cache (ir_cache ?j)) k = Some (GRef x, h)"
      using that cache_okD(2) [OF ok, of k x h] by (simp add: nth_append)
    show "\<not> group_like k" if "dhas (links (ir_cache ?j)) k"
      using that cache_okD(3) [OF ok, of k] by simp
  qed
  moreover have "grp_ok ?j n" if "n \<in> used ?j" for n
  proof -
    have n: "n \<in> used i" using that u by simp
    then have "grp_ok i n" using assms(1) by (simp add: map_inv_def)
    then show ?thesis using same [OF n] by (simp add: grp_ok_def owned_by_def)
  qed
  moreover have "fresh_at D L ?j x" if "n \<in> used ?j" "x \<in> set (members (grp_at ?j n))" for n x
  proof -
    have n: "n \<in> used i" using that u by simp
    then have "fresh_at D L i x" using that(2) assms(2) unfolding same [OF n] fresh_def by blast
    then show ?thesis by (simp add: fresh_at_def)
  qed
  moreover have "fresh_at D L ?j x" if "dget (cache (ir_cache ?j)) k = Some (MRef x, h)" for k x h
  proof -
    have "fresh_at D L i x" using that assms(2) unfolding fresh_def by (simp; blast)
    then show ?thesis by (simp add: fresh_at_def)
  qed
  moreover have "live_ok D L ?j m" using assms(3) by (simp add: live_ok_def fresh_at_def)
  moreover have "use_cache ?j" "L \<le> length (maps ?j)" using assms(1,2) by (simp_all add: map_inv_def fresh_def)
  ultimately show ?thesis using assms(4,5) unfolding prepared_def by simp
qed

lemma prepared_groups:
  assumes "prepared D L g m i" and "snd ` set gs \<subseteq> insert g (snd ` set (groups i))"
  shows "prepared D L g m (i\<lparr>groups := gs\<rparr>)"
proof -
  let ?j = "i\<lparr>groups := gs\<rparr>"
  have u: "used ?j \<subseteq> insert g (used i)" using assms(2) by (auto simp: used_def)
  have "cache_ok ?j = cache_ok i" "grp_ok ?j n = grp_ok i n" "owned_by ?j n x = owned_by i n x"
    "fresh_at D L ?j x = fresh_at D L i x" "live_ok D L ?j x = live_ok D L i x" for n x
    by (simp_all add: cache_ok_def grp_ok_def owned_by_def fresh_at_def live_ok_def)
  with assms(1) u show ?thesis unfolding prepared_def by (simp; blast)
qed

lemma snd_dset: "snd ` set (dset k v d) \<subseteq> insert v (snd ` set d)"
proof (induction d)
  case (Cons x d)
  obtain k' v' where x: "x = (k', v')" by (cases x)
  show ?case
  proof (cases "k = k'")
    case False
    then show ?thesis using Cons by (simp add: x dset_literal) blast
  qed (simp add: x dset_literal subset_iff)
qed (simp add: dset_literal)

lemma group_init_cases:
  assumes "group_init cls loc name m i = Inr (g, i')"
  obtains gr where "g = length (grps i)" "group_add_mapping g m (i\<lparr>grps := grps i @ [gr]\<rparr>) = Inr i'"
    "members gr = []" "ir_kind gr = cls"
  using assms unfolding group_init_def Let_def by (auto simp: rbind_eq_Inr members_def)

lemma group_init_prepared:
  assumes "group_init (group_class mp) loc name m i = Inr (g, i')"
    and "map_inv i" "fresh D L i" "live_ok D L i m"
  shows "prepared D L g m i'"
proof -
  obtain gr where g: "g = length (grps i)" and a: "group_add_mapping g m (i\<lparr>grps := grps i @ [gr]\<rparr>) = Inr i'"
    and gr: "members gr = []" "ir_kind gr = group_class mp"
    using assms(1) by (rule group_init_cases)
  have "group_like (group_cache_key gr)"
    by (simp add: group_cache_key_def key_for_id_def gr(2) group_class_def group_like_def)
  then have p: "prepared D L g m (i\<lparr>grps := grps i @ [gr]\<rparr>)"
    unfolding g by (intro prepared_new assms(2-4) gr(1))
  show ?thesis using prepared_grows [OF p group_add_grows [OF a]] g by simp
qed

lemma find_group_cases:
  assumes "find_group m i = Inr (g, i')" and "map_inv i"
  obtains (known) "g \<in> used i" "g < length (grps i)" "i' = i \<or> group_add_mapping g m i = Inr i'"
  | (absent) r i1 i2 mp loc name gs where "ir_cache_fetch (key_for_id (group_class mp) (gid mp)) i = (r, i1)"
      "i' = i2\<lparr>groups := dset gs g (groups i2)\<rparr>"
      "r = Some (GRef g) \<and> i2 = i1 \<or> group_init (group_class mp) loc name m i1 = Inr (g, i2)"
proof (cases "dget (groups i) (gid (map_at i m))")
  case (Some g0)
  then have g0: "g0 \<in> used i" by (force simp: used_def dest: map_of_SomeD)
  then have "g0 < length (grps i)" using assms(2) by (auto simp: map_inv_def grp_ok_def)
  with g0 show thesis
    using assms(1) Some known by (auto simp: find_group_def Let_def rbind_eq_Inr split: if_splits)
next
  case None
  define key where "key = key_for_id (group_class (map_at i m)) (gid (map_at i m))"
  obtain r i1 where f: "ir_cache_fetch key i = (r, i1)" by (cases "ir_cache_fetch key i")
  let ?get = "case r of Some (GRef g) \<Rightarrow> Inr (g, i1) | Some (MRef _) \<Rightarrow> Inl (AssertionError ''group'')
     | None \<Rightarrow> group_init (group_class (map_at i m)) (ir_location (map_at i m)) (''GROUP: '' @ ir_name (map_at i m)) m i1"
  have "rbind ?get (\<lambda>(g, i2). Inr (g, i2\<lparr>groups := dset (gid (grp_at i2 g)) g (groups i2)\<rparr>)) = Inr (g, i')"
    using assms(1) None f by (simp add: find_group_def Let_def key_def)
  then obtain i2 where i': "i' = i2\<lparr>groups := dset (gid (grp_at i2 g)) g (groups i2)\<rparr>" and c: "?get = Inr (g, i2)"
    by (auto simp: rbind_eq_Inr)
  show thesis
  proof (rule absent [OF f [unfolded key_def] i'])
    show "r = Some (GRef g) \<and> i2 = i1 \<or>
      group_init (group_class (map_at i m)) (ir_location (map_at i m)) (''GROUP: '' @ ir_name (map_at i m)) m i1 = Inr (g, i2)"
    proof (cases r)
      case (Some x)
      then show ?thesis using c by (cases x) simp_all
    qed (use c in simp)
  qed
qed

lemma find_group_prepared:
  assumes "find_group m i = Inr (g, i')" and inv: "map_inv i" "fresh D L i" "live_ok D L i m"
  shows "prepared D L g m i'"
  using assms(1) inv(1)
proof (cases rule: find_group_cases)
  case known
  note p = prepared_used [OF inv known(1)]
  then show ?thesis using known(3) prepared_grows [OF p group_add_grows [OF _ known(2)]] by blast
next
  case (absent r i1 i2 mp loc name gs)
  note f1 = fetch_inv [OF absent(1) inv(1)]
  have i1: "map_inv i1" "fresh D L i1" "live_ok D L i1 m" using f1 inv by simp_all
  have "prepared D L g m i2" using absent(3)
  proof
    assume r: "r = Some (GRef g) \<and> i2 = i1"
    then have "\<exists>h. dget (cache (ir_cache i1)) (key_for_id (group_class mp) (gid mp)) = Some (GRef g, h)"
      using f1(1,8) by (cases "dget (cache (ir_cache i)) (key_for_id (group_class mp) (gid mp))") auto
    then have "g \<in> used i1" by (auto simp: used_def)
    then show ?thesis using prepared_used [OF i1] r by simp
  next
    assume "group_init (group_class mp) loc name m i1 = Inr (g, i2)"
    then show ?thesis by (rule group_init_prepared [OF _ i1])
  qed
  then show ?thesis unfolding absent(2) by (rule prepared_groups [OF _ snd_dset])
qed

section \<open>Caching a mapping and its group\<close>

lemma cache_add_effect:
  assumes "cache_add key_of r h c = Inr c'" and "key_of r = Inr k" and "k \<noteq> []"
  shows "links c' = links c" "dhas (cache c') k"
    "dget (cache c) x = Some e \<Longrightarrow> dget (cache c') x = Some e"
    "dget (cache c') x = Some e \<Longrightarrow> dget (cache c) x = Some e \<or> x = k \<and> e = (r, h)"
proof -
  have c': "c' = (if dhas (cache c) k then c else c\<lparr>cache := dset k (r, h) (cache c)\<rparr>)"
    using assms by (simp add: cache_add_def split: if_splits)
  show "links c' = links c" "dhas (cache c') k" by (simp_all add: c')
  show "dget (cache c) x = Some e \<Longrightarrow> dget (cache c') x = Some e"
    using dhasI [of "cache c" x e] by (auto simp: c')
  show "dget (cache c') x = Some e \<Longrightarrow> dget (cache c) x = Some e \<or> x = k \<and> e = (r, h)"
    by (auto simp: c' split: if_splits)
qed

lemma cache_link_effect:
  assumes "cache_link key_of a b c = Inr c'" and "key_of a = Inr k" "key_of b = Inr k'" and "k \<noteq> []" "k' \<noteq> []"
    and "dhas (cache c) k" "dhas (cache c) k'"
  shows "cache c' = cache c" "owns c' k k'" "owns c x y \<Longrightarrow> owns c' x y" "dhas (links c') x \<Longrightarrow> dhas (links c) x \<or> x = k"
  using assms by (auto simp: cache_link_def Let_def owns_def dhas_def split: if_splits)

lemma ir_cache_add_eq:
  "use_cache i \<Longrightarrow> ir_cache_add r i = Inr i' \<Longrightarrow> \<exists>c. cache_add (ref_key i) r None (ir_cache i) = Inr c \<and> i' = i\<lparr>ir_cache := c\<rparr>"
  by (auto simp: ir_cache_add_def rbind_eq_Inr)

lemma ir_cache_link_eq:
  "use_cache i \<Longrightarrow> ir_cache_link a b i = Inr i' \<Longrightarrow> \<exists>c. cache_link (ref_key i) a b (ir_cache i) = Inr c \<and> i' = i\<lparr>ir_cache := c\<rparr>"
  by (auto simp: ir_cache_link_def rbind_eq_Inr)

lemma ref_key_cache [simp]: "ref_key (i\<lparr>ir_cache := c\<rparr>) = ref_key i"
  by (rule ext) (simp add: ref_key_def split: ref.split)

lemma cache_mapping_effect:
  assumes "cache_mapping m g i = Inr i'" and "use_cache i"
    and k: "ir_cache_key (map_at i m) = Some mk" "mk \<noteq> []" and gk: "group_cache_key (grp_at i g) = gk" "gk \<noteq> []"
  obtains c where "i' = i\<lparr>ir_cache := c\<rparr>" "owns c mk gk" "\<And>x y. owns (ir_cache i) x y \<Longrightarrow> owns c x y"
    "\<And>x. dhas (links c) x \<Longrightarrow> dhas (links (ir_cache i)) x \<or> x = mk"
    "\<And>x e. dget (cache c) x = Some e \<Longrightarrow>
       dget (cache (ir_cache i)) x = Some e \<or> x = mk \<and> e = (MRef m, None) \<or> x = gk \<and> e = (GRef g, None)"
proof -
  have mkey: "ref_key i (MRef m) = Inr mk" and gkey: "ref_key i (GRef g) = Inr gk"
    using k gk by (simp_all add: ref_key_def res_cache_key_def)
  obtain i1 i2 where s: "ir_cache_add (MRef m) i = Inr i1" "ir_cache_add (GRef g) i1 = Inr i2"
      "ir_cache_link (MRef m) (GRef g) i2 = Inr i'"
    using assms(1) by (auto simp: cache_mapping_def rbind_eq_Inr)
  obtain c1 where c1: "cache_add (ref_key i) (MRef m) None (ir_cache i) = Inr c1" "i1 = i\<lparr>ir_cache := c1\<rparr>"
    using ir_cache_add_eq [OF assms(2) s(1)] by blast
  obtain c2 where c2: "cache_add (ref_key i) (GRef g) None c1 = Inr c2" "i2 = i\<lparr>ir_cache := c2\<rparr>"
    using ir_cache_add_eq [OF _ s(2)] assms(2) c1(2) by auto
  obtain c where c: "cache_link (ref_key i) (MRef m) (GRef g) c2 = Inr c" "i' = i\<lparr>ir_cache := c\<rparr>"
    using ir_cache_link_eq [OF _ s(3)] assms(2) c2(2) by auto
  note e1 = cache_add_effect [OF c1(1) mkey k(2)]
  note e2 = cache_add_effect [OF c2(1) gkey gk(2)]
  have has: "dhas (cache c2) mk" "dhas (cache c2) gk" using e1(2) e2(2,3) by (auto simp: dhas_def)
  note e3 = cache_link_effect [OF c(1) mkey gkey k(2) gk(2) has]
  show thesis
  proof (rule that [OF c(2) e3(2)])
    fix x y e
    show "owns c x y" if "owns (ir_cache i) x y"
      using that e1(1,3) e2(1,3) by (intro e3(3)) (auto simp: owns_def dhas_def)
    show "dhas (links (ir_cache i)) x \<or> x = mk" if "dhas (links c) x"
      using e3(4) [OF that] e1(1) e2(1) by simp
    show "dget (cache (ir_cache i)) x = Some e \<or> x = mk \<and> e = (MRef m, None) \<or> x = gk \<and> e = (GRef g, None)"
      if "dget (cache c) x = Some e"
      using that e3(1) e1(4) [of x e] e2(4) [of x e] by auto
  qed
qed

lemma cache_mapping_inv:
  assumes "cache_mapping m g i = Inr i'" and p: "prepared D L g m i"
  shows "map_inv i' \<and> fresh D L i' \<and> (\<forall>n. live_ok D L i n \<longrightarrow> live_ok D L i' n)"
proof -
  note p = p [unfolded prepared_def]
  obtain mk where mk: "ir_cache_key (map_at i m) = Some mk" "mk \<noteq> []" "\<not> group_like mk" "m < length (maps i)" "fresh_at D L i m"
    using p by (auto simp: live_ok_def)
  define gk where "gk = group_cache_key (grp_at i g)"
  have gl: "group_like gk" "gk \<noteq> []" using p by (auto simp: gk_def group_like_def)
  have uc: "use_cache i" using p by simp
  obtain c where i': "i' = i\<lparr>ir_cache := c\<rparr>" and own: "owns c mk gk" and
      owns: "\<And>x y. owns (ir_cache i) x y \<Longrightarrow> owns c x y" and
      lks: "\<And>x. dhas (links c) x \<Longrightarrow> dhas (links (ir_cache i)) x \<or> x = mk" and
      ents: "\<And>x e. dget (cache c) x = Some e \<Longrightarrow>
       dget (cache (ir_cache i)) x = Some e \<or> x = mk \<and> e = (MRef m, None) \<or> x = gk \<and> e = (GRef g, None)"
    by (rule cache_mapping_effect [OF assms(1) uc mk(1,2) gk_def [symmetric] gl(2)]) blast
  have ok: "cache_ok i" using p by simp
  have "cache_ok i'"
  proof (rule cache_okI)
    fix k x h
    show "x < length (maps i') \<and> ir_cache_key (map_at i' x) = Some k \<and> k \<noteq> [] \<and> \<not> group_like k"
      if "dget (cache (ir_cache i')) k = Some (MRef x, h)"
      using that ents [of k "(MRef x, h)"] cache_okD(1) [OF ok, of k x h] mk by (auto simp: i')
    show "x < length (grps i') \<and> group_cache_key (grp_at i' x) = k \<and> group_like k"
      if "dget (cache (ir_cache i')) k = Some (GRef x, h)"
      using that ents [of k "(GRef x, h)"] cache_okD(2) [OF ok, of k x h] p gl by (auto simp: i' gk_def)
    show "\<not> group_like k" if "dhas (links (ir_cache i')) k"
      using that lks [of k] cache_okD(3) [OF ok, of k] mk(3) by (auto simp: i')
  qed
  moreover have u: "used i' \<subseteq> insert g (used i)"
    by (auto simp: i' used_def dest!: ents)
  moreover have ownd: "owned_by i' n x" if "owned_by i n x" for n x
    using that owns by (auto simp: owned_by_def i')
  moreover have "owned_by i' g m" using own mk by (auto simp: owned_by_def i' gk_def)
  moreover have "grp_ok i' n" if "n \<in> used i'" for n
  proof (cases "n = g")
    case True
    then show ?thesis using p ownd \<open>owned_by i' g m\<close> by (auto simp: grp_ok_def i')
  next
    case False
    then have "grp_ok i n" using p u that by blast
    then show ?thesis using ownd by (auto simp: grp_ok_def i')
  qed
  moreover have "fresh_at D L i' n = fresh_at D L i n" for n by (simp add: i' fresh_at_def)
  moreover have "fresh_at D L i x" if "dget (cache c) k = Some (MRef x, h)" for k x h
    using ents [OF that] p mk(5) by blast
  ultimately show ?thesis
    using p unfolding map_inv_def fresh_def i' by simp blast
qed

section \<open>A round of reconfiguration\<close>

definition holds :: "string set \<Rightarrow> nat \<Rightarrow> nat list \<Rightarrow> ir \<Rightarrow> bool" where
  "holds D L live i \<longleftrightarrow> map_inv i \<and> fresh D L i \<and> (\<forall>m \<in> set live. live_ok D L i m)"

lemma find_group_live:
  assumes "find_group m i = Inr (g, i')" and "map_inv i" and "live_ok D L i n"
  shows "live_ok D L i' n"
proof -
  have add: "live_ok D L j' n" if "group_add_mapping x m j = Inr j'" "x < length (grps j)" "live_ok D L j n" for x j j'
    using grows_live_ok [OF group_add_grows [OF that(1,2)] that(3)] .
  show ?thesis using assms(1,2)
  proof (cases rule: find_group_cases)
    case known
    then show ?thesis using add assms(3) by blast
  next
    case (absent r i1 i2 mp loc name gs)
    have l1: "live_ok D L i1 n" using fetch_inv(4) [OF absent(1) assms(2)] assms(3) by simp
    have "live_ok D L i2 n" using absent(3)
    proof
      assume "group_init (group_class mp) loc name m i1 = Inr (g, i2)"
      then obtain gr where a: "group_add_mapping g m (i1\<lparr>grps := grps i1 @ [gr]\<rparr>) = Inr i2" "g = length (grps i1)"
        by (rule group_init_cases)
      have "live_ok D L (i1\<lparr>grps := grps i1 @ [gr]\<rparr>) n" using l1 by (simp add: live_ok_def fresh_at_def)
      then show ?thesis using add [OF a(1)] a(2) by simp
    qed (use l1 in simp)
    then show ?thesis unfolding absent(2) by (simp add: live_ok_def fresh_at_def)
  qed
qed

lemma add_mapping_holds:
  assumes "add_mapping m i = Inr (r, i')" and "holds D L live i" and "m \<in> set live"
  shows "holds D L live i'"
proof -
  define i1 where "i1 = check_status (map_at i m) i"
  have sc: "same_core i i1" by (simp add: i1_def)
  then have i1: "map_inv i1" "fresh D L i1" "\<forall>n \<in> set live. live_ok D L i1 n"
    using assms(2) same_core_inv [OF sc] by (auto simp: holds_def)
  show ?thesis
  proof (cases "is_active (map_at i m)")
    case False
    then show ?thesis using assms(1) i1 by (simp add: add_mapping_def i1_def holds_def Let_def)
  next
    case True
    then obtain g i2 where f: "find_group m i1 = Inr (g, i2)" and c: "cache_mapping m g i2 = Inr i'"
      using assms(1) by (auto simp: add_mapping_def i1_def [symmetric] rbind_eq_Inr)
    have "prepared D L g m i2" using find_group_prepared [OF f i1(1,2)] i1(3) assms(3) by blast
    from cache_mapping_inv [OF c this] find_group_live [OF f i1(1)] i1(3) show ?thesis
      by (simp add: holds_def)
  qed
qed

lemma invalidate_group_holds:
  assumes "invalidate_group m i = Inr i'" and "holds D L live i"
  shows "holds D L live i'"
proof -
  define x where "x = key_for_id (group_class (map_at i m)) (gid (map_at i m))"
  have inv: "map_inv i" "fresh D L i" "\<forall>m \<in> set live. live_ok D L i m" using assms(2) by (simp_all add: holds_def)
  have "group_like x" by (simp add: x_def key_for_id_def group_class_def group_like_def)
  then have "holds D L live (inval_in x i)"
    using invalidate_group_like [OF inv(1)] fresh_invalidate [OF inv(2)] inv(3) by (simp add: holds_def)
  moreover have "use_cache i" using inv(1) by (simp add: map_inv_def)
  ultimately show ?thesis
    using assms by (auto simp: invalidate_group_def rbind_eq_Inr ir_invalidate_def x_def split: if_splits)
qed

lemma rfold_holds:
  assumes "rfold f xs i = Inr i'" and "P i" and "\<And>x i i'. x \<in> set xs \<Longrightarrow> f x i = Inr i' \<Longrightarrow> P i \<Longrightarrow> P i'"
  shows "P i'"
  using assms by (induction xs arbitrary: i) (fastforce simp: rbind_eq_Inr)+

lemma load_config_holds:
  assumes "load_config sha1 env kind cs i = Inr i'" and "holds D L [] i"
    and "\<forall>c \<in> set cs. proper_kind (ac_kind c)"
  shows "holds D L [] i'"
proof -
  obtain live i1 i2 where l: "rfold (live_mapping sha1 env kind) cs ([], i) = Inr (live, i1)"
    and v: "rfold invalidate_group live i1 = Inr i2"
    and a: "rfold (\<lambda>m j. rbind (add_mapping m j) (\<lambda>(_, j'). Inr j')) live i2 = Inr i'"
    using assms(1) by (auto simp: load_config_def rbind_eq_Inr)
  have "loading D L (groups i) ([], i)" using assms(2) by (simp add: loading_def holds_def)
  from live_mappings_loading [OF l this assms(3)] have "holds D L live i1" by (simp add: loading_def holds_def)
  with v have "holds D L live i2" by (rule rfold_holds) (rule invalidate_group_holds)
  with a have "holds D L live i'"
    by (rule rfold_holds) (auto simp: rbind_eq_Inr intro: add_mapping_holds)
  then show ?thesis by (simp add: holds_def)
qed

lemma load_mappings_holds:
  assumes "load_mappings sha1 env https tcps i = Inr i'" and "holds D L [] i"
    and "\<forall>c \<in> set (https @ tcps). proper_kind (ac_kind c)"
  shows "holds D L [] i'"
  using assms load_config_holds by (fastforce simp: load_mappings_def rbind_eq_Inr)

lemma check_deltas_cases:
  assumes "check_deltas deltas c = Inr (t, reset, keys, c')"
  shows "t = ''complete'' \<and> reset \<or>
    t = ''incremental'' \<and> \<not> reset \<and> keys \<noteq> [] \<and>
      (\<exists>c0. c = Some c0 \<and> c' = Some (fold (\<lambda>k c. fst (invalidate k c)) keys c0))"
  using assms by (auto simp: check_deltas_def rbind_eq_Inr split: option.splits if_splits)

lemma empty_cache_inv:
  assumes "use_cache i" "ir_cache i = cache_init" "groups i = []"
  shows "map_inv i" "L \<le> length (maps i) \<Longrightarrow> fresh D L i"
  using assms by (auto simp: inv_defs fresh_defs cache_init_def dhas_def)

lemma reconfigure_holds:
  assumes r: "reconfigure sha1 env base deltas https tcps i = Inr (t, i')"
    and inv: "use_cache i \<longrightarrow> map_inv i"
    and kinds: "\<forall>c \<in> set (https @ tcps). proper_kind (ac_kind c)"
    and d: "check_deltas deltas (if use_cache i then Some (ir_cache i) else None) = Inr (t, reset, keys, c)"
  shows "holds (if t = ''complete'' then UNIV else set keys) (length (maps i)) [] i'"
proof -
  define i0 where "i0 = base\<lparr>use_cache := use_cache i \<or> reset, ir_cache := (if reset then cache_init else the c),
               invalidate_groups_for := keys, maps := maps i, grps := grps i, groups := []\<rparr>"
  have l: "load_mappings sha1 env https tcps i0 = Inr i'"
    using r d by (auto simp: reconfigure_def i0_def rbind_eq_Inr)
  have "holds (if t = ''complete'' then UNIV else set keys) (length (maps i)) [] i0"
  proof (cases reset)
    case True
    then have "use_cache i0" "ir_cache i0 = cache_init" "groups i0 = []" "length (maps i) = length (maps i0)"
      by (simp_all add: i0_def)
    then show ?thesis using empty_cache_inv [of i0] by (simp add: holds_def)
  next
    case False
    then have t: "t = ''incremental''" and uc: "use_cache i"
      and c: "the c = fold (\<lambda>k c. fst (invalidate k c)) keys (ir_cache i)"
      using check_deltas_cases [OF d] by (auto split: if_splits)
    define j where "j = base\<lparr>use_cache := True, ir_cache := ir_cache i,
      invalidate_groups_for := keys, maps := maps i, grps := grps i, groups := []\<rparr>"
    have "used j \<subseteq> used i" by (auto simp: j_def used_def)
    then have "map_inv j" "groups j = []"
      using inv uc by (auto simp: j_def map_inv_def cache_ok_def grp_ok_def owned_by_def)
    moreover have "i0 = j\<lparr>ir_cache := fold (\<lambda>k c. fst (invalidate k c)) keys (ir_cache j)\<rparr>"
      by (cases base) (simp add: i0_def j_def False c uc)
    ultimately have "map_inv i0 \<and> (\<forall>k \<in> set keys. no_member k i0)"
      using invalidate_all by simp
    moreover have "length (maps i) = length (maps i0)" by (simp add: i0_def)
    ultimately show ?thesis using no_member_fresh [of i0] t by (simp add: holds_def)
  qed
  then show ?thesis using load_mappings_holds [OF l _ kinds] by blast
qed

text \<open>
  The states \<open>diagd\<close> goes through: it starts without a cache and without an IR, and every round reads
  Mappings and TCPMappings.
\<close>

inductive reachable :: "(string \<Rightarrow> string) \<Rightarrow> (string \<Rightarrow> string option) \<Rightarrow> ir \<Rightarrow> bool"
  for sha1 :: "string \<Rightarrow> string" and env :: "string \<Rightarrow> string option" where
  start: "\<not> use_cache i \<Longrightarrow> reachable sha1 env i"
| round: "reachable sha1 env i \<Longrightarrow> reconfigure sha1 env base deltas https tcps i = Inr (t, i') \<Longrightarrow>
     \<forall>c \<in> set (https @ tcps). proper_kind (ac_kind c) \<Longrightarrow> reachable sha1 env i'"

lemma reconfigure_deltas:
  "reconfigure sha1 env base deltas https tcps i = Inr (t, i') \<Longrightarrow>
   \<exists>reset keys c. check_deltas deltas (if use_cache i then Some (ir_cache i) else None) = Inr (t, reset, keys, c)"
  by (auto simp: reconfigure_def rbind_eq_Inr)

lemma reachable_map_inv: "reachable sha1 env i \<Longrightarrow> use_cache i \<Longrightarrow> map_inv i"
proof (induction rule: reachable.induct)
  case (round i base deltas https tcps t i')
  from reconfigure_deltas [OF round.hyps(2)] obtain reset keys c where
      "check_deltas deltas (if use_cache i then Some (ir_cache i) else None) = Inr (t, reset, keys, c)" by blast
  from reconfigure_holds [OF round.hyps(2) _ round.hyps(3) this] round.IH show ?case
    by (simp add: holds_def)
qed simp

text \<open>
  C1: Incremental reconfiguration never serves a stale Mapping. In every state \<open>diagd\<close> can reach,
  after a further round of reconfiguration every Mapping of a group in use that is named by a
  delta of that round was built in that round from the current configuration (its reference is a
  new one); after a complete round that holds for every Mapping.
\<close>

theorem no_stale_mappings:
  assumes "reachable sha1 env i"
    and "reconfigure sha1 env base deltas https tcps i = Inr (t, i')"
    and "\<forall>c \<in> set (https @ tcps). proper_kind (ac_kind c)"
    and "check_deltas deltas (if use_cache i then Some (ir_cache i) else None) = Inr (t, reset, keys, c)"
    and "(x, g) \<in> set (groups i')" and "m \<in> set (members (grp_at i' g))"
    and "t = ''complete'' \<or> ir_cache_key (map_at i' m) \<in> Some ` set keys"
  shows "length (maps i) \<le> m \<and> m < length (maps i')"
proof -
  have "use_cache i \<longrightarrow> map_inv i" using reachable_map_inv [OF assms(1)] by blast
  from reconfigure_holds [OF assms(2) this assms(3,4)]
  have h: "map_inv i'" "fresh (if t = ''complete'' then UNIV else set keys) (length (maps i)) i'"
    by (simp_all add: holds_def)
  have g: "g \<in> used i'" using assms(5) by (force simp: used_def)
  then have o: "owned_by i' g m" using h(1) assms(6) by (auto simp: map_inv_def grp_ok_def)
  then have "m < length (maps i')" by (simp add: owned_by_def)
  moreover have "fresh_at (if t = ''complete'' then UNIV else set keys) (length (maps i)) i' m"
    using h(2) g assms(6) unfolding fresh_def by blast
  ultimately show ?thesis using o assms(7) by (auto simp: fresh_at_def owned_by_def split: if_splits)
qed

definition demo_cfg :: "string \<Rightarrow> string \<Rightarrow> ac" where
  "demo_cfg name pre = \<lparr>ac_rkey = name, ac_location = [], ac_kind = ''Mapping'', ac_name = name, ac_namespace = Some ''ns'',
     ac_apiVersion = PStr ''getambassador.io/v3alpha1'', ac_serialization = None, ac_errors = None,
     ac_attrs = [(''prefix'', PStr pre), (''service'', PStr ''svc'')]\<rparr>"

definition delta_json :: "string \<times> string \<times> string \<Rightarrow> pyval" where
  "delta_json d = (case d of (kind, name, ns) \<Rightarrow>
     PDict [(''kind'', PStr kind), (''metadata'', PDict [(''name'', PStr name), (''namespace'', PStr ns)])])"

definition demo_base :: ir where
  "demo_base = load_resolvers [] demo_ir"

definition demo_first :: "(string \<times> string) list \<Rightarrow> (string \<times> ir) res" where
  "demo_first ms = reconfigure id (\<lambda>_. None) demo_base [] (map (\<lambda>(n, p). demo_cfg n p) ms) [] (demo_base\<lparr>use_cache := False\<rparr>)"

definition demo_next :: "string \<Rightarrow> (string \<times> string) list \<Rightarrow> ir \<Rightarrow> (string \<times> ir) res" where
  "demo_next changed ms i =
     reconfigure id (\<lambda>_. None) demo_base [delta_json (''Mapping'', changed, ''ns'')] (map (\<lambda>(n, p). demo_cfg n p) ms) [] i"

lemma demo_kinds: "\<forall>c \<in> set (map (\<lambda>(n, p). demo_cfg n p) ms @ []). proper_kind (ac_kind c)"
  by (auto simp: demo_cfg_def proper_kind_def)

lemma demo_reachable:
  assumes "demo_first ms = Inr (t, i)"
  shows "reachable id (\<lambda>_. None) i"
  by (rule reachable.round [OF reachable.start assms [unfolded demo_first_def] demo_kinds]) simp

theorem no_stale_mappings_witness:
  "\<exists>i i'. demo_first [(''a'', ''/x/''), (''b'', ''/y/'')] = Inr (''complete'', i) \<and>
     demo_next ''b'' [(''a'', ''/x/''), (''b'', ''/x/'')] i = Inr (''incremental'', i') \<and>
     map (\<lambda>(_, g). members (grp_at i' g)) (groups i') = [[0, 2]] \<and> length (maps i) \<le> 2 \<and> 2 < length (maps i')"
proof -
  let ?ms = "[(''a'', ''/x/''), (''b'', ''/y/'')]" and ?ms' = "[(''a'', ''/x/''), (''b'', ''/x/'')]"
  have e: "map_sum (\<lambda>_. ()) (\<lambda>(t, i). (t, map_sum (\<lambda>_. ()) (\<lambda>(t', i'). (t', map (\<lambda>(_, g). (g, members (grp_at i' g))) (groups i'),
        ir_cache_key (map_at i' 2), map_sum (\<lambda>_. ()) (\<lambda>(t, r, ks, c). (t, r, ks, c \<noteq> None))
           (check_deltas [delta_json (''Mapping'', ''b'', ''ns'')] (if use_cache i then Some (ir_cache i) else None))))
        (demo_next ''b'' ?ms' i))) (demo_first ?ms) =
     Inr (''complete'', Inr (''incremental'', [(2, [0, 2])], Some ''Mapping-v2-b-ns'',
        Inr (''incremental'', False, [''Mapping-v2-b-ns''], True)))"
    by code_simp
  then obtain i where i: "demo_first ?ms = Inr (''complete'', i)" by (cases "demo_first ?ms") auto
  with e obtain i' where i': "demo_next ''b'' ?ms' i = Inr (''incremental'', i')" by (cases "demo_next ''b'' ?ms' i") auto
  note e' = e [unfolded i map_sum.simps prod.case i']
  obtain c where d: "check_deltas [delta_json (''Mapping'', ''b'', ''ns'')] (if use_cache i then Some (ir_cache i) else None) =
      Inr (''incremental'', False, [''Mapping-v2-b-ns''], c)"
    using e' by (cases "check_deltas [delta_json (''Mapping'', ''b'', ''ns'')] (if use_cache i then Some (ir_cache i) else None)") auto
  obtain x where g: "groups i' = [(x, 2)]" "members (grp_at i' 2) = [0, 2]" "ir_cache_key (map_at i' 2) = Some ''Mapping-v2-b-ns''"
    using e' by auto
  have "length (maps i) \<le> 2 \<and> 2 < length (maps i')"
    by (rule no_stale_mappings [OF demo_reachable [OF i] i' [unfolded demo_next_def] demo_kinds d, where x = x and g = 2 and m = 2])
      (simp_all add: g)
  with i i' g show ?thesis by simp
qed

section \<open>Deltas\<close>

definition mapping_delta :: "string \<times> string \<times> string \<Rightarrow> bool" where
  "mapping_delta d \<longleftrightarrow> fst d = ''Mapping'' \<or> fst d = ''TCPMapping''"

definition named_delta :: "string \<times> string \<times> string \<Rightarrow> bool" where
  "named_delta d \<longleftrightarrow> fst (snd d) \<noteq> [] \<and> snd (snd d) \<noteq> []"

definition delta_keys :: "(string \<times> string \<times> string) list \<Rightarrow> string list" where
  "delta_keys ds = map (\<lambda>(k, n, s). make_cache_key k n s) (filter (\<lambda>d. mapping_delta d \<and> named_delta d) ds)"

lemma delta_steps:
  "rfold delta_step (map delta_json ds) (e, keys) =
     Inr (e + length (filter (\<lambda>d. mapping_delta d \<and> \<not> named_delta d) ds), keys @ delta_keys ds)"
proof (induction ds arbitrary: e keys)
  case Nil
  then show ?case by (simp add: delta_keys_def)
next
  case (Cons d ds)
  obtain k n s where d: "d = (k, n, s)" by (cases d)
  have step: "delta_step (delta_json d) (e, keys) =
      Inr (if mapping_delta d then if named_delta d then (e, keys @ [make_cache_key k n s]) else (e + 1, keys) else (e, keys))"
    by (simp add: delta_step_def delta_json_def d mapping_delta_def named_delta_def dget_or_def pv_fmt_def)
  show ?case using Cons.IH by (simp add: step [unfolded d] delta_keys_def d)
qed

text \<open>
  C3: What decides between an incremental and a complete reconfiguration. For deltas that carry a
  kind, a name and a namespace as strings: with a cache, the reconfiguration is incremental exactly
  when some Mapping or TCPMapping changed and none of those that changed lacks its name or its
  namespace (deltas of other kinds are not looked at, even if there are some). Then the changed
  Mappings and everything they own over the links of the cache, such as their groups, are gone from
  the cache, and every other entry is what it was. In all other cases the cache is reset.
\<close>

theorem check_deltas_decides:
  "\<exists>c'. check_deltas (map delta_json ds) (Some c) =
     (if delta_keys ds \<noteq> [] \<and> filter (\<lambda>d. mapping_delta d \<and> \<not> named_delta d) ds = []
      then Inr (''incremental'', False, delta_keys ds, Some c')
      else Inr (''complete'', True, delta_keys ds, Some c)) \<and>
     (\<forall>k. fst (cache_getitem c' k) =
        (if list_ex (\<lambda>key. (owns c)\<^sup>*\<^sup>* key k) (delta_keys ds) then None else fst (cache_getitem c k)))"
proof -
  let ?c = "fold (\<lambda>k c. fst (invalidate k c)) (delta_keys ds) c"
  have "check_deltas (map delta_json ds) (Some c) =
     (if delta_keys ds \<noteq> [] \<and> filter (\<lambda>d. mapping_delta d \<and> \<not> named_delta d) ds = []
      then Inr (''incremental'', False, delta_keys ds, Some ?c) else Inr (''complete'', True, delta_keys ds, Some c))"
  proof (cases "ds = []")
    case False
    then show ?thesis unfolding check_deltas_def by (simp add: delta_steps del: filter_empty_conv)
  qed (simp add: check_deltas_def delta_keys_def)
  moreover have "fst (cache_getitem ?c k) =
      (if list_ex (\<lambda>key. (owns c)\<^sup>*\<^sup>* key k) (delta_keys ds) then None else fst (cache_getitem c k))" for k
    using invalidate_all_exact [of "delta_keys ds" c k] by (simp add: cache_getitem_def split: option.split)
  ultimately show ?thesis by blast
qed

end
