(* ===== verification/Secrets.thy ===== *)
theory Secrets
  imports IRRes Urls
begin

text \<open>
  Secrets: \<open>SecretInfo\<close>, \<open>SavedSecret\<close> and \<open>SecretHandler\<close> of \<open>utils.py\<close>, and \<open>save_secret_info\<close>
  and \<open>resolve_secret\<close> of \<open>ir/ir.py\<close>. The handler is the one that runs in production, whose
  \<open>load_secret\<close> finds nothing; the files it writes are the field \<open>disk\<close> of the state. The digest
  is the parameter \<open>sha1\<close>, and strings stand for their UTF-8 encoding.

  The lemmas: what a resolved secret consists of, and that a secret can be mistaken for one of
  another namespace.
\<close>

section \<open>Base64 and paths\<close>

definition b64_val :: "char \<Rightarrow> nat option" where
  "b64_val c =
     (let n = of_char c :: nat in
      if 65 \<le> n \<and> n \<le> 90 then Some (n - 65)
      else if 97 \<le> n \<and> n \<le> 122 then Some (n - 71)
      else if 48 \<le> n \<and> n \<le> 57 then Some (n + 4)
      else if n = 43 then Some 62
      else if n = 47 then Some 63
      else None)"

text \<open>
  \<open>binascii.a2b_base64\<close>: other characters are skipped, a complete padding ends the input, and an
  incomplete group is an error. The arguments are the position in the group of four, the bits left
  over and the number of padding characters.
\<close>

fun a2b :: "nat \<Rightarrow> nat \<Rightarrow> nat \<Rightarrow> string \<Rightarrow> nat list option" where
  "a2b quad left pads [] = (if quad = 0 then Some [] else None)"
| "a2b quad left pads (c # s) =
     (if c = CHR ''=''
      then if 2 \<le> quad then if 4 \<le> quad + Suc pads then Some [] else a2b quad left (Suc pads) s
           else a2b quad left pads s
      else case b64_val c of
             None \<Rightarrow> a2b quad left pads s
           | Some v \<Rightarrow>
               if quad = 0 then a2b 1 v 0 s
               else if quad = 1 then map_option ((#) (left * 4 + v div 16)) (a2b 2 (v mod 16) 0 s)
               else if quad = 2 then map_option ((#) (left * 16 + v div 4)) (a2b 3 (v mod 4) 0 s)
               else map_option ((#) (left * 64 + v)) (a2b 0 0 0 s))"

definition a2b_base64 :: "string \<Rightarrow> nat list option" where
  "a2b_base64 s = a2b 0 0 0 s"

definition cont_byte :: "nat \<Rightarrow> bool" where
  "cont_byte b \<longleftrightarrow> 128 \<le> b \<and> b < 192"

text \<open>Well-formed UTF-8.\<close>

fun utf8_ok :: "nat list \<Rightarrow> bool" where
  "utf8_ok [] = True"
| "utf8_ok (a # r) =
     (if a < 128 then utf8_ok r
      else if 194 \<le> a \<and> a < 224 then (case r of b # r' \<Rightarrow> cont_byte b \<and> utf8_ok r' | _ \<Rightarrow> False)
      else if 224 \<le> a \<and> a < 240
      then (case r of
              b # c # r' \<Rightarrow> cont_byte b \<and> cont_byte c \<and> (a = 224 \<longrightarrow> 160 \<le> b) \<and> (a = 237 \<longrightarrow> b < 160) \<and> utf8_ok r'
            | _ \<Rightarrow> False)
      else if 240 \<le> a \<and> a < 245
      then (case r of
              b # c # d # r' \<Rightarrow> cont_byte b \<and> cont_byte c \<and> cont_byte d \<and> (a = 240 \<longrightarrow> 144 \<le> b) \<and> (a = 244 \<longrightarrow> b < 144) \<and> utf8_ok r'
            | _ \<Rightarrow> False)
      else False)"

definition path_join :: "string \<Rightarrow> string \<Rightarrow> string" where
  "path_join a b =
     (if startswith b ''/'' then b else if a = [] \<or> last a = CHR ''/'' then a @ b else a @ ''/'' @ b)"

section \<open>Secret information\<close>

definition is_decodable :: "string option \<Rightarrow> bool" where
  "is_decodable pem =
     (case pem of None \<Rightarrow> False
      | Some s \<Rightarrow> s \<noteq> [] \<and> \<not> (startswith s ''-----BEGIN'' \<or> startswith s ''-sanitized-''))"

definition decode :: "string \<Rightarrow> string option" where
  "decode b64_pem =
     (case a2b_base64 b64_pem of
        None \<Rightarrow> None
      | Some bytes \<Rightarrow> if utf8_ok bytes then Some (map char_of bytes) else None)"

definition decoded :: "string option \<Rightarrow> string option" where
  "decoded pem = (if is_decodable pem then decode (the pem) else pem)"

definition secret_info_init ::
  "string \<Rightarrow> string option \<Rightarrow> pyval \<Rightarrow> string option \<Rightarrow> string option \<Rightarrow> string option \<Rightarrow> string option \<Rightarrow> bool \<Rightarrow> secret_info" where
  "secret_info_init name ns secret_type tls_crt tls_key user_key root_crt decode_b64 =
     (let f = (if decode_b64 then decoded else id) in
      \<lparr>si_name = name, si_namespace = ns, si_type = secret_type, si_tls_crt = f tls_crt, si_tls_key = f tls_key,
       si_user_key = f user_key, si_root_crt = f root_crt\<rparr>)"

text \<open>A part of a secret; a value that is neither empty nor a string has no \<open>startswith\<close>.\<close>

definition pem_of :: "pyval \<Rightarrow> string option res" where
  "pem_of v = (case v of PStr s \<Rightarrow> Inr (Some s) | _ \<Rightarrow> if truthy v then Inl (AttributeError ''startswith'') else Inr None)"

definition from_aconf_secret :: "ac \<Rightarrow> secret_info res" where
  "from_aconf_secret c =
     (let get = pget (ac_attrs c) in
      rbind (case dget (ac_attrs c) ''secret_type'' of None \<Rightarrow> Inl (AttributeError ''secret_type'') | Some t \<Rightarrow> Inr t) (\<lambda>t.
      rbind (pem_of (por (get ''tls_crt'') (get ''cert-chain_pem''))) (\<lambda>tls_crt.
      rbind (pem_of (por (get ''tls_key'') (get ''key_pem''))) (\<lambda>tls_key.
      rbind (pem_of (por (get ''user_key'') (get ''crl_pem''))) (\<lambda>user_key.
      rbind (pem_of (get ''root-cert_pem'')) (\<lambda>root_crt.
        Inr (secret_info_init (ac_name c) (ac_namespace c) t tls_crt tls_key user_key root_crt True)))))))"

definition fingerprint :: "(string \<Rightarrow> string) \<Rightarrow> string option \<Rightarrow> string" where
  "fingerprint sha1 pem =
     (case pem of
        None \<Rightarrow> ''<none>''
      | Some s \<Rightarrow>
          if s = [] then ''<none>''
          else (if startswith s ''-----BEGIN'' then ''PEM'' else ''RAW'') @ '': '' @ str_upper (take 16 (sha1 s)))"

definition secret_to_dict :: "(string \<Rightarrow> string) \<Rightarrow> secret_info \<Rightarrow> pyval pydict" where
  "secret_to_dict sha1 si =
     [(''name'', PStr (si_name si)), (''namespace'', case si_namespace si of None \<Rightarrow> PNone | Some n \<Rightarrow> PStr n),
      (''secret_type'', si_type si), (''tls_crt'', PStr (fingerprint sha1 (si_tls_crt si))),
      (''tls_key'', PStr (fingerprint sha1 (si_tls_key si))), (''user_key'', PStr (fingerprint sha1 (si_user_key si))),
      (''root_crt'', PStr (fingerprint sha1 (si_root_crt si)))]"

section \<open>Saved secrets\<close>

definition given :: "string option \<Rightarrow> bool" where
  "given v \<longleftrightarrow> v \<noteq> None \<and> v \<noteq> Some []"

definition opt_pem :: "string option \<Rightarrow> string" where
  "opt_pem v = (case v of None \<Rightarrow> [] | Some s \<Rightarrow> s)"

definition ss_name :: "saved_secret \<Rightarrow> string" where
  "ss_name ss = ''secret '' @ ss_secret_name ss @ '' in namespace '' @ ss_namespace ss"

definition ss_bool :: "saved_secret \<Rightarrow> bool" where
  "ss_bool ss \<longleftrightarrow> (given (cert_path ss) \<or> given (user_path ss)) \<and> cert_data ss \<noteq> None"

definition no_secret :: "string \<Rightarrow> string \<Rightarrow> saved_secret" where
  "no_secret name ns =
     \<lparr>ss_secret_name = name, ss_namespace = ns, cert_path = None, key_path = None, user_path = None,
      root_cert_path = None, cert_data = None\<rparr>"

definition secret_file :: "string \<Rightarrow> string \<Rightarrow> string option \<Rightarrow> string \<Rightarrow> (string \<times> string) option" where
  "secret_file dir hx content ext =
     (case content of Some s \<Rightarrow> if s = [] then None else Some (path_join dir (hx @ ext), s) | None \<Rightarrow> None)"

text \<open>\<open>cache_internal\<close>: the saved secret and the files, as a dictionary from paths to contents.\<close>

definition cache_internal ::
  "(string \<Rightarrow> string) \<Rightarrow> string \<Rightarrow> string \<Rightarrow> string \<Rightarrow> string option \<Rightarrow> string option \<Rightarrow> string option \<Rightarrow> string option \<Rightarrow>
     string pydict \<Rightarrow> saved_secret \<times> string pydict" where
  "cache_internal sha1 cache_dir name ns tls_crt tls_key user_key root_crt files =
     (if \<not> (given tls_crt \<or> given user_key \<or> given root_crt) then (no_secret name ns, files)
      else
        let hx = str_upper (sha1 (concat (map opt_pem [tls_crt, tls_key, user_key])));
            dir = path_join (path_join (path_join cache_dir ns) ''secrets-decoded'') name;
            crt = secret_file dir hx tls_crt ''.crt''; key = secret_file dir hx tls_key ''.key'';
            user = secret_file dir hx user_key ''.user''; rootf = secret_file dir hx root_crt ''.root.crt''
        in (\<lparr>ss_secret_name = name, ss_namespace = ns, cert_path = map_option fst crt, key_path = map_option fst key,
             user_path = map_option fst user, root_cert_path = map_option fst rootf,
             cert_data = Some [(''tls_crt'', tls_crt), (''tls_key'', tls_key), (''user_key'', user_key), (''root_crt'', root_crt)]\<rparr>,
            dupdate files (List.map_filter id [crt, key, user, rootf])))"

definition cache_secret ::
  "(string \<Rightarrow> string) \<Rightarrow> string \<Rightarrow> secret_info \<Rightarrow> ir \<Rightarrow> (saved_secret \<times> ir) res" where
  "cache_secret sha1 cache_dir si i =
     (case si_namespace si of
        None \<Rightarrow>
          if given (si_tls_crt si) \<or> given (si_user_key si) \<or> given (si_root_crt si)
          then Inl (TypeError ''join() argument'')
          else Inr (no_secret (si_name si) ''None'', i)
      | Some ns \<Rightarrow>
          (let (ss, files) = cache_internal sha1 cache_dir (si_name si) ns (si_tls_crt si) (si_tls_key si) (si_user_key si)
                 (si_root_crt si) (disk i)
           in Inr (ss, i\<lparr>disk := files\<rparr>)))"

section \<open>Secrets of the IR\<close>

definition has_public_half :: "ac \<Rightarrow> bool" where
  "has_public_half c \<longleftrightarrow>
     truthy (pget (ac_attrs c) ''tls_crt'') \<or> truthy (pget (ac_attrs c) ''cert-chain_pem'') \<or>
     truthy (pget (ac_attrs c) ''user_key'') \<or> truthy (pget (ac_attrs c) ''crl_pem'')"

definition secret_key :: "string \<Rightarrow> string \<Rightarrow> string" where
  "secret_key name ns = name @ ''.'' @ ns"

definition save_secret :: "ac \<Rightarrow> ir \<Rightarrow> ir res" where
  "save_secret c i =
     (if has_public_half c
      then rbind (from_aconf_secret c) (\<lambda>si.
        Inr (i\<lparr>secret_infos := dset (secret_key (si_name si) (case si_namespace si of None \<Rightarrow> ''None'' | Some n \<Rightarrow> n)) si
               (secret_infos i)\<rparr>))
      else Inr i)"

definition save_secret_info :: "ir \<Rightarrow> ir res" where
  "save_secret_info i =
     rfold (\<lambda>(_, n) j. save_secret (obj_at (ir_aconf j) n) j) (bucket (ir_aconf i) ''secrets'') i"

definition resolve_secret ::
  "(string \<Rightarrow> string) \<Rightarrow> string \<Rightarrow> string \<Rightarrow> string \<Rightarrow> ir \<Rightarrow> (saved_secret \<times> ir) res" where
  "resolve_secret sha1 cache_dir secret_name ns i =
     (let ss_key = secret_key secret_name ns;
          unsaved = (case dget (secret_infos i) ss_key of
              None \<Rightarrow> Inr (no_secret secret_name ns, i)
            | Some si \<Rightarrow> rbind (cache_secret sha1 cache_dir si i) (\<lambda>(ss, i1).
                Inr (ss, i1\<lparr>saved_secrets := dset secret_name ss (saved_secrets i1)\<rparr>)))
      in case dget (saved_secrets i) ss_key of
           Some ss \<Rightarrow> if ss_bool ss then Inr (ss, i) else unsaved
         | None \<Rightarrow> unsaved)"

section \<open>Encoding in base64\<close>

definition b64_char :: "nat \<Rightarrow> char" where
  "b64_char v =
     char_of (if v < 26 then v + 65 else if v < 52 then v + 71 else if v < 62 then v - 4 else if v = 62 then 43 else 47)"

fun b64_encode :: "nat list \<Rightarrow> string" where
  "b64_encode [] = []"
| "b64_encode [a] = [b64_char (a div 4), b64_char (a mod 4 * 16), CHR ''='', CHR ''='']"
| "b64_encode [a, b] = [b64_char (a div 4), b64_char (a mod 4 * 16 + b div 16), b64_char (b mod 16 * 4), CHR ''='']"
| "b64_encode (a # b # c # r) =
     [b64_char (a div 4), b64_char (a mod 4 * 16 + b div 16), b64_char (b mod 16 * 4 + c div 64), b64_char (c mod 64)] @ b64_encode r"

lemma of_b64_char:
  assumes "v < 64"
  shows "(of_char (b64_char v) :: nat) =
    (if v < 26 then v + 65 else if v < 52 then v + 71 else if v < 62 then v - 4 else if v = 62 then 43 else 47)"
  using assms by (simp add: b64_char_def)

lemma b64_val_char:
  assumes "v < 64"
  shows "b64_val (b64_char v) = Some v" "b64_char v \<noteq> CHR ''=''" "b64_char v \<noteq> CHR ''-''"
proof -
  note n = of_b64_char [OF assms]
  have "(of_char (b64_char v) :: nat) \<noteq> of_char CHR ''=''" "(of_char (b64_char v) :: nat) \<noteq> of_char CHR ''-''"
    unfolding n using assms by auto
  then show "b64_char v \<noteq> CHR ''=''" "b64_char v \<noteq> CHR ''-''" by auto
  show "b64_val (b64_char v) = Some v"
    unfolding b64_val_def Let_def n using assms by auto
qed

lemma a2b_step:
  assumes "v < 64"
  shows "a2b 0 l p (b64_char v # s) = a2b 1 v 0 s"
    "a2b 1 l p (b64_char v # s) = map_option ((#) (l * 4 + v div 16)) (a2b 2 (v mod 16) 0 s)"
    "a2b 2 l p (b64_char v # s) = map_option ((#) (l * 16 + v div 4)) (a2b 3 (v mod 4) 0 s)"
    "a2b 3 l p (b64_char v # s) = map_option ((#) (l * 64 + v)) (a2b 0 0 0 s)"
  using b64_val_char [OF assms] by simp_all

lemma a2b_pad: "a2b 2 l 0 [CHR ''='', CHR ''=''] = Some []" "a2b 3 l 0 [CHR ''=''] = Some []"
  by simp_all

declare a2b.simps(2) [simp del]

lemma byte_parts:
  fixes a b c :: nat
  assumes "a < 256" "b < 256" "c < 256"
  shows "a div 4 < 64" "a mod 4 * 16 + b div 16 < 64" "b mod 16 * 4 + c div 64 < 64" "c mod 64 < 64"
    "a mod 4 * 16 < 64" "b mod 16 * 4 < 64"
    "a div 4 * 4 + (a mod 4 * 16 + b div 16) div 16 = a"
    "(a mod 4 * 16 + b div 16) mod 16 * 16 + (b mod 16 * 4 + c div 64) div 4 = b"
    "(b mod 16 * 4 + c div 64) mod 4 * 64 + c mod 64 = c"
    "a div 4 * 4 + a mod 4 * 16 div 16 = a" "(a mod 4 * 16 + b div 16) mod 16 * 16 + b mod 16 * 4 div 4 = b"
proof -
  have x: "a div 4 < 64" "a mod 4 < 4" "b div 16 < 16" "b mod 16 < 16" "c div 64 < 4" "c mod 64 < 64"
    using assms by (simp_all add: div_less_iff_less_mult)
  then show "a div 4 < 64" "a mod 4 * 16 + b div 16 < 64" "b mod 16 * 4 + c div 64 < 64" "c mod 64 < 64"
    "a mod 4 * 16 < 64" "b mod 16 * 4 < 64" by linarith+
  have "(a mod 4 * 16 + b div 16) div 16 = a mod 4" "(a mod 4 * 16 + b div 16) mod 16 = b div 16"
    "(b mod 16 * 4 + c div 64) div 4 = b mod 16" "(b mod 16 * 4 + c div 64) mod 4 = c div 64"
    using x by simp_all
  then show "a div 4 * 4 + (a mod 4 * 16 + b div 16) div 16 = a"
    "(a mod 4 * 16 + b div 16) mod 16 * 16 + (b mod 16 * 4 + c div 64) div 4 = b"
    "(b mod 16 * 4 + c div 64) mod 4 * 64 + c mod 64 = c"
    "(a mod 4 * 16 + b div 16) mod 16 * 16 + b mod 16 * 4 div 4 = b"
    by (simp_all only: div_mult_mod_eq nonzero_mult_div_cancel_right)
  show "a div 4 * 4 + a mod 4 * 16 div 16 = a" by simp
qed

lemma a2b_encode: "list_all (\<lambda>b. b < 256) bs \<Longrightarrow> a2b 0 0 0 (b64_encode bs) = Some bs"
proof (induction bs rule: b64_encode.induct)
  case (2 a)
  then have "a < 256" by simp
  from byte_parts [OF this this this] show ?case by (simp add: a2b_step a2b_pad del: One_nat_def)
next
  case (3 a b)
  then have "a < 256" "b < 256" by simp_all
  from byte_parts [OF this this(2)] show ?case by (simp add: a2b_step a2b_pad del: One_nat_def)
next
  case (4 a b c r)
  then have "a < 256" "b < 256" "c < 256" by simp_all
  from byte_parts [OF this] 4 show ?case by (simp add: a2b_step a2b_pad del: One_nat_def)
qed simp

lemma b64_dash: "v < 64 \<Longrightarrow> CHR ''-'' \<noteq> b64_char v"
  by (rule not_sym) (rule b64_val_char(3))

lemma encode_no_dash: "list_all (\<lambda>b. b < 256) bs \<Longrightarrow> CHR ''-'' \<notin> set (b64_encode bs)"
proof (induction bs rule: b64_encode.induct)
  case (2 a)
  then have "a < 256" by simp
  from byte_parts(1-6) [OF this this this] show ?case by (simp add: b64_dash)
next
  case (3 a b)
  then have "a < 256" "b < 256" by simp_all
  from byte_parts(1-6) [OF this this(2)] show ?case by (simp add: b64_dash)
next
  case (4 a b c r)
  then have "a < 256" "b < 256" "c < 256" by simp_all
  from byte_parts(1-6) [OF this] 4 show ?case by (simp add: b64_dash)
qed simp

abbreviation b64_text :: "string \<Rightarrow> string" where
  "b64_text s \<equiv> b64_encode (map of_char s)"

lemma decoded_encoded:
  assumes "utf8_ok (map of_char s)" and "s \<noteq> []"
  shows "decoded (Some (b64_text s)) = Some s"
proof -
  have b: "list_all (\<lambda>b. b < 256) (map of_char s :: nat list)"
    by (auto simp: list_all_iff)
  have ne: "b64_text s \<noteq> []"
  proof
    assume "b64_text s = []"
    then have "a2b 0 0 0 (b64_text s) = Some []" by simp
    with a2b_encode [OF b] assms(2) show False by simp
  qed
  have "\<not> startswith (b64_text s) ''-----BEGIN''" "\<not> startswith (b64_text s) ''-sanitized-''"
    using encode_no_dash [OF b] by (cases "b64_text s"; auto simp: startswith_def)+
  then have "is_decodable (Some (b64_text s))" using ne by (simp add: is_decodable_def)
  then show ?thesis
    using a2b_encode [OF b] assms(1) by (simp add: decoded_def decode_def a2b_base64_def comp_def)
qed

text \<open>
  What a value of a Secret carries: nothing if it is absent, the text that it has in base64, or,
  if it is a PEM or sanitized text, itself.
\<close>

fun carries :: "pyval \<Rightarrow> string option \<Rightarrow> bool" where
  "carries v None \<longleftrightarrow> v = PNone"
| "carries v (Some t) \<longleftrightarrow> t \<noteq> [] \<and>
     (v = PStr (b64_text t) \<and> utf8_ok (map of_char t) \<or>
      v = PStr t \<and> (startswith t ''-----BEGIN'' \<or> startswith t ''-sanitized-''))"

lemma carries_decoded:
  assumes "carries v p"
  shows "\<exists>w. pem_of v = Inr w \<and> decoded w = p"
proof (cases p)
  case None
  with assms show ?thesis by (simp add: pem_of_def decoded_def is_decodable_def)
next
  case (Some t)
  with assms consider "v = PStr (b64_text t)" "utf8_ok (map of_char t)" "t \<noteq> []"
    | "v = PStr t" "startswith t ''-----BEGIN'' \<or> startswith t ''-sanitized-''" by auto
  then show ?thesis
  proof cases
    case 1
    then show ?thesis using Some decoded_encoded [of t] by (simp add: pem_of_def)
  next
    case 2
    then show ?thesis using Some by (auto simp: pem_of_def decoded_def is_decodable_def)
  qed
qed

section \<open>Properties\<close>

text \<open>
  C20: the secret information of a Secret with a type holds exactly what the Secret carries. Each of
  its four parts, the certificate (\<open>tls.crt\<close> or else \<open>cert-chain.pem\<close>), the key (\<open>tls.key\<close> or else
  \<open>key.pem\<close>), the user key (\<open>user.key\<close> or else \<open>crl.pem\<close>) and the root certificate
  (\<open>root-cert.pem\<close>), may be absent, may be UTF-8 text in base64, which is decoded, or may be PEM or
  sanitized text, which is taken as it is.
\<close>

theorem secret_parts_decoded:
  assumes "dget (ac_attrs c) ''secret_type'' = Some t"
    and "carries (por (pget (ac_attrs c) ''tls_crt'') (pget (ac_attrs c) ''cert-chain_pem'')) crt"
    and "carries (por (pget (ac_attrs c) ''tls_key'') (pget (ac_attrs c) ''key_pem'')) key"
    and "carries (por (pget (ac_attrs c) ''user_key'') (pget (ac_attrs c) ''crl_pem'')) user"
    and "carries (pget (ac_attrs c) ''root-cert_pem'') ca"
  shows "from_aconf_secret c = Inr \<lparr>si_name = ac_name c, si_namespace = ac_namespace c, si_type = t,
     si_tls_crt = crt, si_tls_key = key, si_user_key = user, si_root_crt = ca\<rparr>"
  using carries_decoded [OF assms(2)] carries_decoded [OF assms(3)] carries_decoded [OF assms(4)]
    carries_decoded [OF assms(5)]
  by (elim exE conjE) (simp add: from_aconf_secret_def assms(1) secret_info_init_def)

definition demo_secret_ac :: "pyval pydict \<Rightarrow> ac" where
  "demo_secret_ac attrs = \<lparr>ac_rkey = ''s'', ac_location = [], ac_kind = ''Secret'', ac_name = ''s'', ac_namespace = Some ''ns'',
     ac_apiVersion = PStr ''v1'', ac_serialization = None, ac_errors = None, ac_attrs = attrs\<rparr>"

theorem secret_parts_decoded_witness:
  "map_sum id (\<lambda>si. (si_tls_crt si, si_tls_key si, si_user_key si, si_root_crt si))
     (from_aconf_secret (demo_secret_ac [(''secret_type'', PStr ''kubernetes.io/tls''),
        (''tls_crt'', PStr (b64_text ''cert'')), (''tls_key'', PStr (b64_text ''key''))])) =
     Inr (Some ''cert'', Some ''key'', None, None) \<and>
   map_sum id (\<lambda>si. (si_tls_crt si, si_tls_key si, si_user_key si, si_root_crt si))
     (from_aconf_secret (demo_secret_ac [(''secret_type'', PStr ''Opaque''),
        (''crl_pem'', PStr (b64_text ''crl'')), (''root-cert_pem'', PStr ''-----BEGIN CA'')])) =
     Inr (None, None, Some ''crl'', Some ''-----BEGIN CA'')"
proof -
  have "utf8_ok (map of_char ''cert'')" "utf8_ok (map of_char ''key'')" "utf8_ok (map of_char ''crl'')"
    "b64_text ''cert'' \<noteq> []" "b64_text ''key'' \<noteq> []" "b64_text ''crl'' \<noteq> []"
    by simp_all
  then show ?thesis
    using secret_parts_decoded [of "demo_secret_ac [(''secret_type'', PStr ''kubernetes.io/tls''),
        (''tls_crt'', PStr (b64_text ''cert'')), (''tls_key'', PStr (b64_text ''key''))]" _ "Some ''cert''" "Some ''key''" None None]
      secret_parts_decoded [of "demo_secret_ac [(''secret_type'', PStr ''Opaque''),
        (''crl_pem'', PStr (b64_text ''crl'')), (''root-cert_pem'', PStr ''-----BEGIN CA'')]" _ None None "Some ''crl''"
        "Some ''-----BEGIN CA''"]
    by (simp add: demo_secret_ac_def pget_def dget_or_def por_def startswith_def)
qed

text \<open>
  C35: a saved secret is filed under its name alone but looked up under its name and namespace. So
  after a secret whose name is \<open>n.ns\<close> has been resolved (in any namespace, as with Istio and without
  secret namespacing), the secret \<open>n\<close> of namespace \<open>ns\<close> resolves to it, whatever that secret holds.
\<close>

theorem secret_of_another_namespace:
  assumes "resolve_secret sha1 dir (n @ ''.'' @ ns) m i = Inr (ss, i')" and "ss_bool ss"
    and "dget (saved_secrets i) (secret_key (n @ ''.'' @ ns) m) = None"
  shows "resolve_secret sha1 dir n ns i' = Inr (ss, i')"
proof -
  obtain si where "dget (secret_infos i) (secret_key (n @ ''.'' @ ns) m) = Some si"
    using assms by (cases "dget (secret_infos i) (secret_key (n @ ''.'' @ ns) m)")
      (auto simp: resolve_secret_def no_secret_def ss_bool_def given_def)
  then obtain i1 where "i' = i1\<lparr>saved_secrets := dset (n @ ''.'' @ ns) ss (saved_secrets i1)\<rparr>"
    using assms(1,3) by (auto simp: resolve_secret_def rbind_eq_Inr)
  then show ?thesis using assms(2) by (simp add: resolve_secret_def secret_key_def)
qed

definition demo_secret :: "string \<Rightarrow> string \<Rightarrow> string \<Rightarrow> secret_info" where
  "demo_secret name ns pem =
     \<lparr>si_name = name, si_namespace = Some ns, si_type = PStr ''kubernetes.io/tls'', si_tls_crt = Some pem, si_tls_key = Some ''k'',
      si_user_key = None, si_root_crt = None\<rparr>"

theorem secret_of_another_namespace_witness:
  "\<exists>ss i'. resolve_secret id ''/c'' ''a.b'' ''istio''
       (demo_ir\<lparr>secret_infos := [(''a.b.istio'', demo_secret ''a.b'' ''istio'' ''p''), (''a.b'', demo_secret ''a'' ''b'' ''q'')]\<rparr>) = Inr (ss, i') \<and>
     ss_namespace ss = ''istio'' \<and> resolve_secret id ''/c'' ''a'' ''b'' i' = Inr (ss, i')"
proof -
  let ?i = "demo_ir\<lparr>secret_infos := [(''a.b.istio'', demo_secret ''a.b'' ''istio'' ''p''), (''a.b'', demo_secret ''a'' ''b'' ''q'')]\<rparr>"
  let ?r = "resolve_secret id ''/c'' (''a'' @ ''.'' @ ''b'') ''istio'' ?i"
  have "map_sum (\<lambda>_. ()) (\<lambda>(ss, i). (ss_bool ss, ss_namespace ss)) ?r = Inr (True, ''istio'')" by code_simp
  then obtain ss i' where r: "?r = Inr (ss, i')" and s: "ss_bool ss" "ss_namespace ss = ''istio''" by (cases ?r) auto
  have "dget (saved_secrets ?i) (secret_key (''a'' @ ''.'' @ ''b'') ''istio'') = None" by (simp add: demo_ir_def)
  from secret_of_another_namespace [OF r s(1) this] r s(2) show ?thesis by auto
qed

end
