(* ===== verification/Tls.thy ===== *)
theory Tls
  imports Secrets
begin

text \<open>
  TLS contexts: \<open>IRTLSContext\<close> and its factory (\<open>ir/irtlscontext.py\<close>), the translation of the legacy
  TLS module (\<open>ir/irtls.py\<close>), and \<open>save_tls_context\<close> and \<open>get_tls_context\<close> of \<open>ir/ir.py\<close>. The
  dictionary \<open>secret_info\<close> of a context is its attribute of that name. \<open>fc\<close> is the file checker
  that the IR is given.

  The lemmas: a context that resolves has all the files it names, and the two ways in which the
  legacy module and the secrets go wrong.
\<close>

section \<open>Contexts\<close>

definition CertKeys :: "string list" where
  "CertKeys = [''secret'', ''cert_chain_file'', ''private_key_file'', ''ca_secret'', ''cacert_chain_file'', ''crl_secret'', ''crl_file'']"

definition TLSAllowedKeys :: "string list" where
  "TLSAllowedKeys = [''_ambassador_enabled'', ''_legacy'', ''alpn_protocols'', ''cert_required'', ''cipher_suites'', ''ecdh_curves'',
     ''hosts'', ''max_tls_version'', ''min_tls_version'', ''redirect_cleartext_from'', ''secret_namespacing'', ''sni'']"

type_synonym tstate = "irres \<times> ir"

definition tset :: "string \<Rightarrow> pyval \<Rightarrow> irres \<Rightarrow> irres" where
  "tset k v c = c\<lparr>ir_attrs := dset k v (ir_attrs c)\<rparr>"

definition tls_error :: "string \<Rightarrow> tstate \<Rightarrow> tstate" where
  "tls_error msg ci = res_post_error msg ci"

text \<open>The checks of \<open>setup\<close>: the state and whether there was an error.\<close>

definition check_cert_spec :: "tstate \<Rightarrow> bool \<times> tstate" where
  "check_cert_spec ci =
     (let (c, i) = ci;
          chain = truthy (rget c ''cert_chain_file'');
          lone = chain \<and> \<not> truthy (rget c ''private_key_file'');
          both = chain \<and> truthy (rget c ''secret'');
          ci1 = (if lone then tls_error (''TLSContext '' @ ir_name c @ '': 'cert_chain_file' requires 'private_key_file' as well'') ci else ci);
          ci2 = (if both then tls_error (''TLSContext '' @ ir_name c @
                   '': exactly one of 'secret' and 'cert_chain_file' must be present'') ci1 else ci1)
      in (lone \<or> both, ci2))"

definition check_redirect :: "tstate \<Rightarrow> tstate res" where
  "check_redirect ci =
     (let (c, i) = ci; rcf = rget c ''redirect_cleartext_from'' in
      if rcf = PNone then Inr ci
      else case py_int rcf of
             Inr n \<Rightarrow> Inr (tset ''redirect_cleartext_from'' (PInt n) c, i)
           | Inl (ValueError _) \<Rightarrow>
               (let (c1, i1) = tls_error (''TLSContext '' @ ir_name c @ '': redirect_cleartext_from must be a port number rather than '' @
                      [CHR 39] @ pv_fmt rcf @ [CHR 39]) ci
                in Inr (tset ''redirect_cleartext_from'' PNone c1, i1))
           | Inl e \<Rightarrow> Inl e)"

definition move_cert_keys :: "irres \<Rightarrow> irres" where
  "move_cert_keys c =
     (let si = List.map_filter (\<lambda>k. map_option (\<lambda>v. (k, v)) (dget (ir_attrs c) k)) CertKeys
      in c\<lparr>ir_attrs := dset ''secret_info'' (PDict si) (fold ddel CertKeys (ir_attrs c))\<rparr>)"

definition tls_setup :: "tstate \<Rightarrow> (bool \<times> tstate) res" where
  "tls_setup ci =
     (let (bad, ci1) = (if truthy (rget (fst ci) ''_ambassador_enabled'') then (False, ci) else check_cert_spec ci) in
      if bad then Inr (False, ci1)
      else rbind (check_redirect ci1) (\<lambda>(c2, i2). Inr (True, move_cert_keys c2, i2)))"

definition new_context ::
  "string \<Rightarrow> string \<Rightarrow> string \<Rightarrow> string \<Rightarrow> string option \<Rightarrow> pyval \<Rightarrow> pyval \<Rightarrow> pyval pydict \<Rightarrow> ir \<Rightarrow> irres" where
  "new_context kind rkey name location ns labels is_fallback kwargs i =
     \<lparr>ir_rkey = rkey, ir_location = location, ir_kind = kind, ir_name = name,
      ir_namespace = (if ns = None \<or> ns = Some [] then ambassador_namespace (ir_settings i) else the ns),
      ir_labels = labels, ir_active = False, ir_errored = False, ir_cache_key = None,
      ir_attrs = dset ''is_fallback'' is_fallback (filter (\<lambda>(k, _). k \<in> set (TLSAllowedKeys @ CertKeys)) kwargs)\<rparr>"

definition tls_init ::
  "string \<Rightarrow> string \<Rightarrow> string \<Rightarrow> string \<Rightarrow> string option \<Rightarrow> pyval \<Rightarrow> pyval \<Rightarrow> pyval pydict \<Rightarrow> ir \<Rightarrow> tstate res" where
  "tls_init kind rkey name location ns labels is_fallback kwargs i =
     rbind (tls_setup (new_context kind rkey name location ns labels is_fallback kwargs i, i))
       (\<lambda>(ok, c1, i1). Inr (set_active ok c1, i1))"

section \<open>The contexts of the IR\<close>

definition get_tls_context :: "ir \<Rightarrow> string \<Rightarrow> irres option" where
  "get_tls_context i name = dget (tls_contexts i) name"

definition live_context :: "ir \<Rightarrow> string \<Rightarrow> irres option" where
  "live_context i name = (case get_tls_context i name of Some c \<Rightarrow> if ir_bool c then Some c else None | None \<Rightarrow> None)"

definition has_tls_context :: "ir \<Rightarrow> string \<Rightarrow> bool" where
  "has_tls_context i name \<longleftrightarrow> live_context i name \<noteq> None"

definition save_tls_context :: "irres \<Rightarrow> ir \<Rightarrow> ir" where
  "save_tls_context ctx i =
     (let (dup, i1) = (case live_context i (ir_name ctx) of
            Some x \<Rightarrow> (True, ir_post_error (''Duplicate TLSContext '' @ ir_name ctx @ ''; keeping definition from '' @ ir_location x) NoResource i)
          | None \<Rightarrow> (False, i));
          rcf = rget ctx ''redirect_cleartext_from'';
          (clash, i2) =
            (if rcf = PNone then (False, i1)
             else if redirect_cleartext_from i1 = PNone then (False, i1\<lparr>redirect_cleartext_from := rcf\<rparr>)
             else if pv_eq (redirect_cleartext_from i1) rcf then (False, i1)
             else (True, ir_post_error (''TLSContext: '' @ ir_name ctx @ ''; configured conflicting redirect_from port: '' @ pv_fmt rcf) NoResource i1))
      in if dup \<or> clash then i2 else i2\<lparr>tls_contexts := dset (ir_name ctx) ctx (tls_contexts i2)\<rparr>)"

definition null_context :: "ir \<Rightarrow> tstate res" where
  "null_context i =
     (case live_context i ''no-cert-upstream'' of
        Some c \<Rightarrow> Inr (c, i)
      | None \<Rightarrow>
          rbind (tls_init ''null-TLS-context'' ''ir.no-cert-upstream'' ''no-cert-upstream'' ''ir.no-cert-upstream'' None PNone
                   (PBool False) [(''_ambassador_enabled'', PBool True)] i)
            (\<lambda>(c, i1). Inr (c, save_tls_context c i1)))"

definition load_context :: "ac \<Rightarrow> ir \<Rightarrow> ir res" where
  "load_context a i =
     rbind (tls_init (ac_kind a) (ac_rkey a) (ac_name a) (ac_location a) (ac_namespace a) (pget (ac_attrs a) ''metadata_labels'')
              (dget_or (ac_attrs a) ''is_fallback'' (PBool False)) (ac_attrs a) i)
       (\<lambda>(c, i1). Inr (if is_active c then save_tls_context c i1 else i1))"

definition load_contexts :: "ir \<Rightarrow> ir res" where
  "load_contexts i = rfold (\<lambda>(_, n) j. load_context (obj_at (ir_aconf j) n) j) (bucket (ir_aconf i) ''tls_contexts'') i"

section \<open>Resolving secrets\<close>

definition secret_name_parts :: "irres \<Rightarrow> ir \<Rightarrow> string \<Rightarrow> (string \<times> string) res" where
  "secret_name_parts c i name =
     rbind (lookup (ambassador_module i) c ''secret_namespacing'' (PBool True) None (Some ''tls_secret_namespacing'')) (\<lambda>ns.
       Inr (if CHR ''.'' \<in> set name \<and> truthy ns
            then (take (length name - Suc (length (after_last CHR ''.'' name))) name, after_last CHR ''.'' name)
            else (name, ir_namespace c)))"

definition ctx_resolve_secret ::
  "(string \<Rightarrow> string) \<Rightarrow> string \<Rightarrow> irres \<Rightarrow> pyval \<Rightarrow> ir \<Rightarrow> (saved_secret \<times> ir) res" where
  "ctx_resolve_secret sha1 cache_dir c secret_name i =
     rbind (pv_str secret_name) (\<lambda>name.
     rbind (secret_name_parts c i name) (\<lambda>(n, ns). resolve_secret sha1 cache_dir n ns i))"

definition si_get :: "irres \<Rightarrow> string \<Rightarrow> pyval" where
  "si_get c k = (case rget c ''secret_info'' of PDict d \<Rightarrow> pget d k | _ \<Rightarrow> PNone)"

definition si_update :: "(pyval pydict \<Rightarrow> pyval pydict) \<Rightarrow> irres \<Rightarrow> irres" where
  "si_update f c = tset ''secret_info'' (PDict (f (case rget c ''secret_info'' of PDict d \<Rightarrow> d | _ \<Rightarrow> []))) c"

definition opt_val :: "string option \<Rightarrow> pyval" where
  "opt_val v = (case v of None \<Rightarrow> PNone | Some s \<Rightarrow> PStr s)"

text \<open>
  A step of \<open>resolve\<close>: \<open>Some b\<close> if it returns \<open>b\<close>, else \<open>None\<close>; whether the secrets are still
  valid; and the state.
\<close>

type_synonym rstate = "bool option \<times> bool \<times> tstate"

definition resolve_cert :: "(string \<Rightarrow> string) \<Rightarrow> string \<Rightarrow> tstate \<Rightarrow> rstate res" where
  "resolve_cert sha1 cache_dir ci =
     (let (c, i) = ci; name = si_get c ''secret'' in
      if \<not> truthy name then Inr (None, True, ci)
      else rbind (ctx_resolve_secret sha1 cache_dir c name i) (\<lambda>(ss, i1).
        if \<not> ss_bool ss
        then let (c1, i2) = tls_error (''TLSContext '' @ ir_name c @ '' found no certificate in '' @ ss_name ss @ '', ignoring...'') (c, i1)
             in Inr (None, False, si_update (ddel ''secret'') c1, i2)
        else if \<not> given (key_path ss)
        then Inr (Some False, True, tls_error (''TLSContext '' @ ir_name c @ '' found no private key in '' @ ss_name ss) (c, i1))
        else let c1 = si_update (\<lambda>d. dset ''private_key_file'' (opt_val (key_path ss)) (dset ''cert_chain_file'' (opt_val (cert_path ss)) d)) c;
                 c2 = (if given (root_cert_path ss)
                       then si_update (dset ''cacert_chain_file'' (opt_val (root_cert_path ss))) c1 else c1)
             in Inr (None, True, c2, i1)))"

definition resolve_crl :: "(string \<Rightarrow> string) \<Rightarrow> string \<Rightarrow> bool \<Rightarrow> tstate \<Rightarrow> rstate res" where
  "resolve_crl sha1 cache_dir valid ci =
     (let (c, i) = ci; name = si_get c ''crl_secret'' in
      if \<not> truthy name then Inr (None, valid, ci)
      else rbind (ctx_resolve_secret sha1 cache_dir c name i) (\<lambda>(ss, i1).
        if \<not> ss_bool ss
        then Inr (None, False, tls_error (''TLSContext '' @ ir_name c @ '' found no certificate revocation list in '' @ ss_name ss) (c, i1))
        else Inr (None, valid, si_update (dset ''crl_file'' (opt_val (user_path ss))) c, i1)))"

definition cert_required_of :: "saved_secret \<Rightarrow> string option" where
  "cert_required_of ss =
     (case cert_data ss of None \<Rightarrow> None
      | Some d \<Rightarrow> (case dget d ''cert_required'' of Some (Some v) \<Rightarrow> Some v | _ \<Rightarrow> None))"

definition set_cert_required :: "saved_secret \<Rightarrow> irres \<Rightarrow> irres res" where
  "set_cert_required ss c =
     (case cert_required_of ss of
        None \<Rightarrow> Inr c
      | Some v \<Rightarrow> (case decode v of
            None \<Rightarrow> Inl (ValueError ''b64decode'')
          | Some t \<Rightarrow> Inr (tset ''cert_required'' (PBool (str_lower t = ''true'')) c)))"

definition resolve_ca :: "(string \<Rightarrow> string) \<Rightarrow> string \<Rightarrow> bool \<Rightarrow> tstate \<Rightarrow> rstate res" where
  "resolve_ca sha1 cache_dir valid ci =
     (let (c, i) = ci; name = si_get c ''ca_secret'';
          no_cert = Inr (Some False, valid, tls_error (''TLSContext '' @ ir_name c @
             '' cannot validate client certs without TLS termination'') ci)
      in if truthy name
         then if \<not> truthy (si_get c ''cert_chain_file'') then no_cert
              else rbind (ctx_resolve_secret sha1 cache_dir c name i) (\<lambda>(ss, i1).
                if \<not> ss_bool ss
                then Inr (None, False, tls_error (''TLSContext '' @ ir_name c @ '' found no validation certificate in '' @ ss_name ss) (c, i1))
                else rbind (set_cert_required ss (si_update (dset ''cacert_chain_file'' (opt_val (cert_path ss))) c))
                       (\<lambda>c1. Inr (None, valid, c1, i1)))
         else if truthy (si_get c ''cacert_chain_file'') \<and> \<not> truthy (si_get c ''cert_chain_file'') then no_cert
         else Inr (None, valid, ci))"

definition path_keys :: "string list" where
  "path_keys = [''cert_chain_file'', ''private_key_file'', ''cacert_chain_file'', ''crl_file'']"

definition check_path :: "(string \<Rightarrow> bool) \<Rightarrow> string \<Rightarrow> nat \<times> tstate \<Rightarrow> (nat \<times> tstate) res" where
  "check_path fc key st =
     (let (errs, c, i) = st; path = si_get c key in
      if truthy path
      then rbind (pv_str path) (\<lambda>p.
        if fc p then Inr st
        else Inr (errs + 1, tls_error (''TLSContext '' @ ir_name c @ '' found no '' @ key @ '' '' @ [CHR 39] @ p @ [CHR 39]) (c, i)))
      else if key \<notin> {''cacert_chain_file'', ''crl_file''} \<and> truthy (rget c ''hosts'')
      then Inr (errs + 1, tls_error (''TLSContext '' @ ir_name c @ '' is missing '' @ key) (c, i))
      else Inr st)"

text \<open>What follows the certificate: the revocation list, the validation certificate and the paths.\<close>

definition check_paths :: "(string \<Rightarrow> bool) \<Rightarrow> bool \<Rightarrow> bool option \<Rightarrow> bool \<Rightarrow> tstate \<Rightarrow> (bool \<times> tstate) res" where
  "check_paths fc is_valid returned valid ci =
     (case returned of
        Some b \<Rightarrow> Inr (b, ci)
      | None \<Rightarrow>
          if \<not> valid then Inr (is_valid, ci)
          else rbind (rfold (check_path fc) path_keys (0, ci)) (\<lambda>(errs, ci'). Inr (errs = 0, ci')))"

definition resolve_rest ::
  "(string \<Rightarrow> string) \<Rightarrow> string \<Rightarrow> (string \<Rightarrow> bool) \<Rightarrow> bool \<Rightarrow> bool option \<Rightarrow> bool \<Rightarrow> tstate \<Rightarrow> (bool \<times> tstate) res" where
  "resolve_rest sha1 cache_dir fc is_valid returned valid ci =
     (case returned of
        Some b \<Rightarrow> Inr (b, ci)
      | None \<Rightarrow>
          rbind (resolve_crl sha1 cache_dir valid ci) (\<lambda>(_, v2, ci2).
          rbind (resolve_ca sha1 cache_dir v2 ci2) (\<lambda>(r3, v3, ci3). check_paths fc is_valid r3 v3 ci3)))"

definition resolve_context ::
  "(string \<Rightarrow> string) \<Rightarrow> string \<Rightarrow> (string \<Rightarrow> bool) \<Rightarrow> tstate \<Rightarrow> (bool \<times> tstate) res" where
  "resolve_context sha1 cache_dir fc ci =
     (if truthy (rget (fst ci) ''_ambassador_enabled'') then Inr (True, ci)
      else
        let is_valid = truthy (rget (fst ci) ''redirect_cleartext_from'') \<or> truthy (rget (fst ci) ''alpn_protocols'');
            ci0 = (if truthy (rget (fst ci) ''secret_info'') then ci
                   else tls_error (''TLSContext '' @ ir_name (fst ci) @ '' has no certificate information at all?'') ci)
        in rbind (resolve_cert sha1 cache_dir ci0) (\<lambda>(r1, v1, ci1). resolve_rest sha1 cache_dir fc is_valid r1 v1 ci1))"

section \<open>The legacy TLS module\<close>

definition copy_given :: "(string \<times> string) list \<Rightarrow> pyval \<Rightarrow> pyval pydict \<Rightarrow> pyval pydict res" where
  "copy_given keys cert args =
     rfold (\<lambda>(k, to_key) a. rbind (pv_get cert k PNone) (\<lambda>v. Inr (if truthy v then dset to_key v a else a))) keys args"

definition legacy_validation :: "pyval \<Rightarrow> pyval pydict \<Rightarrow> pyval pydict res" where
  "legacy_validation ca args =
     (if \<not> truthy ca then Inr args
      else rbind (pv_get ca ''enabled'' (PBool True)) (\<lambda>enabled.
        if \<not> truthy enabled then Inr args
        else rbind (copy_given [(''secret'', ''ca_secret''), (''cacert_chain_file'', ''cacert_chain_file''), (''cert_required'', ''cert_required'')] ca args)
          (\<lambda>a. Inr (if dhas a ''ca_secret'' \<or> dhas a ''cacert_chain_file'' then a
                    else dset ''secret'' (PStr ''ambassador-cacert'') a))))"

definition legacy_args :: "pyval \<Rightarrow> bool \<Rightarrow> pyval \<Rightarrow> pyval pydict res" where
  "legacy_args cert terminates validation_ca =
     rbind (copy_given (map (\<lambda>k. (k, k)) [''secret'', ''cert_chain_file'', ''private_key_file'', ''alpn_protocols'', ''redirect_cleartext_from'']) cert [])
       (\<lambda>a. let a1 = (if dhas a ''secret'' \<or> dhas a ''cert_chain_file'' \<or> dhas a ''private_key_file'' then a
                      else dset ''secret'' (PStr ''ambassador-certs'') a)
             in if terminates then legacy_validation validation_ca (dset ''hosts'' (PList [PStr ''*'']) a1) else Inr a1)"

definition from_legacy :: "string \<Rightarrow> string \<Rightarrow> string \<Rightarrow> pyval \<Rightarrow> bool \<Rightarrow> pyval \<Rightarrow> ir \<Rightarrow> tstate res" where
  "from_legacy name rkey location cert terminates validation_ca i =
     rbind (legacy_args cert terminates validation_ca) (\<lambda>args.
       tls_init ''synthesized-TLS-context'' rkey name location None PNone (PBool False) (dset ''_legacy'' (PBool True) args) i)"

definition save_legacy :: "string \<Rightarrow> string \<Rightarrow> string \<Rightarrow> pyval \<Rightarrow> bool \<Rightarrow> pyval \<Rightarrow> ir \<Rightarrow> ir res" where
  "save_legacy name rkey location cert terminates validation_ca i =
     rbind (from_legacy name rkey location cert terminates validation_ca i) (\<lambda>(c, i1).
       Inr (if is_active c then save_tls_context c i1 else i1))"

text \<open>The translation of a TLS module with the given attributes.\<close>

definition translate_tls_module :: "string \<Rightarrow> string \<Rightarrow> pyval pydict \<Rightarrow> ir \<Rightarrow> ir res" where
  "translate_tls_module rkey location attrs i =
     (let server = pget attrs ''server''; client = pget attrs ''client'' in
      rbind (if truthy server
             then rbind (pv_get server ''enabled'' (PBool True)) (\<lambda>e.
               if truthy e then save_legacy ''server'' rkey location server True client i else Inr i)
             else Inr i) (\<lambda>i1.
        rfold (\<lambda>(n, cert) j. save_legacy n rkey location cert False PNone j)
          (filter (\<lambda>(n, _). \<not> startswith n ''_'' \<and> n \<notin> {''server'', ''client'', ''name'', ''namespace'', ''metadata_labels'',
             ''location'', ''kind'', ''enabled''}) attrs) i1))"

section \<open>Contexts that resolve\<close>

lemma tls_error_simps [simp]:
  "ir_attrs (fst (tls_error msg ci)) = ir_attrs (fst ci)" "ir_name (fst (tls_error msg ci)) = ir_name (fst ci)"
  by (cases ci; simp add: tls_error_def res_post_error_def)+

lemma rget_attrs: "ir_attrs c' = ir_attrs c \<Longrightarrow> rget c' k = rget c k"
  by (simp add: rget_def)

lemma si_get_attrs: "ir_attrs c' = ir_attrs c \<Longrightarrow> si_get c' k = si_get c k"
  by (simp add: si_get_def rget_def)

definition path_ok :: "(string \<Rightarrow> bool) \<Rightarrow> irres \<Rightarrow> string \<Rightarrow> bool" where
  "path_ok fc c key =
     (if truthy (si_get c key) then (case si_get c key of PStr p \<Rightarrow> fc p | _ \<Rightarrow> False)
      else key \<in> {''cacert_chain_file'', ''crl_file''} \<or> \<not> truthy (rget c ''hosts''))"

lemma path_ok_attrs: "ir_attrs c' = ir_attrs c \<Longrightarrow> path_ok fc c' = path_ok fc c"
  by (rule ext) (simp add: path_ok_def rget_attrs [of c' c] si_get_attrs [of c' c])

lemma check_path_result:
  assumes "check_path fc key (n, ci) = Inr (n', ci')"
  shows "ir_attrs (fst ci') = ir_attrs (fst ci)" "n \<le> n'" "n' = n \<longrightarrow> path_ok fc (fst ci) key"
  using assms
  by (auto simp: check_path_def path_ok_def Let_def rbind_eq_Inr pv_Inr split: if_splits prod.splits)

lemma check_paths_result:
  assumes "rfold (check_path fc) ks (n, ci) = Inr (n', ci')"
  shows "ir_attrs (fst ci') = ir_attrs (fst ci) \<and> n \<le> n' \<and> (n' = n \<longrightarrow> list_all (path_ok fc (fst ci)) ks)"
  using assms
proof (induction ks arbitrary: n ci)
  case (Cons k ks)
  then obtain n1 ci1 where 1: "check_path fc k (n, ci) = Inr (n1, ci1)" and 2: "rfold (check_path fc) ks (n1, ci1) = Inr (n', ci')"
    by (auto simp: rbind_eq_Inr)
  note c = check_path_result [OF 1]
  from Cons.IH [OF 2] c path_ok_attrs [OF c(1)] show ?case by auto
qed simp

lemma resolve_returns_False:
  "resolve_cert sha1 dir ci = Inr (r, v, ci') \<Longrightarrow> r = None \<or> r = Some False"
  "resolve_ca sha1 dir w ci = Inr (r, v, ci') \<Longrightarrow> r = None \<or> r = Some False"
proof -
  show "r = None \<or> r = Some False" if "resolve_cert sha1 dir ci = Inr (r, v, ci')"
    using that unfolding resolve_cert_def Let_def split_beta by (auto simp: rbind_eq_Inr split: if_splits)
  show "r = None \<or> r = Some False" if "resolve_ca sha1 dir w ci = Inr (r, v, ci')"
    using that unfolding resolve_ca_def Let_def split_beta by (auto simp: rbind_eq_Inr split: if_splits)
qed

lemma check_paths_True:
  assumes "check_paths fc False r v ci = Inr (True, ci')" and "r = None \<or> r = Some False"
  shows "list_all (path_ok fc (fst ci')) path_keys"
proof -
  have "r = None" using assms by (auto simp: check_paths_def)
  then have "(if \<not> v then Inr (False, ci)
      else rbind (rfold (check_path fc) path_keys (0, ci)) (\<lambda>(errs, ci'). Inr (errs = 0, ci'))) = Inr (True, ci')"
    using assms(1) unfolding check_paths_def by (simp only: option.case)
  then have "rbind (rfold (check_path fc) path_keys (0, ci)) (\<lambda>(errs, ci'). Inr (errs = 0, ci')) = Inr (True, ci')"
    by (cases v) (simp_all only: simp_thms if_True if_False sum.inject prod.inject)
  then have "rfold (check_path fc) path_keys (0, ci) = Inr (0, ci')"
    by (cases "rfold (check_path fc) path_keys (0, ci)") (simp_all add: split_beta prod_eq_iff)
  from check_paths_result [OF this] have a: "ir_attrs (fst ci') = ir_attrs (fst ci)"
    and l: "list_all (path_ok fc (fst ci)) path_keys" by blast+
  show ?thesis using l unfolding path_ok_attrs [OF a] .
qed

lemma resolve_rest_True:
  assumes "resolve_rest sha1 dir fc False r v ci = Inr (True, ci')" and "r = None \<or> r = Some False"
  shows "list_all (path_ok fc (fst ci')) path_keys"
proof -
  obtain v2 ci2 r3 v3 ci3 where ca: "resolve_ca sha1 dir v2 ci2 = Inr (r3, v3, ci3)"
      and c: "check_paths fc False r3 v3 ci3 = Inr (True, ci')"
    using assms by (auto simp: resolve_rest_def rbind_eq_Inr)
  show ?thesis using c resolve_returns_False(2) [OF ca] by (rule check_paths_True)
qed

lemma resolve_context_paths:
  assumes "resolve_context sha1 dir fc ci = Inr (True, ci')"
    and "\<not> truthy (rget (fst ci) ''_ambassador_enabled'')"
    and "\<not> truthy (rget (fst ci) ''redirect_cleartext_from'')" and "\<not> truthy (rget (fst ci) ''alpn_protocols'')"
  shows "list_all (path_ok fc (fst ci')) path_keys"
proof -
  define ci0 where "ci0 = (if truthy (rget (fst ci) ''secret_info'') then ci
     else tls_error (''TLSContext '' @ ir_name (fst ci) @ '' has no certificate information at all?'') ci)"
  obtain r v ci1 where c: "resolve_cert sha1 dir ci0 = Inr (r, v, ci1)"
      and r: "resolve_rest sha1 dir fc False r v ci1 = Inr (True, ci')"
    using assms unfolding resolve_context_def Let_def ci0_def [symmetric] by (auto simp: rbind_eq_Inr)
  show ?thesis using r resolve_returns_False(1) [OF c] by (rule resolve_rest_True)
qed

section \<open>The certificates of a context\<close>

lemma dget_filter_keys: "dget (filter (\<lambda>(k, _). P k) d) x = (if P x then dget d x else None)"
  by (induction d) auto

lemma dget_select: "dget (List.map_filter (\<lambda>k. map_option (\<lambda>v. (k, v)) (dget d k)) ks) x = (if x \<in> set ks then dget d x else None)"
proof (induction ks)
  case (Cons k ks)
  then show ?case by (cases "dget d k") (auto simp: List.map_filter_simps)
qed (simp add: List.map_filter_simps)

lemma si_get_moved: "k \<in> set CertKeys \<Longrightarrow> si_get (move_cert_keys c) k = rget c k"
  unfolding si_get_def move_cert_keys_def Let_def rget_def
  by (simp add: pget_def dget_or_def dget_select)

lemma check_cert_spec_attrs: "ir_attrs (fst (snd (check_cert_spec ci))) = ir_attrs (fst ci)"
  by (cases ci) (simp add: check_cert_spec_def Let_def)

lemma check_redirect_rget:
  assumes "check_redirect ci = Inr ci'" and "k \<noteq> ''redirect_cleartext_from''"
  shows "rget (fst ci') k = rget (fst ci) k"
proof -
  obtain c i where ci: "ci = (c, i)" by (cases ci)
  show ?thesis
  proof (cases "rget c ''redirect_cleartext_from'' = PNone")
    case True
    then show ?thesis using assms(1) by (simp add: ci check_redirect_def)
  next
    case False
    have t: "rget (tset ''redirect_cleartext_from'' v x) k = rget x k" for v x
      using assms(2) by (simp add: rget_def tset_def)
    show ?thesis
      using assms(1) False unfolding ci check_redirect_def Let_def split_beta
      by (auto simp: t rget_attrs [of "fst (tls_error msg (c, i))" c for msg] split: sum.splits py_error.splits)
  qed
qed

lemma tls_init_certs:
  assumes "tls_init kind rkey name location ns labels fb kwargs i = Inr (c, i')" and "is_active c" and "k \<in> set CertKeys"
  shows "si_get c k = pget kwargs k"
proof -
  define c0 where "c0 = new_context kind rkey name location ns labels fb kwargs i"
  have a: "ir_attrs c0 = dset ''is_fallback'' fb (filter (\<lambda>(k, _). k \<in> set (TLSAllowedKeys @ CertKeys)) kwargs)"
    by (simp add: c0_def new_context_def)
  obtain ok c1 where s: "tls_setup (c0, i) = Inr (ok, c1, i')" and c: "c = set_active ok c1"
    using assms(1) unfolding tls_init_def c0_def [symmetric] by (auto simp: rbind_eq_Inr)
  have ok: "ok" using assms(2) by (simp add: c set_active_def is_active_def)
  define ci1 where "ci1 = snd (if truthy (rget c0 ''_ambassador_enabled'') then (False, (c0, i)) else check_cert_spec (c0, i))"
  have a1: "ir_attrs (fst ci1) = ir_attrs c0" by (simp add: ci1_def check_cert_spec_attrs)
  obtain c2 where r: "check_redirect ci1 = Inr (c2, i')" and c1: "c1 = move_cert_keys c2"
    using s ok unfolding tls_setup_def Let_def by (auto simp: ci1_def rbind_eq_Inr split: if_splits prod.splits)
  have k: "k \<noteq> ''redirect_cleartext_from''" "k \<noteq> ''is_fallback''" using assms(3) by (auto simp: CertKeys_def)
  have "si_get c k = si_get c1 k" by (simp add: c set_active_def si_get_def rget_def)
  also have "\<dots> = rget c2 k" unfolding c1 by (rule si_get_moved [OF assms(3)])
  also have "\<dots> = rget c0 k" using check_redirect_rget [OF r k(1)] rget_attrs [OF a1] by simp
  also have "\<dots> = pget kwargs k" using k(2) assms(3) by (simp add: rget_def a pget_def dget_or_def dget_filter_keys)
  finally show ?thesis .
qed

lemma copy_given_dict:
  "copy_given keys (PDict d) args =
     Inr (fold (\<lambda>(k, t) a. if truthy (pget d k) then dset t (pget d k) a else a) keys args)"
  unfolding copy_given_def by (induction keys arbitrary: args) (auto simp: pget_def)

lemma legacy_args_default_ca:
  assumes "legacy_args (PDict server) True (PDict client) = Inr args"
    and "client \<noteq> []" and "truthy (dget_or client ''enabled'' (PBool True))"
    and "\<not> truthy (pget client ''secret'')" and "\<not> truthy (pget client ''cacert_chain_file'')"
  shows "pget args ''secret'' = PStr ''ambassador-cacert'' \<and> pget args ''ca_secret'' = PNone \<and> pget args ''cacert_chain_file'' = PNone"
proof -
  define a where "a = fold (\<lambda>(k, t) a. if truthy (pget server k) then dset t (pget server k) a else a)
    (map (\<lambda>k. (k, k)) [''secret'', ''cert_chain_file'', ''private_key_file'', ''alpn_protocols'', ''redirect_cleartext_from'']) []"
  define a1 where "a1 = dset ''hosts'' (PList [PStr ''*'']) (if dhas a ''secret'' \<or> dhas a ''cert_chain_file'' \<or> dhas a ''private_key_file''
    then a else dset ''secret'' (PStr ''ambassador-certs'') a)"
  have no: "dget a1 ''ca_secret'' = None" "dget a1 ''cacert_chain_file'' = None"
    by (simp_all add: a1_def a_def)
  have "legacy_validation (PDict client) a1 = Inr args"
    using assms(1) unfolding legacy_args_def copy_given_dict rbind.simps Let_def a_def [symmetric] a1_def by (simp only: if_True)
  then have "args = dset ''secret'' (PStr ''ambassador-cacert'')
      (if truthy (pget client ''cert_required'') then dset ''cert_required'' (pget client ''cert_required'') a1 else a1)"
    using assms(2-5) no by (auto simp: legacy_validation_def copy_given_dict dhas_def)
  then show ?thesis using no by (simp add: pget_def dget_or_def)
qed

section \<open>Properties\<close>

text \<open>
  C9: when a TLS context that is not the null context and has neither a redirect nor ALPN protocols
  resolves, every certificate, key and revocation list that its
  secret information names is a file that the file checker finds, and a context for hosts has a
  certificate and a key.
\<close>

theorem resolved_context_has_files:
  assumes "resolve_context sha1 dir fc (c, i) = Inr (True, c', i')"
    and "\<not> truthy (rget c ''_ambassador_enabled'')"
    and "\<not> truthy (rget c ''redirect_cleartext_from'')" and "\<not> truthy (rget c ''alpn_protocols'')"
  shows "(\<forall>k \<in> set path_keys. truthy (si_get c' k) \<longrightarrow> (\<exists>p. si_get c' k = PStr p \<and> fc p)) \<and>
    (truthy (rget c' ''hosts'') \<longrightarrow> truthy (si_get c' ''cert_chain_file'') \<and> truthy (si_get c' ''private_key_file''))"
proof -
  have l: "list_all (path_ok fc c') path_keys" using resolve_context_paths [OF assms(1)] assms(2-4) by simp
  have "\<exists>p. si_get c' k = PStr p \<and> fc p" if "k \<in> set path_keys" "truthy (si_get c' k)" for k
  proof -
    have "path_ok fc c' k" using l that(1) by (simp add: list_all_iff)
    with that(2) show ?thesis by (cases "si_get c' k") (auto simp: path_ok_def)
  qed
  moreover have "truthy (si_get c' ''cert_chain_file'') \<and> truthy (si_get c' ''private_key_file'')" if "truthy (rget c' ''hosts'')"
    using l that by (auto simp: path_keys_def path_ok_def split: if_splits)
  ultimately show ?thesis by blast
qed

definition demo_context :: irres where
  "demo_context = \<lparr>ir_rkey = ''c'', ir_location = ''l'', ir_kind = ''TLSContext'', ir_name = ''c'', ir_namespace = ''ns'',
     ir_labels = PNone, ir_active = True, ir_errored = False, ir_cache_key = None,
     ir_attrs = [(''hosts'', PList [PStr ''*'']), (''secret_info'', PDict [(''secret'', PStr ''s'')])]\<rparr>"

definition demo_secret_ir :: ir where
  "demo_secret_ir = demo_ir\<lparr>secret_infos := [(''s.ns'', demo_secret ''s'' ''ns'' ''p'')]\<rparr>"

theorem resolved_context_has_files_witness:
  "\<exists>c' i'. resolve_context id ''/c'' (\<lambda>p. p \<in> {''/c/ns/secrets-decoded/s/PK.crt'', ''/c/ns/secrets-decoded/s/PK.key''})
      (demo_context, demo_secret_ir) = Inr (True, c', i') \<and>
     truthy (si_get c' ''cert_chain_file'') \<and> truthy (si_get c' ''private_key_file'')"
proof -
  let ?fc = "\<lambda>p. p \<in> {''/c/ns/secrets-decoded/s/PK.crt'', ''/c/ns/secrets-decoded/s/PK.key''}"
  let ?r = "resolve_context id ''/c'' ?fc (demo_context, demo_secret_ir)"
  have "map_sum (\<lambda>_. ()) (\<lambda>(b, c, i). (b, truthy (rget c ''hosts''))) ?r = Inr (True, True)" by code_simp
  then obtain c' i' where r: "?r = Inr (True, c', i')" and h: "truthy (rget c' ''hosts'')" by (cases ?r) auto
  have "\<not> truthy (rget demo_context ''_ambassador_enabled'')" "\<not> truthy (rget demo_context ''redirect_cleartext_from'')"
    "\<not> truthy (rget demo_context ''alpn_protocols'')" by code_simp+
  from resolved_context_has_files [OF r this] h r show ?thesis by blast
qed

text \<open>
  C34: in a legacy TLS module, a client section that is enabled and names neither a secret nor a
  file for the validation certificate makes the server context present the validation certificate
  \<open>ambassador-cacert\<close> instead of its own, whatever secret the server section names, and validate
  nothing.
\<close>

theorem legacy_ca_replaces_certificate:
  assumes "from_legacy name rkey location (PDict server) True (PDict client) i = Inr (c, i')" and "is_active c"
    and "client \<noteq> []" and "truthy (dget_or client ''enabled'' (PBool True))"
    and "\<not> truthy (pget client ''secret'')" and "\<not> truthy (pget client ''cacert_chain_file'')"
  shows "si_get c ''secret'' = PStr ''ambassador-cacert'' \<and> si_get c ''ca_secret'' = PNone \<and> si_get c ''cacert_chain_file'' = PNone"
proof -
  obtain args where a: "legacy_args (PDict server) True (PDict client) = Inr args"
    and t: "tls_init ''synthesized-TLS-context'' rkey name location None PNone (PBool False) (dset ''_legacy'' (PBool True) args) i = Inr (c, i')"
    using assms(1) by (auto simp: from_legacy_def rbind_eq_Inr)
  have "si_get c k = pget args k" if "k \<in> set CertKeys" for k
    using tls_init_certs [OF t assms(2) that] that by (auto simp: CertKeys_def)
  then have "si_get c ''secret'' = pget args ''secret''" "si_get c ''ca_secret'' = pget args ''ca_secret''"
    "si_get c ''cacert_chain_file'' = pget args ''cacert_chain_file''" by (simp_all add: CertKeys_def)
  with legacy_args_default_ca [OF a assms(3-6)] show ?thesis by simp
qed

theorem legacy_ca_replaces_certificate_witness:
  "\<exists>c i'. from_legacy ''server'' ''r'' ''l'' (PDict [(''secret'', PStr ''mine'')]) True (PDict [(''cert_required'', PBool True)]) demo_ir = Inr (c, i') \<and>
     si_get c ''secret'' = PStr ''ambassador-cacert''"
proof -
  let ?r = "from_legacy ''server'' ''r'' ''l'' (PDict [(''secret'', PStr ''mine'')]) True (PDict [(''cert_required'', PBool True)]) demo_ir"
  have "map_sum (\<lambda>_. ()) (\<lambda>(c, i). is_active c) ?r = Inr True" by code_simp
  then obtain c i' where r: "?r = Inr (c, i')" and "is_active c" by (cases ?r) auto
  moreover have "truthy (dget_or [(''cert_required'', PBool True)] ''enabled'' (PBool True))" by code_simp
  moreover have "\<not> truthy (pget [(''cert_required'', PBool True)] ''secret'')"
    "\<not> truthy (pget [(''cert_required'', PBool True)] ''cacert_chain_file'')" by code_simp+
  ultimately show ?thesis using legacy_ca_replaces_certificate [OF r] by simp
qed

end
