(* ===== verification/HealthChecks.thy ===== *)
theory HealthChecks
  imports IRRes
begin

text \<open>
  Health checks of clusters, \<open>ir/irhealthchecks.py\<close>: the configuration of a Mapping is turned into
  the one that Envoy gets, check by check. A check that is not well-formed is reported and left
  out. \<open>None\<close> in the result of a part stands for a \<open>continue\<close> of the loop.
\<close>

definition hc_error :: "string \<Rightarrow> ir \<Rightarrow> ir" where
  "hc_error msg i = ir_post_error (''IRHealthChecks: '' @ msg) (Other ''ir.health_checks'') i"

definition header_to_add :: "string \<times> pyval \<Rightarrow> pyval res" where
  "header_to_add kv =
     (let (k, v) = kv;
          entry = (\<lambda>value app. PDict [(''header'', PDict [(''key'', PStr k), (''value'', value)]), (''append'', PBool app)])
      in case v of
           PDict d \<Rightarrow>
             (case dget d ''value'' of
                None \<Rightarrow> Inl (KeyError ''value'')
              | Some value \<Rightarrow> Inr (entry value (case dget d ''append'' of Some a \<Rightarrow> truthy a | None \<Rightarrow> True)))
         | _ \<Rightarrow> Inr (entry v True))"

fun headers_of :: "(string \<times> pyval) list \<Rightarrow> pyval list res" where
  "headers_of [] = Inr []"
| "headers_of (kv # kvs) = rbind (header_to_add kv) (\<lambda>h. rbind (headers_of kvs) (\<lambda>hs. Inr (h # hs)))"

definition generate_headers_to_add :: "pyval \<Rightarrow> pyval list res" where
  "generate_headers_to_add header_dict = rbind (pv_items header_dict) headers_of"

definition add_headers :: "pyval \<Rightarrow> pyval \<Rightarrow> pyval pydict \<times> ir \<Rightarrow> (pyval pydict \<times> ir) res" where
  "add_headers hc v st =
     (let (m, i) = st in
      if v = PNone then Inr st
      else let i1 = (if is_list v
                     then hc_error (''add_request_headers must be a dict of header:value pairs. Ignoring field for health-check: '' @ pv_fmt hc) i
                     else i)
           in rbind (generate_headers_to_add v) (\<lambda>hs.
                Inr (if hs = [] then m else dset ''request_headers_to_add'' (PList hs) m, i1)))"

definition remove_headers :: "pyval \<Rightarrow> pyval \<Rightarrow> pyval pydict \<times> ir \<Rightarrow> pyval pydict \<times> ir" where
  "remove_headers hc v st =
     (let (m, i) = st in
      if v = PNone then st
      else if is_list v then (dset ''request_headers_to_remove'' v m, i)
      else (m, hc_error (''remove_request_headers must be a list. Ignoring field for health-check: '' @ pv_fmt hc) i))"

definition status_range :: "pyval \<Rightarrow> pyval \<Rightarrow> pyval list \<times> ir \<Rightarrow> (pyval list \<times> ir) res" where
  "status_range hc r st =
     (let (acc, i) = st in
      rbind (rbind (pv_index r ''min'') py_int) (\<lambda>minCode.
      rbind (rbind (pv_index r ''max'') py_int) (\<lambda>max0.
        let maxCode = max0 + 1 in
        if minCode > maxCode
        then Inr (acc, hc_error (''expected_statuses: status range start value '' @ str_int minCode @ '' cannot be higher than the end '' @
               str_int maxCode @ '' for range. Ignoring expected status for health-check '' @ pv_fmt hc) i)
        else Inr (acc @ [PDict [(''start'', PInt minCode), (''end'', PInt maxCode)]], i))))"

definition expected_statuses :: "pyval \<Rightarrow> pyval \<Rightarrow> pyval pydict \<times> ir \<Rightarrow> (pyval pydict \<times> ir) res" where
  "expected_statuses hc v st =
     (let (m, i) = st in
      if v = PNone then Inr st
      else rbind (pv_iter v) (\<lambda>ranges.
           rbind (rfold (status_range hc) ranges ([], i)) (\<lambda>(valid, i1).
             Inr (if valid = [] then m else dset ''expected_statuses'' (PList valid) m, i1))))"

definition http_check :: "pyval \<Rightarrow> pyval \<Rightarrow> ir \<Rightarrow> (pyval pydict option \<times> ir) res" where
  "http_check hc http i =
     (case http of
        PNone \<Rightarrow> Inr (Some [], i)
      | PDict h \<Rightarrow>
          rbind (pv_index http ''path'') (\<lambda>path.
          rbind (add_headers hc (pget h ''add_request_headers'') ([(''path'', path)], i)) (\<lambda>st1.
          let (m2, i2) = remove_headers hc (pget h ''remove_request_headers'') st1;
              m3 = (if pget h ''hostname'' = PNone then m2 else dset ''host'' (pget h ''hostname'') m2)
          in rbind (expected_statuses hc (pget h ''expected_statuses'') (m3, i2)) (\<lambda>(m4, i4).
               Inr (Some [(''http_health_check'', PDict m4)], i4))))
      | _ \<Rightarrow> Inr (None, hc_error (''health_check.http: field must be an object, found '' @ pv_fmt http @ ''. Ignoring health-check '' @ pv_fmt hc) i))"

definition grpc_check :: "pyval \<Rightarrow> ir \<Rightarrow> (pyval pydict option \<times> ir) res" where
  "grpc_check grpc i =
     (case grpc of
        PNone \<Rightarrow> Inr (Some [], i)
      | PDict g \<Rightarrow>
          rbind (pv_index grpc ''upstream_name'') (\<lambda>upstream.
            let m = [(''service_name'', upstream)] in
            Inr (Some [(''grpc_health_check'', PDict (if pget g ''authority'' = PNone then m else dset ''authority'' (pget g ''authority'') m))], i))
      | _ \<Rightarrow> Inr (None, hc_error (''health_check.grpc: field must be an object, found '' @ pv_fmt grpc @ '', Ignoring...'') i))"

definition health_check :: "pyval \<Rightarrow> pyval list \<times> ir \<Rightarrow> (pyval list \<times> ir) res" where
  "health_check hc st =
     (let (acc, i) = st in
      rbind (pv_index hc ''health_check'') (\<lambda>cfg.
        case cfg of
          PDict d \<Rightarrow>
            rbind (pv_get hc ''timeout'' (PStr ''3s'')) (\<lambda>timeout.
            rbind (pv_get hc ''interval'' (PStr ''5s'')) (\<lambda>interval.
            rbind (pv_get hc ''healthy_threshold'' (PInt 1)) (\<lambda>healthy.
            rbind (pv_get hc ''unhealthy_threshold'' (PInt 2)) (\<lambda>unhealthy.
            rbind (http_check hc (pget d ''http'') i) (\<lambda>(h, i1).
              case h of None \<Rightarrow> Inr (acc, i1) | Some hm \<Rightarrow>
              rbind (grpc_check (pget d ''grpc'') i1) (\<lambda>(g, i2).
                case g of None \<Rightarrow> Inr (acc, i2) | Some gm \<Rightarrow>
                Inr (acc @ [PDict ([(''timeout'', timeout), (''interval'', interval), (''healthy_threshold'', healthy),
                       (''unhealthy_threshold'', unhealthy)] @ hm @ gm)], i2)))))))
        | _ \<Rightarrow> Inr (acc, hc_error (''health_check: field must be an object, found '' @ pv_fmt cfg @ ''. Ignoring health-check '' @ pv_fmt hc) i)))"

definition health_checks_config :: "pyval \<Rightarrow> ir \<Rightarrow> (pyval \<times> ir) res" where
  "health_checks_config config i =
     (if \<not> truthy config then Inr (PNone, i)
      else rbind (pv_iter config) (\<lambda>hcs.
           rbind (rfold health_check hcs ([], i)) (\<lambda>(mappers, i1).
             Inr (if mappers = []
                  then (PNone, hc_error (''no valid health check could be parsed for config: '' @ pv_fmt config) i1)
                  else (PList mappers, i1)))))"

section \<open>Well-formed checks\<close>

definition range_ok :: "pyval \<Rightarrow> bool" where
  "range_ok r = (case r of PDict [(_, PInt l), (_, PInt u)] \<Rightarrow> l \<le> u | _ \<Rightarrow> False)"

definition http_ok :: "pyval pydict \<Rightarrow> bool" where
  "http_ok h \<longleftrightarrow> dhas h ''path'' \<and>
     (case dget h ''expected_statuses'' of None \<Rightarrow> True | Some (PList rs) \<Rightarrow> rs \<noteq> [] \<and> list_all range_ok rs | Some _ \<Rightarrow> False)"

definition check_ok :: "pyval \<Rightarrow> bool" where
  "check_ok c =
     (case c of
        PDict d \<Rightarrow>
          list_all (dhas d) [''timeout'', ''interval'', ''healthy_threshold'', ''unhealthy_threshold''] \<and>
          (case dget d ''http_health_check'' of None \<Rightarrow> True | Some (PDict h) \<Rightarrow> http_ok h | Some _ \<Rightarrow> False) \<and>
          (case dget d ''grpc_health_check'' of None \<Rightarrow> True | Some (PDict g) \<Rightarrow> dhas g ''service_name'' | Some _ \<Rightarrow> False)
      | _ \<Rightarrow> False)"

lemma status_range_ok:
  assumes "status_range hc r (acc, i) = Inr (acc', i')" and "list_all range_ok acc"
  shows "list_all range_ok acc'"
proof -
  obtain l u where "acc' = acc \<or> acc' = acc @ [PDict [(''start'', PInt l), (''end'', PInt u)]] \<and> l \<le> u"
    using assms(1) by (auto simp: status_range_def Let_def rbind_eq_Inr split: if_splits)
  with assms(2) show ?thesis by (auto simp: range_ok_def)
qed

lemma status_ranges_ok:
  assumes "rfold (status_range hc) rs (acc, i) = Inr (acc', i')" and "list_all range_ok acc"
  shows "list_all range_ok acc'"
  using rfold_invariant [OF assms(1), of "\<lambda>st. list_all range_ok (fst st)"] assms(2) status_range_ok
  by (metis fst_conv prod.collapse)

lemma add_headers_keeps:
  assumes "add_headers hc v (m, i) = Inr (m', i')" and "k \<noteq> ''request_headers_to_add''"
  shows "dget m' k = dget m k"
  using assms by (auto simp: add_headers_def Let_def rbind_eq_Inr split: if_splits)

lemma remove_headers_keeps:
  "k \<noteq> ''request_headers_to_remove'' \<Longrightarrow> dget (fst (remove_headers hc v (m, i))) k = dget m k"
  by (auto simp: remove_headers_def)

lemma expected_statuses_ok:
  assumes "expected_statuses hc v (m, i) = Inr (m', i')" and "dhas m ''path''" and "dget m ''expected_statuses'' = None"
  shows "http_ok m'"
proof (cases "v = PNone")
  case True
  then show ?thesis using assms by (simp add: expected_statuses_def http_ok_def)
next
  case False
  then obtain rs valid i1 where "rfold (status_range hc) rs ([], i) = Inr (valid, i1)"
    and m: "m' = (if valid = [] then m else dset ''expected_statuses'' (PList valid) m)"
    using assms(1) by (auto simp: expected_statuses_def rbind_eq_Inr)
  then have "list_all range_ok valid" using status_ranges_ok by fastforce
  then show ?thesis using assms(2,3) m by (simp add: http_ok_def dhas_def)
qed

lemma http_check_ok:
  assumes "http_check hc http i = Inr (Some hm, i')"
  shows "hm = [] \<or> (\<exists>h. hm = [(''http_health_check'', PDict h)] \<and> http_ok h)"
proof (cases http)
  case (PDict h)
  then obtain path m1 i1 where add: "add_headers hc (pget h ''add_request_headers'') ([(''path'', path)], i) = Inr (m1, i1)"
    and rest: "(let (m2, i2) = remove_headers hc (pget h ''remove_request_headers'') (m1, i1);
              m3 = (if pget h ''hostname'' = PNone then m2 else dset ''host'' (pget h ''hostname'') m2)
          in rbind (expected_statuses hc (pget h ''expected_statuses'') (m3, i2)) (\<lambda>(m4, i4).
               Inr (Some [(''http_health_check'', PDict m4)], i4))) = Inr (Some hm, i')"
    using assms by (auto simp: http_check_def rbind_eq_Inr)
  obtain m2 i2 where r: "remove_headers hc (pget h ''remove_request_headers'') (m1, i1) = (m2, i2)" by fastforce
  define m3 where "m3 = (if pget h ''hostname'' = PNone then m2 else dset ''host'' (pget h ''hostname'') m2)"
  have m2: "dget m2 k = dget [(''path'', path)] k" if "k \<in> {''path'', ''expected_statuses''}" for k
    using add_headers_keeps [OF add, of k] remove_headers_keeps [of k hc "pget h ''remove_request_headers''" m1 i1] that r by auto
  have m3: "dhas m3 ''path''" "dget m3 ''expected_statuses'' = None"
    using m2 [of "''path''"] m2 [of "''expected_statuses''"] by (simp_all add: m3_def dhas_def)
  obtain m4 i4 where e: "expected_statuses hc (pget h ''expected_statuses'') (m3, i2) = Inr (m4, i4)"
    and "hm = [(''http_health_check'', PDict m4)]"
    using rest by (auto simp: r m3_def [symmetric] rbind_eq_Inr)
  then show ?thesis using expected_statuses_ok [OF e m3] by simp
qed (use assms in \<open>simp_all add: http_check_def\<close>)

lemma grpc_check_ok:
  assumes "grpc_check grpc i = Inr (Some gm, i')"
  shows "gm = [] \<or> (\<exists>g. gm = [(''grpc_health_check'', PDict g)] \<and> dhas g ''service_name'')"
  using assms by (auto simp: grpc_check_def rbind_eq_Inr dhas_def Let_def split: pyval.splits if_splits)

lemma health_check_ok:
  assumes "health_check hc (acc, i) = Inr (acc', i')" and "list_all check_ok acc"
  shows "list_all check_ok acc'"
proof -
  obtain cfg where cfg: "pv_index hc ''health_check'' = Inr cfg" using assms(1) by (auto simp: health_check_def rbind_eq_Inr)
  show ?thesis
  proof (cases cfg)
    case (PDict d)
    then obtain t n a b h i1 where
      g: "pv_get hc ''timeout'' (PStr ''3s'') = Inr t" "pv_get hc ''interval'' (PStr ''5s'') = Inr n"
         "pv_get hc ''healthy_threshold'' (PInt 1) = Inr a" "pv_get hc ''unhealthy_threshold'' (PInt 2) = Inr b"
      and h: "http_check hc (pget d ''http'') i = Inr (h, i1)"
      using assms(1) by (auto simp: health_check_def rbind_eq_Inr cfg)
    note step = assms(1) [unfolded health_check_def]
    show ?thesis
    proof (cases h)
      case None
      then show ?thesis using step assms(2) by (simp add: cfg PDict g h)
    next
      case (Some hm)
      then obtain gm i2 where gm: "grpc_check (pget d ''grpc'') i1 = Inr (gm, i2)"
        using step by (auto simp: cfg PDict g h rbind_eq_Inr)
      show ?thesis
      proof (cases gm)
        case None
        then show ?thesis using step assms(2) by (simp add: cfg PDict g h Some gm)
      next
        case (Some gd)
        have "acc' = acc @ [PDict ([(''timeout'', t), (''interval'', n), (''healthy_threshold'', a), (''unhealthy_threshold'', b)] @ hm @ gd)]"
          using step by (simp add: cfg PDict g h \<open>h = Some hm\<close> gm Some)
        moreover have "hm = [] \<or> (\<exists>h. hm = [(''http_health_check'', PDict h)] \<and> http_ok h)"
          using http_check_ok h \<open>h = Some hm\<close> by blast
        moreover have "gd = [] \<or> (\<exists>g. gd = [(''grpc_health_check'', PDict g)] \<and> dhas g ''service_name'')"
          using grpc_check_ok gm Some by blast
        ultimately show ?thesis using assms(2) by (auto simp: check_ok_def dhas_def)
      qed
    qed
  qed (use assms cfg in \<open>auto simp: health_check_def\<close>)
qed

lemma list_of_headers_raises:
  "is_list v \<Longrightarrow> \<exists>e. add_headers hc v st = Inl e"
  by (cases v) (auto simp: add_headers_def generate_headers_to_add_def Let_def split: prod.split)

lemma empty_range_accepted:
  "status_range hc (PDict [(''min'', PInt (n + 1)), (''max'', PInt n)]) (acc, i) =
     Inr (acc @ [PDict [(''start'', PInt (n + 1)), (''end'', PInt (n + 1))]], i)"
  by (simp add: status_range_def py_int_def Let_def)

text \<open>
  C24: whatever health checks a Mapping configures, what the cluster gets, unless it is nothing, is a
  list of at least one check, and every check in it has its timeout, its interval and both
  thresholds; an HTTP check has a path and, where statuses are expected, at least one range whose
  start does not exceed its end; a gRPC check has a service name.
\<close>

theorem health_checks_well_formed:
  assumes "health_checks_config config i = Inr (v, i')" and "v \<noteq> PNone"
  shows "\<exists>ms. v = PList ms \<and> ms \<noteq> [] \<and> list_all check_ok ms"
proof -
  obtain hcs mappers i1 where f: "rfold health_check hcs ([], i) = Inr (mappers, i1)" and "mappers \<noteq> []" "v = PList mappers"
    using assms by (auto simp: health_checks_config_def rbind_eq_Inr split: if_splits)
  moreover have "list_all check_ok mappers"
    using rfold_invariant [OF f, of "\<lambda>st. list_all check_ok (fst st)"] health_check_ok
    by (metis fst_conv list.pred_inject(1) prod.collapse)
  ultimately show ?thesis by blast
qed

definition demo_checks :: pyval where
  "demo_checks = PList
     [PDict [(''health_check'', PDict [(''http'', PDict [(''path'', PStr ''/up''),
        (''expected_statuses'', PList [PDict [(''min'', PInt 200), (''max'', PInt 204)], PDict [(''min'', PInt 500), (''max'', PInt 400)]])])])],
      PDict [(''health_check'', PDict [(''grpc'', PStr ''svc'')])]]"

theorem health_checks_well_formed_witness:
  "\<exists>ms i'. health_checks_config demo_checks demo_ir = Inr (PList ms, i') \<and> length ms = 1 \<and> list_all check_ok ms"
proof -
  let ?r = "health_checks_config demo_checks demo_ir"
  have "map_sum (\<lambda>_. ()) (\<lambda>(v, i). case v of PList ms \<Rightarrow> length ms = 1 | _ \<Rightarrow> False) ?r = Inr True" by code_simp
  then obtain ms i' where r: "?r = Inr (PList ms, i')" and n: "length ms = 1" by (cases ?r) (auto split: pyval.splits)
  with health_checks_well_formed [OF r] show ?thesis by simp
qed

end
