(* ===== verification/Cluster.thy ===== *)
theory Cluster
  imports HealthChecks Resolver Tls MapFactory
begin

text \<open>
  Clusters: \<open>ir/ircluster.py\<close>, the operations of \<open>ir/ir.py\<close> on the clusters of the IR, and the
  names the clusters get in the Envoy configuration (\<open>IR.__init__\<close>). The keyword arguments of the
  constructor are a dictionary; \<open>Config.enable_endpoints\<close> is the argument \<open>endpoints\<close>. The attribute
  \<open>tls_context\<close> refers to a context by its name, and \<open>health_checks\<close> holds the configuration that the
  health checks yield.

  The lemmas: the characters of cluster names; what the cluster of a plain service connects to; two
  services with the same cluster name share the first one's cluster; Envoy names are short and
  distinct.
\<close>

section \<open>Name and TLS origination\<close>

definition cluster_ctx :: "pyval \<Rightarrow> ir \<Rightarrow> (irres option \<times> string list \<times> ir) res" where
  "cluster_ctx ctx_name i =
     (if \<not> truthy ctx_name then Inr (None, [], i)
      else rbind (case ctx_name of
                    PBool _ \<Rightarrow> rbind (null_context i) (\<lambda>(c, i1). Inr (Some c, i1))
                  | PStr s \<Rightarrow> Inr (get_tls_context i s, i)
                  | PList _ \<Rightarrow> Inl (TypeError ''unhashable type'')
                  | PDict _ \<Rightarrow> Inl (TypeError ''unhashable type'')
                  | _ \<Rightarrow> Inr (None, i))
             (\<lambda>(c, i1).
               if c \<noteq> None \<and> ir_bool (the c) then Inr (c, [], i1)
               else Inr (None, [''Originate-TLS context '' @ pv_fmt ctx_name @ '' is not defined''], i1)))"

definition cluster_scheme :: "bool \<Rightarrow> irres option \<Rightarrow> pyval \<Rightarrow> string \<Rightarrow> string \<times> bool \<times> string list \<times> string list" where
  "cluster_scheme allow_scheme ctx ctx_name service =
     (if allow_scheme \<and> startswith (str_lower service) ''https://'' then (drop 8 service, True, [''otls''], [])
      else if allow_scheme \<and> startswith (str_lower service) ''http://''
      then let rest = drop 7 service in
           if ctx \<noteq> None
           then (rest, True, [''otls''],
                 [''Originate-TLS context '' @ pv_fmt ctx_name @ '' being used even though service '' @ rest @ '' lists HTTP''])
           else (rest, False, [], [])
      else case ctx of
             Some c \<Rightarrow> (service, True, [''otls'', ir_name c], [])
           | None \<Rightarrow> (service, False, [], []))"

definition cluster_unknown_scheme :: "bool \<Rightarrow> bool \<Rightarrow> string \<Rightarrow> string \<times> string list" where
  "cluster_unknown_scheme allow_scheme originate_tls service =
     (case find_sub ''://'' service of
        None \<Rightarrow> (service, [])
      | Some idx \<Rightarrow>
          (drop (idx + 3) service,
           [if allow_scheme
            then ''service '' @ service @ '' has unknown scheme '' @ take idx service @ '', assuming '' @
                 (if originate_tls then ''HTTPS'' else ''HTTP'')
            else ''ignoring scheme '' @ take idx service @ '' for service '' @ service @
                 '', since it is being used for a non-HTTP mapping'']))"

record address =
  a_hostname :: string
  a_port :: nat
  a_ignore :: bool
  a_errors :: "string list"

definition cluster_address :: "bool \<Rightarrow> string \<Rightarrow> address res" where
  "cluster_address originate_tls service =
     rbind (urlsplit (''random://'' @ service)) (\<lambda>p.
       let errs1 = (if u_path p \<noteq> [] \<or> u_query p \<noteq> [] \<or> u_fragment p \<noteq> []
                    then [''service '' @ service @ '' has extra URL components; ignoring everything but the host and port''] else []);
           (hostname, no_host, errs2) = (case url_hostname p of
               None \<Rightarrow> (''unknown'', True, [''service '' @ service @ '' has no hostname and will be ignored; please re-configure''])
             | Some h \<Rightarrow> (h, False, []));
           (port0, bad_port, errs3) = (case url_port p of
               Inl e \<Rightarrow> (0, True, [''found invalid port for service '' @ service @
                  ''. Please specify a valid port between 0 and 65535 - '' @ error_text e @ ''. Service '' @ service @
                  '' cluster will be ignored, please re-configure''])
             | Inr None \<Rightarrow> (0, False, [])
             | Inr (Some n) \<Rightarrow> (n, False, []))
       in Inr \<lparr>a_hostname = hostname, a_port = (if port0 = 0 then if originate_tls then 443 else 80 else port0),
               a_ignore = no_host \<or> bad_port, a_errors = errs1 @ errs2 @ errs3\<rparr>)"

definition breaker_field :: "string \<Rightarrow> pyval \<Rightarrow> pyval list \<times> string list \<times> nat \<Rightarrow> (pyval list \<times> string list \<times> nat) res" where
  "breaker_field service breaker st =
     (let (fields, errs, unknown) = st in
      rbind (pv_get breaker ''_name'' PNone) (\<lambda>name.
        Inr (if truthy name then (fields @ [name], errs, unknown)
             else (fields @ [PStr (''cbu'' @ str_nat unknown)],
                   errs @ [service @ '': unvalidated circuit breaker '' @ pv_fmt breaker @ ''!''], unknown + 1))))"

definition cluster_breakers :: "string \<Rightarrow> pyval \<Rightarrow> (pyval list \<times> string list) res" where
  "cluster_breakers service circuit_breakers =
     (if \<not> truthy circuit_breakers then Inr ([], [])
      else rbind (pv_iter circuit_breakers) (\<lambda>bs.
           rbind (rfold (breaker_field service) bs ([], [], 0)) (\<lambda>(fields, errs, _). Inr (fields, errs))))"

definition endpoints_required :: "pyval \<Rightarrow> bool res" where
  "endpoints_required load_balancer =
     (if \<not> truthy load_balancer then Inr False
      else rbind (pv_get load_balancer ''policy'' PNone) (\<lambda>lb_policy.
        Inr (lb_policy \<in> {PStr ''round_robin'', PStr ''least_request'', PStr ''ring_hash'', PStr ''maglev''})))"

fun join_fields :: "string \<Rightarrow> pyval list \<Rightarrow> string res" where
  "join_fields sep [] = Inr []"
| "join_fields sep [v] = pv_str v"
| "join_fields sep (v # w # vs) = rbind (pv_str v) (\<lambda>s. rbind (join_fields sep (w # vs)) (\<lambda>t. Inr (s @ sep @ t)))"

definition balancer_field :: "pyval \<Rightarrow> (string \<times> pyval) res" where
  "balancer_field lb =
     rbind (pv_get lb ''policy'' (PStr ''default'')) (\<lambda>lb_type.
     rbind (pv_lower lb_type) (\<lambda>low.
     rbind (pv_get lb ''header'' PNone) (\<lambda>hdr.
     rbind (case dget (case lb of PDict d \<Rightarrow> d | _ \<Rightarrow> []) ''cookie'' of
              None \<Rightarrow> Inr []
            | Some cookie \<Rightarrow> rbind (pv_index cookie ''name'') (\<lambda>n. Inr [PStr ''cookie'', n])) (\<lambda>cookie.
       let has = (\<lambda>k. dhas (case lb of PDict d \<Rightarrow> d | _ \<Rightarrow> []) k) in
       rbind (join_fields ''-'' ([PStr ''er'', PStr low] @ (if has ''header'' then [PStr ''hdr'', hdr] else []) @ cookie @
                (if has ''source_ip'' then [PStr ''srcip''] else []))) (\<lambda>field.
         Inr (field, lb_type))))))"

record balancing =
  b_balancer :: pyval
  b_type :: pyval
  b_endpoints :: bool
  b_fields :: "pyval list"
  b_errors :: "string list"

definition cluster_balancing :: "bool \<Rightarrow> string \<Rightarrow> pyval \<Rightarrow> pyval \<Rightarrow> ir \<Rightarrow> balancing res" where
  "cluster_balancing endpoints service load_balancer lb_type i =
     (case dget (ambassador_module i) ''load_balancer'' of
        None \<Rightarrow> Inl (AttributeError ''load_balancer'')
      | Some global \<Rightarrow>
          let lb = (if truthy load_balancer then load_balancer else global) in
          rbind (endpoints_required lb) (\<lambda>required.
            if \<not> required
            then Inr \<lparr>b_balancer = lb, b_type = lb_type, b_endpoints = False, b_fields = [], b_errors = []\<rparr>
            else if \<not> endpoints
            then Inr \<lparr>b_balancer = global, b_type = lb_type, b_endpoints = False, b_fields = [],
                      b_errors = [service @ '': endpoint routing is not enabled, falling back to '' @ pv_fmt global]\<rparr>
            else rbind (balancer_field lb) (\<lambda>(field, policy).
              Inr \<lparr>b_balancer = lb, b_type = policy, b_endpoints = True, b_fields = [PStr field], b_errors = []\<rparr>)))"

definition name_char :: "char \<Rightarrow> bool" where
  "name_char c \<longleftrightarrow> is_alpha c \<or> is_digit c \<or> c = CHR ''_''"

definition sanitize :: "string \<Rightarrow> string" where
  "sanitize s = map (\<lambda>c. if name_char c then c else CHR ''_'') s"

record cluster_plan =
  p_name :: string
  p_service :: string
  p_ctx :: "irres option"
  p_tls :: bool
  p_address :: address
  p_balancing :: balancing
  p_errors :: "string list"

definition plan_cluster :: "bool \<Rightarrow> string \<Rightarrow> string \<Rightarrow> pyval pydict \<Rightarrow> ir \<Rightarrow> (cluster_plan \<times> ir) res" where
  "plan_cluster endpoints ns service0 kw i =
     rbind (cluster_ctx (pget kw ''ctx_name'') i) (\<lambda>(ctx, errs1, i1).
       let allow_scheme = truthy (dget_or kw ''allow_scheme'' (PBool True));
           (service1, originate_tls, fields, errs2) = cluster_scheme allow_scheme ctx (pget kw ''ctx_name'') service0;
           (service, errs3) = cluster_unknown_scheme allow_scheme originate_tls service1;
           marker = pget kw ''marker'';
           host_rewrite = pget kw ''host_rewrite''
       in rbind (cluster_address originate_tls service) (\<lambda>a.
          rbind (cluster_breakers service (pget kw ''circuit_breakers'')) (\<lambda>(breakers, errs4).
          rbind (cluster_balancing endpoints service (pget kw ''load_balancer'') (dget_or kw ''lb_type'' (PStr ''round_robin'')) i1) (\<lambda>b.
          rbind (join_fields ''_''
                   ([PStr ''cluster''] @ (if truthy marker then [marker] else []) @ [PStr service0] @ map PStr fields @
                    (if originate_tls \<and> truthy host_rewrite then [PStr (''hr-'' @ pv_fmt host_rewrite)] else []) @
                    [PStr ns] @ breakers @ b_fields b)) (\<lambda>name.
            Inr (\<lparr>p_name = sanitize name, p_service = service, p_ctx = ctx, p_tls = originate_tls, p_address = a, p_balancing = b,
                  p_errors = errs1 @ errs2 @ errs3 @ a_errors a @ errs4 @ b_errors b\<rparr>, i1))))))"

section \<open>Construction\<close>

definition ip_setting :: "string \<Rightarrow> pyval pydict \<Rightarrow> ir \<Rightarrow> pyval res" where
  "ip_setting key kw i =
     (if pget kw key \<noteq> PNone then Inr (pget kw key)
      else case dget (ambassador_module i) key of None \<Rightarrow> Inl (AttributeError key) | Some v \<Rightarrow> Inr v)"

definition cluster_url :: "address \<Rightarrow> string" where
  "cluster_url a = ''tcp://'' @ a_hostname a @ '':'' @ str_nat (a_port a)"

definition base_args :: "cluster_plan \<Rightarrow> pyval pydict \<Rightarrow> pyval \<Rightarrow> pyval \<Rightarrow> pyval pydict" where
  "base_args p kw ipv4 ipv6 =
     [(''type'', dget_or kw ''dns_type'' (PStr ''strict_dns'')),
      (''lb_type'', b_type (p_balancing p)),
      (''urls'', PList [PStr (cluster_url (p_address p))]),
      (''load_balancer'', b_balancer (p_balancing p)),
      (''keepalive'', pget kw ''keepalive''),
      (''circuit_breakers'', pget kw ''circuit_breakers''),
      (''service'', PStr (p_service p)),
      (''enable_ipv4'', ipv4),
      (''enable_ipv6'', ipv6),
      (''enable_endpoints'', PBool (b_endpoints (p_balancing p))),
      (''connect_timeout_ms'', dget_or kw ''connect_timeout_ms'' (PInt 3000)),
      (''cluster_idle_timeout_ms'', pget kw ''cluster_idle_timeout_ms''),
      (''cluster_max_connection_lifetime_ms'', pget kw ''cluster_max_connection_lifetime_ms''),
      (''respect_dns_ttl'', dget_or kw ''respect_dns_ttl'' (PBool False)),
      (''health_checks'', pget kw ''health_checks''),
      (''stats_name'', if truthy (pget kw ''stats_name'') then pget kw ''stats_name'' else PStr (sanitize (p_service p)))] @
     (if truthy (pget kw ''grpc'') then [(''grpc'', PBool True)] else []) @
     (if truthy (pget kw ''host_rewrite'') then [(''host_rewrite'', pget kw ''host_rewrite'')] else [])"

definition tls_arg :: "cluster_plan \<Rightarrow> ir \<Rightarrow> (pyval pydict \<times> ir) res" where
  "tls_arg p i =
     (if \<not> p_tls p then Inr ([], i)
      else case p_ctx p of
             Some c \<Rightarrow> Inr ([(''tls_context'', PStr (ir_name c))], i)
           | None \<Rightarrow> rbind (null_context i) (\<lambda>(c, i1). Inr ([(''tls_context'', PStr (ir_name c))], i1)))"

definition new_cluster :: "string \<Rightarrow> string \<Rightarrow> string \<Rightarrow> pyval pydict \<Rightarrow> ir \<Rightarrow> irres" where
  "new_cluster rkey location name args i =
     \<lparr>ir_rkey = rkey, ir_location = location, ir_kind = ''IRCluster'', ir_name = name,
      ir_namespace = ambassador_namespace (ir_settings i), ir_labels = PNone, ir_active = False, ir_errored = False,
      ir_cache_key = Some (''Cluster-'' @ name), ir_attrs = args\<rparr>"

definition cluster_setup :: "pyval \<Rightarrow> string \<Rightarrow> address \<Rightarrow> irres \<Rightarrow> ir \<Rightarrow> (irres \<times> ir) res" where
  "cluster_setup resolver ns a c i =
     (if a_ignore a then Inr (c, i)
      else rbind (resolve_targets (ir_name c) (ir_rkey c) resolver (a_hostname a) ns (a_port a) i) (\<lambda>(targets, i1).
           rbind (health_checks_config (rget c ''health_checks'') i1) (\<lambda>(h, i2).
             Inr (set_active True
                    (tset ''health_checks'' h (tset ''targets'' (case targets of None \<Rightarrow> PNone | Some t \<Rightarrow> t) c)), i2))))"

definition cluster_init ::
  "bool \<Rightarrow> string \<Rightarrow> string \<Rightarrow> string \<Rightarrow> pyval pydict \<Rightarrow> ir \<Rightarrow> (irres \<times> ir) res" where
  "cluster_init endpoints ns location service kw i =
     rbind (plan_cluster endpoints ns service kw i) (\<lambda>(p, i1).
     rbind (ip_setting ''enable_ipv4'' kw i1) (\<lambda>ipv4.
     rbind (ip_setting ''enable_ipv6'' kw i1) (\<lambda>ipv6.
     rbind (tls_arg p i1) (\<lambda>(tls, i2).
       let rkey = (case dget kw ''rkey'' of Some (PStr k) \<Rightarrow> if k = ''-override-'' then p_name p else k | _ \<Rightarrow> p_name p)
       in rbind (cluster_setup (pget kw ''resolver'') ns (p_address p)
                   (new_cluster rkey location (p_name p) (base_args p kw ipv4 ipv6 @ tls) i2) i2) (\<lambda>(c, i3).
            Inr (c, fold (\<lambda>e. ir_post_error e (Other rkey)) (p_errors p) i3))))))"

section \<open>The clusters of the IR\<close>

definition merge_keys :: "string list" where
  "merge_keys = [''type'', ''lb_type'', ''host_rewrite'', ''tls_context'', ''originate_tls'', ''grpc'', ''connect_timeout_ms'',
     ''cluster_idle_timeout_ms'', ''cluster_max_connection_lifetime_ms'']"

definition list_val :: "pyval \<Rightarrow> pyval list" where
  "list_val v = (case v of PList xs \<Rightarrow> xs | _ \<Rightarrow> [])"

definition merge_targets :: "irres \<Rightarrow> irres \<Rightarrow> irres res" where
  "merge_targets c other =
     (case dget (ir_attrs other) ''targets'' of
        None \<Rightarrow> Inl (AttributeError ''targets'')
      | Some t \<Rightarrow>
          if \<not> truthy t then Inr c
          else case dget (ir_attrs c) ''targets'' of
                 None \<Rightarrow> Inl (AttributeError ''targets'')
               | Some PNone \<Rightarrow> Inr (tset ''targets'' t c)
               | Some own \<Rightarrow> Inr (tset ''targets'' (PList (list_val own @ list_val t)) c))"

definition merge :: "irres \<Rightarrow> irres \<Rightarrow> ir \<Rightarrow> (bool \<times> irres \<times> ir) res" where
  "merge c other i =
     (let mismatches = filter (\<lambda>k. \<not> pv_eq (rget c k) (rget other k)) merge_keys in
      if mismatches \<noteq> []
      then Inr (False, res_post_error (''cannot merge cluster '' @ ir_name other @ '': mismatched attributes '' @
             join_with '', '' mismatches) (c, i))
      else rbind (merge_targets (tset ''urls'' (PList (list_val (rget c ''urls'') @ list_val (rget other ''urls''))) c) other)
             (\<lambda>c1. Inr (True, c1, i)))"

definition has_cluster :: "ir \<Rightarrow> string \<Rightarrow> bool" where
  "has_cluster i name = dhas (clusters i) name"

definition get_cluster :: "ir \<Rightarrow> string \<Rightarrow> irres option" where
  "get_cluster i name = dget (clusters i) name"

definition store_cluster :: "irres \<Rightarrow> ir \<Rightarrow> ir" where
  "store_cluster c i = i\<lparr>clusters := dset (ir_name c) c (clusters i)\<rparr>"

definition add_cluster :: "irres \<Rightarrow> ir \<Rightarrow> irres \<times> ir" where
  "add_cluster c i =
     (case get_cluster i (ir_name c) of
        Some extant \<Rightarrow> (extant, i)
      | None \<Rightarrow> (c, store_cluster c i))"

definition merge_cluster :: "irres \<Rightarrow> ir \<Rightarrow> (bool \<times> ir) res" where
  "merge_cluster c i =
     (case get_cluster i (ir_name c) of
        Some extant \<Rightarrow>
          if ir_bool extant then rbind (merge extant c i) (\<lambda>(ok, e, i1). Inr (ok, store_cluster e i1))
          else Inr (True, snd (add_cluster c i))
      | None \<Rightarrow> Inr (True, snd (add_cluster c i)))"

definition add_grpc_service :: "string \<Rightarrow> irres \<Rightarrow> ir \<Rightarrow> irres \<times> ir" where
  "add_grpc_service name c i =
     (case dget (grpc_services i) name of
        Some extant \<Rightarrow> (extant, i)
      | None \<Rightarrow>
          let i1 = (if has_cluster i (ir_name c) then i else store_cluster c i)
          in (c, i1\<lparr>grpc_services := dset name c (grpc_services i1)\<rparr>))"

section \<open>Envoy names\<close>

definition short_name :: "(string \<Rightarrow> string) \<Rightarrow> string \<Rightarrow> string" where
  "short_name sha1 name = take 40 name @ ''-'' @ str_upper (take 16 (sha1 name))"

definition set_envoy_name :: "string \<Rightarrow> string \<Rightarrow> ir \<Rightarrow> ir" where
  "set_envoy_name name v i =
     (case dget (clusters i) name of
        None \<Rightarrow> i
      | Some c \<Rightarrow> i\<lparr>clusters := dset name (tset ''envoy_name'' (PStr v) c) (clusters i)\<rparr>)"

definition name_step :: "(string \<Rightarrow> string) \<Rightarrow> string \<Rightarrow> ir \<times> string list pydict \<Rightarrow> ir \<times> string list pydict" where
  "name_step sha1 name st =
     (let (i, collisions) = st in
      if length name > 60
      then let s = short_name sha1 name in (i, dset s (dget_or collisions s [] @ [name]) collisions)
      else (set_envoy_name name name i, collisions))"

definition mangle :: "string \<Rightarrow> nat \<times> string \<Rightarrow> ir \<Rightarrow> ir res" where
  "mangle short jn i =
     (let (j, name) = jn in
      case dget (clusters i) name of
        None \<Rightarrow> Inl (KeyError name)
      | Some c \<Rightarrow> rbind (res_cache_key c) (\<lambda>key.
          Inr (set_envoy_name name (short @ ''-'' @ str_nat j) (ir_invalidate (''V3-'' @ key) (ir_invalidate (''V2-'' @ key) i)))))"

definition mangle_all :: "string list pydict \<Rightarrow> string \<Rightarrow> ir \<Rightarrow> ir res" where
  "mangle_all collisions short i = rfold (mangle short) (List.enumerate 0 (sort (dget_or collisions short []))) i"

definition envoy_names :: "(string \<Rightarrow> string) \<Rightarrow> ir \<Rightarrow> ir res" where
  "envoy_names sha1 i =
     (let (i1, collisions) = fold (name_step sha1) (sort (map fst (clusters i))) (i, [])
      in rfold (mangle_all collisions) (sort (map fst collisions)) i1)"

section \<open>Names of clusters\<close>

lemma name_char_underscore [simp]: "name_char CHR ''_''" by (simp add: name_char_def)

lemma sanitize_chars [simp]: "list_all name_char (sanitize s)"
  by (auto simp: sanitize_def list_all_iff)

lemma sanitize_append [simp]: "sanitize (s @ t) = sanitize s @ sanitize t"
  by (simp add: sanitize_def)

lemma plan_name_chars: "plan_cluster endpoints ns service kw i = Inr (p, i') \<Longrightarrow> list_all name_char (p_name p)"
  by (auto simp: plan_cluster_def rbind_eq_Inr Let_def split_beta)

lemma cluster_setup_name:
  assumes "cluster_setup resolver ns a c i = Inr (c', i')"
  shows "ir_name c' = ir_name c" "ir_cache_key c' = ir_cache_key c"
  using assms by (auto simp: cluster_setup_def rbind_eq_Inr set_active_def tset_def split: if_splits)

lemma cluster_init_plan:
  assumes "cluster_init endpoints ns location service kw i = Inr (c, i')"
  shows "\<exists>p i1. plan_cluster endpoints ns service kw i = Inr (p, i1) \<and> ir_name c = p_name p \<and>
    ir_cache_key c = Some (''Cluster-'' @ p_name p)"
proof -
  obtain p i1 i2 i3 args rkey where "plan_cluster endpoints ns service kw i = Inr (p, i1)"
    and "cluster_setup (pget kw ''resolver'') ns (p_address p) (new_cluster rkey location (p_name p) args i2) i2 = Inr (c, i3)"
    using assms unfolding cluster_init_def Let_def by (auto simp: rbind_eq_Inr split_beta)
  then show ?thesis using cluster_setup_name by (fastforce simp: new_cluster_def)
qed

text \<open>Building a cluster leaves the clusters of the IR alone.\<close>

lemma hc_error_clusters [simp]: "clusters (hc_error msg i) = clusters i"
  by (simp add: hc_error_def)

lemma add_headers_clusters: "add_headers hc v st = Inr st' \<Longrightarrow> clusters (snd st') = clusters (snd st)"
  by (auto simp: add_headers_def Let_def split_beta rbind_eq_Inr split: if_splits)

lemma remove_headers_clusters [simp]: "clusters (snd (remove_headers hc v st)) = clusters (snd st)"
  by (simp add: remove_headers_def split_beta)

lemma status_range_clusters: "status_range hc r st = Inr st' \<Longrightarrow> clusters (snd st') = clusters (snd st)"
  by (auto simp: status_range_def Let_def split_beta rbind_eq_Inr split: if_splits)

lemma expected_statuses_clusters:
  assumes "expected_statuses hc v st = Inr st'"
  shows "clusters (snd st') = clusters (snd st)"
proof (cases "v = PNone")
  case True
  then show ?thesis using assms by (simp add: expected_statuses_def split_beta)
next
  case False
  then obtain rs valid i1 where f: "rfold (status_range hc) rs ([], snd st) = Inr (valid, i1)" and "snd st' = i1"
    using assms by (auto simp: expected_statuses_def rbind_eq_Inr split_beta)
  moreover have "clusters (snd (valid, i1)) = clusters (snd st)"
    by (rule rfold_invariant [OF f, of "\<lambda>u. clusters (snd u) = clusters (snd st)"]) (auto dest: status_range_clusters)
  ultimately show ?thesis by simp
qed

lemma http_check_clusters: "http_check hc http i = Inr r \<Longrightarrow> clusters (snd r) = clusters i"
  by (cases http) (auto simp: http_check_def rbind_eq_Inr Let_def split_beta dest!: add_headers_clusters expected_statuses_clusters)

lemma grpc_check_clusters: "grpc_check grpc i = Inr r \<Longrightarrow> clusters (snd r) = clusters i"
  by (cases grpc) (auto simp: grpc_check_def rbind_eq_Inr Let_def)

lemma health_check_clusters:
  assumes "health_check hc st = Inr st'"
  shows "clusters (snd st') = clusters (snd st)"
proof -
  obtain cfg where cfg: "pv_index hc ''health_check'' = Inr cfg" using assms by (auto simp: health_check_def rbind_eq_Inr split_beta)
  show ?thesis
    by (cases cfg)
      (use assms cfg in \<open>auto simp: health_check_def rbind_eq_Inr split_beta split: option.splits
         dest!: http_check_clusters grpc_check_clusters\<close>)
qed

lemma health_checks_clusters:
  assumes "health_checks_config config i = Inr (v, i')"
  shows "clusters i' = clusters i"
proof (cases "truthy config")
  case True
  then obtain hcs ms i1 where f: "rfold health_check hcs ([], i) = Inr (ms, i1)" and "clusters i' = clusters i1"
    using assms by (auto simp: health_checks_config_def rbind_eq_Inr split: if_splits)
  moreover have "clusters (snd (ms, i1)) = clusters i"
    by (rule rfold_invariant [OF f, of "\<lambda>u. clusters (snd u) = clusters i"]) (auto dest: health_check_clusters)
  ultimately show ?thesis by simp
qed (use assms in \<open>simp add: health_checks_config_def\<close>)

lemma resolve_targets_clusters:
  assumes "resolve_targets name rkey resolver hostname ns port i = Inr (t, i')"
  shows "clusters i' = clusters i"
proof -
  have e: "clusters (snd r) = clusters i" if "get_endpoints rs key p i = Inr r" for rs key p r
    using that by (auto simp: get_endpoints_def Let_def rbind_eq_Inr split: option.splits if_splits)
  have "clusters (snd u) = clusters i" if "resolve rs hostname ns port i = Inr u" for rs u
    using that e by (auto simp: resolve_def split_beta split: if_splits)
  then show ?thesis using assms by (fastforce simp: resolve_targets_def rbind_eq_Inr split: if_splits)
qed

lemma tls_setup_clusters: "tls_setup ci = Inr (ok, ci') \<Longrightarrow> clusters (snd ci') = clusters (snd ci)"
  by (auto simp: tls_setup_def check_cert_spec_def check_redirect_def tls_error_def res_post_error_def Let_def split_beta rbind_eq_Inr
      split: if_splits sum.splits py_error.splits)

lemma save_tls_context_clusters [simp]: "clusters (save_tls_context c i) = clusters i"
  by (simp add: save_tls_context_def Let_def split_beta split: option.split)

lemma null_context_clusters: "null_context i = Inr (c, i') \<Longrightarrow> clusters i' = clusters i"
  by (auto simp: null_context_def tls_init_def rbind_eq_Inr split: option.splits dest!: tls_setup_clusters)

lemma post_errors_clusters [simp]: "clusters (fold (\<lambda>e. ir_post_error e r) es i) = clusters i"
  by (induction es arbitrary: i) simp_all

lemma cluster_ctx_clusters: "cluster_ctx v i = Inr (ctx, errs, i') \<Longrightarrow> clusters i' = clusters i"
  by (cases v) (auto simp: cluster_ctx_def rbind_eq_Inr split: if_splits dest: null_context_clusters)

lemma plan_clusters: "plan_cluster endpoints ns service kw i = Inr (p, i') \<Longrightarrow> clusters i' = clusters i"
  by (auto simp: plan_cluster_def rbind_eq_Inr Let_def split_beta dest: cluster_ctx_clusters)

lemma cluster_setup_clusters: "cluster_setup resolver ns a c i = Inr (c', i') \<Longrightarrow> clusters i' = clusters i"
  by (auto simp: cluster_setup_def rbind_eq_Inr split: if_splits dest!: resolve_targets_clusters health_checks_clusters)

lemma tls_arg_clusters: "tls_arg p i = Inr (args, i') \<Longrightarrow> clusters i' = clusters i"
  by (auto simp: tls_arg_def rbind_eq_Inr split: if_splits option.splits dest: null_context_clusters)

lemma cluster_init_clusters:
  assumes "cluster_init endpoints ns location service kw i = Inr (c, i')"
  shows "clusters i' = clusters i"
proof -
  obtain p i1 tls i2 c0 i3 rkey where 1: "plan_cluster endpoints ns service kw i = Inr (p, i1)" and 2: "tls_arg p i1 = Inr (tls, i2)"
    and 3: "cluster_setup (pget kw ''resolver'') ns (p_address p) c0 i2 = Inr (c, i3)"
    and "i' = fold (\<lambda>e. ir_post_error e (Other rkey)) (p_errors p) i3"
    using assms unfolding cluster_init_def Let_def by (auto simp: rbind_eq_Inr split_beta)
  then show ?thesis using plan_clusters [OF 1] tls_arg_clusters [OF 2] cluster_setup_clusters [OF 3] by simp
qed

text \<open>The clusters of the IR have distinct names of the given characters, and a cache key.\<close>

definition clusters_ok :: "ir \<Rightarrow> bool" where
  "clusters_ok i \<longleftrightarrow> dwf (clusters i) \<and>
     (\<forall>n c. dget (clusters i) n = Some c \<longrightarrow> list_all name_char n \<and> ir_cache_key c \<noteq> None)"

lemma clusters_ok_dset:
  assumes "clusters_ok i" and "list_all name_char n" and "ir_cache_key c \<noteq> None"
  shows "clusters_ok (i\<lparr>clusters := dset n c (clusters i)\<rparr>)"
  using assms by (auto simp: clusters_ok_def)

lemma add_cluster_ok:
  assumes "cluster_init endpoints ns location service kw i = Inr (c, i')" and "clusters_ok i"
  shows "clusters_ok (snd (add_cluster c i'))" "length (clusters (snd (add_cluster c i'))) \<le> Suc (length (clusters i))"
proof -
  have c: "list_all name_char (ir_name c)" "ir_cache_key c \<noteq> None"
    using cluster_init_plan [OF assms(1)] plan_name_chars by auto
  have i: "clusters i' = clusters i" "clusters_ok i'" using cluster_init_clusters [OF assms(1)] assms(2) by (simp_all add: clusters_ok_def)
  show "clusters_ok (snd (add_cluster c i'))"
    using clusters_ok_dset [OF i(2) c] i(2) by (simp add: add_cluster_def store_cluster_def split: option.split)
  show "length (clusters (snd (add_cluster c i'))) \<le> Suc (length (clusters i))"
    using i(1) by (simp add: add_cluster_def store_cluster_def length_dset split: option.split)
qed

section \<open>Envoy names are short and distinct\<close>

definition envoy_name :: "ir \<Rightarrow> string \<Rightarrow> pyval" where
  "envoy_name i n = (case dget (clusters i) n of None \<Rightarrow> PNone | Some c \<Rightarrow> rget c ''envoy_name'')"

definition cluster_keys :: "ir \<Rightarrow> string \<Rightarrow> string option option" where
  "cluster_keys i n = map_option ir_cache_key (dget (clusters i) n)"

lemma ir_invalidate_clusters [simp]: "clusters (ir_invalidate k i) = clusters i"
  by (simp add: ir_invalidate_def)

lemma set_envoy_name_effect:
  shows set_envoy_name_keys [simp]: "cluster_keys (set_envoy_name n v i) = cluster_keys i"
    and set_envoy_name_name: "envoy_name (set_envoy_name n v i) m = (if m = n \<and> cluster_keys i n \<noteq> None then PStr v else envoy_name i m)"
  by (auto simp: set_envoy_name_def cluster_keys_def envoy_name_def tset_def rget_def pget_def dget_or_def fun_eq_iff split: option.split)

lemma name_step_cases:
  "60 < length n \<Longrightarrow> name_step sha1 n (i, coll) =
     (i, dset (short_name sha1 n) (dget_or coll (short_name sha1 n) [] @ [n]) coll)"
  "\<not> 60 < length n \<Longrightarrow> name_step sha1 n (i, coll) = (set_envoy_name n n i, coll)"
  by (simp_all add: name_step_def Let_def)

lemma name_fold:
  assumes "fold (name_step sha1) ns (i, coll) = (i', coll')" and "dwf coll" and "\<And>n. n \<in> set ns \<Longrightarrow> cluster_keys i n \<noteq> None"
  shows "cluster_keys i' = cluster_keys i \<and>
    (\<forall>n. envoy_name i' n = (if n \<in> set ns \<and> length n \<le> 60 then PStr n else envoy_name i n)) \<and>
    (\<forall>s. dget_or coll' s [] = dget_or coll s [] @ filter (\<lambda>n. 60 < length n \<and> short_name sha1 n = s) ns) \<and>
    fst ` set coll' = fst ` set coll \<union> short_name sha1 ` {n \<in> set ns. 60 < length n} \<and> dwf coll'"
  using assms
proof (induction ns arbitrary: i coll)
  case (Cons n ns)
  show ?case
  proof (cases "60 < length n")
    case True
    let ?c = "dset (short_name sha1 n) (dget_or coll (short_name sha1 n) [] @ [n]) coll"
    have "fold (name_step sha1) ns (i, ?c) = (i', coll')" using Cons.prems(1) True by (simp add: name_step_cases)
    from Cons.IH [OF this] Cons.prems(2,3) True show ?thesis
      by (auto simp: keys_dset dget_or_def)
  next
    case False
    have "fold (name_step sha1) ns (set_envoy_name n n i, coll) = (i', coll')"
      using Cons.prems(1) False by (simp add: name_step_cases)
    from Cons.IH [OF this] Cons.prems(2,3) False show ?thesis
      by (auto simp: set_envoy_name_name)
  qed
qed simp

lemma mangle_result:
  assumes "cluster_keys i n = Some (Some key)"
  shows "\<exists>i'. mangle s (j, n) i = Inr i' \<and> cluster_keys i' = cluster_keys i \<and>
    (\<forall>m. envoy_name i' m = (if m = n then PStr (s @ ''-'' @ str_nat j) else envoy_name i m))"
proof -
  obtain c where c: "dget (clusters i) n = Some c" "ir_cache_key c = Some key" using assms by (auto simp: cluster_keys_def)
  let ?i = "ir_invalidate (''V3-'' @ key) (ir_invalidate (''V2-'' @ key) i)"
  have "cluster_keys ?i = cluster_keys i" "envoy_name ?i = envoy_name i"
    by (simp_all add: cluster_keys_def envoy_name_def fun_eq_iff)
  then show ?thesis using assms by (simp add: mangle_def c res_cache_key_def set_envoy_name_name)
qed

lemma mangle_fold:
  assumes "distinct xs" and "\<And>n. n \<in> set xs \<Longrightarrow> \<exists>key. cluster_keys i n = Some (Some key)"
  shows "\<exists>i'. rfold (mangle s) (List.enumerate k xs) i = Inr i' \<and> cluster_keys i' = cluster_keys i \<and>
    (\<forall>n. n \<notin> set xs \<longrightarrow> envoy_name i' n = envoy_name i n) \<and>
    (\<forall>j < length xs. envoy_name i' (xs ! j) = PStr (s @ ''-'' @ str_nat (k + j)))"
  using assms
proof (induction xs arbitrary: i k)
  case (Cons n xs)
  obtain i1 where m: "mangle s (k, n) i = Inr i1" "cluster_keys i1 = cluster_keys i"
    "\<And>m. envoy_name i1 m = (if m = n then PStr (s @ ''-'' @ str_nat k) else envoy_name i m)"
    using mangle_result Cons.prems(2) by (metis list.set_intros(1))
  obtain i' where r: "rfold (mangle s) (List.enumerate (Suc k) xs) i1 = Inr i'" "cluster_keys i' = cluster_keys i1"
    "\<And>n. n \<notin> set xs \<Longrightarrow> envoy_name i' n = envoy_name i1 n"
    "\<And>j. j < length xs \<Longrightarrow> envoy_name i' (xs ! j) = PStr (s @ ''-'' @ str_nat (Suc k + j))"
    using Cons.IH [of i1 "Suc k"] Cons.prems m(2) by auto
  have "envoy_name i' ((n # xs) ! j) = PStr (s @ ''-'' @ str_nat (k + j))" if "j < length (n # xs)" for j
    using that r(3) [of n] r(4) [of "j - 1"] m(3) Cons.prems(1) by (cases j) auto
  then show ?case using m r by auto
qed simp

lemma mangle_all_fold:
  assumes "distinct ss" and "\<And>s. distinct (dget_or coll s [])"
    and "\<And>s t n. n \<in> set (dget_or coll s []) \<Longrightarrow> n \<in> set (dget_or coll t []) \<Longrightarrow> s = t"
    and "\<And>s n. n \<in> set (dget_or coll s []) \<Longrightarrow> \<exists>key. cluster_keys i n = Some (Some key)"
  shows "\<exists>i'. rfold (mangle_all coll) ss i = Inr i' \<and> cluster_keys i' = cluster_keys i \<and>
    (\<forall>n. (\<forall>s \<in> set ss. n \<notin> set (dget_or coll s [])) \<longrightarrow> envoy_name i' n = envoy_name i n) \<and>
    (\<forall>s \<in> set ss. \<forall>j < length (dget_or coll s []). envoy_name i' (sort (dget_or coll s []) ! j) = PStr (s @ ''-'' @ str_nat j))"
  using assms(1,4)
proof (induction ss arbitrary: i)
  case (Cons s ss)
  let ?xs = "sort (dget_or coll s [])"
  obtain i1 where m: "mangle_all coll s i = Inr i1" "cluster_keys i1 = cluster_keys i"
    "\<And>n. n \<notin> set ?xs \<Longrightarrow> envoy_name i1 n = envoy_name i n"
    "\<And>j. j < length ?xs \<Longrightarrow> envoy_name i1 (?xs ! j) = PStr (s @ ''-'' @ str_nat j)"
    using mangle_fold [of ?xs i s 0] assms(2) [of s] Cons.prems(2) [of _ s] unfolding mangle_all_def by auto
  obtain i' where r: "rfold (mangle_all coll) ss i1 = Inr i'" "cluster_keys i' = cluster_keys i1"
    "\<And>n. \<forall>s \<in> set ss. n \<notin> set (dget_or coll s []) \<Longrightarrow> envoy_name i' n = envoy_name i1 n"
    "\<And>s j. s \<in> set ss \<Longrightarrow> j < length (dget_or coll s []) \<Longrightarrow> envoy_name i' (sort (dget_or coll s []) ! j) = PStr (s @ ''-'' @ str_nat j)"
    using Cons.IH [of i1] Cons.prems m(2) by auto
  have "envoy_name i' (?xs ! j) = PStr (s @ ''-'' @ str_nat j)" if "j < length (dget_or coll s [])" for j
  proof -
    have "?xs ! j \<in> set (dget_or coll s [])" using that nth_mem [of j ?xs] by simp
    then have "\<forall>t \<in> set ss. ?xs ! j \<notin> set (dget_or coll t [])" using assms(3) Cons.prems(1) by fastforce
    then show ?thesis using r(3) m(4) that by simp
  qed
  then show ?case using m r by auto
qed simp

lemma short_name_length: "60 < length n \<Longrightarrow> 16 \<le> length (sha1 n) \<Longrightarrow> length (short_name sha1 n) = 57"
  by (simp add: short_name_def str_upper_def)

lemma short_name_dash: "CHR ''-'' \<in> set (short_name sha1 n @ t)"
  by (simp add: short_name_def)

lemma str_nat_two_digits: "j < 100 \<Longrightarrow> length (str_nat j) \<le> 2"
  by (subst str_nat.simps, subst str_nat.simps) auto

lemma mangled_inj:
  assumes "short_name sha1 n @ ''-'' @ str_nat j = short_name sha1 m @ ''-'' @ str_nat k"
    and "length (short_name sha1 n) = length (short_name sha1 m)"
  shows "short_name sha1 n = short_name sha1 m \<and> j = k"
proof -
  have "short_name sha1 n = short_name sha1 m" "str_nat j = str_nat k" using assms by simp_all
  then show ?thesis by (metis nat_of_str_nat)
qed

text \<open>The names that are shortened alike, in the order in which they are numbered.\<close>

definition collided :: "(string \<Rightarrow> string) \<Rightarrow> ir \<Rightarrow> string \<Rightarrow> string list" where
  "collided sha1 i s = sort (filter (\<lambda>n. 60 < length n \<and> short_name sha1 n = s) (sort (map fst (clusters i))))"

lemma set_collided: "n \<in> set (collided sha1 i s) \<longleftrightarrow> dhas (clusters i) n \<and> 60 < length n \<and> short_name sha1 n = s"
  by (auto simp: collided_def dhas_iff)

lemma length_collided: "length (collided sha1 i s) \<le> length (clusters i)"
  using length_filter_le [of "\<lambda>n. 60 < length n \<and> short_name sha1 n = s" "sort (map fst (clusters i))"]
  by (simp add: collided_def)

lemma cluster_key:
  assumes "clusters_ok i" and "dhas (clusters i) n"
  shows "\<exists>key. cluster_keys i n = Some (Some key)"
proof -
  obtain c where "dget (clusters i) n = Some c" using assms(2) by (rule dhasE)
  then show ?thesis using assms(1) by (auto simp: clusters_ok_def cluster_keys_def)
qed

lemma envoy_names_result:
  assumes "clusters_ok i"
  shows "\<exists>i'. envoy_names sha1 i = Inr i' \<and>
    (\<forall>n. dhas (clusters i) n \<longrightarrow> length n \<le> 60 \<longrightarrow> envoy_name i' n = PStr n) \<and>
    (\<forall>s. \<forall>j < length (collided sha1 i s). envoy_name i' (collided sha1 i s ! j) = PStr (s @ ''-'' @ str_nat j))"
proof -
  let ?ks = "sort (map fst (clusters i))"
  let ?long = "\<lambda>s. filter (\<lambda>n. 60 < length n \<and> short_name sha1 n = s) ?ks"
  have ks: "n \<in> set ?ks \<longleftrightarrow> dhas (clusters i) n" for n by (simp add: dhas_iff)
  obtain i1 coll where f: "fold (name_step sha1) ?ks (i, []) = (i1, coll)" by (cases "fold (name_step sha1) ?ks (i, [])")
  have k: "cluster_keys i n \<noteq> None" if "n \<in> set ?ks" for n using cluster_key [OF assms, of n] that ks by auto
  note nf = name_fold [OF f dwf_Nil k]
  have g1: "cluster_keys i1 = cluster_keys i" using nf by blast
  have g2: "envoy_name i1 n = PStr n" if "dhas (clusters i) n" "length n \<le> 60" for n using nf that ks by presburger
  have g3: "dget_or coll s [] = ?long s" for s using nf by (simp add: dget_or_def)
  have g4: "fst ` set coll = short_name sha1 ` {n \<in> set ?ks. 60 < length n}" using nf by simp
  have h1: "distinct (sort (map fst coll))" using nf by (simp add: dwf_def)
  have h2: "distinct (dget_or coll s [])" for s using assms by (simp add: g3 clusters_ok_def dwf_def)
  have h3: "s = t" if "n \<in> set (dget_or coll s [])" "n \<in> set (dget_or coll t [])" for s t n using that by (simp add: g3)
  have h4: "\<exists>key. cluster_keys i1 n = Some (Some key)" if "n \<in> set (dget_or coll s [])" for s n
    using that cluster_key [OF assms, of n] ks [of n] unfolding g1 g3 by simp
  have "\<exists>i'. rfold (mangle_all coll) (sort (map fst coll)) i1 = Inr i' \<and> cluster_keys i' = cluster_keys i1 \<and>
    (\<forall>n. (\<forall>s \<in> set (sort (map fst coll)). n \<notin> set (dget_or coll s [])) \<longrightarrow> envoy_name i' n = envoy_name i1 n) \<and>
    (\<forall>s \<in> set (sort (map fst coll)). \<forall>j < length (dget_or coll s []).
       envoy_name i' (sort (dget_or coll s []) ! j) = PStr (s @ ''-'' @ str_nat j))"
    by (rule mangle_all_fold [OF h1 h2]) (erule (1) h3, erule h4)
  then obtain i' where r: "rfold (mangle_all coll) (sort (map fst coll)) i1 = Inr i'"
    and r1: "\<And>n. \<forall>s \<in> set (sort (map fst coll)). n \<notin> set (dget_or coll s []) \<Longrightarrow> envoy_name i' n = envoy_name i1 n"
    and r2: "\<And>s j. s \<in> set (sort (map fst coll)) \<Longrightarrow> j < length (dget_or coll s []) \<Longrightarrow>
      envoy_name i' (sort (dget_or coll s []) ! j) = PStr (s @ ''-'' @ str_nat j)"
    by blast
  have "envoy_name i' (collided sha1 i s ! j) = PStr (s @ ''-'' @ str_nat j)" if j: "j < length (collided sha1 i s)" for s j
  proof -
    let ?n = "collided sha1 i s ! j"
    have n: "?n \<in> set ?ks" "60 < length ?n" "short_name sha1 ?n = s" using nth_mem [OF j] unfolding ks set_collided by auto
    have "short_name sha1 ?n \<in> fst ` set coll" unfolding g4 by (intro imageI CollectI conjI n)
    then have "s \<in> fst ` set coll" unfolding n(3) .
    then show ?thesis using r2 [of s j] j by (simp add: collided_def g3)
  qed
  moreover have "envoy_name i' n = PStr n" if "dhas (clusters i) n" "length n \<le> 60" for n
    using r1 [of n] g2 [OF that] that by (simp add: g3)
  moreover have "envoy_names sha1 i = Inr i'" using f r by (simp add: envoy_names_def)
  ultimately show ?thesis by blast
qed

text \<open>A name of its own, or one numbered among those that are shortened alike.\<close>

definition named_ok :: "(string \<Rightarrow> string) \<Rightarrow> ir \<Rightarrow> string \<Rightarrow> pyval \<Rightarrow> bool" where
  "named_ok sha1 i n v \<longleftrightarrow>
     (if length n \<le> 60 then v = PStr n
      else \<exists>j < length (collided sha1 i (short_name sha1 n)).
        collided sha1 i (short_name sha1 n) ! j = n \<and> v = PStr (short_name sha1 n @ ''-'' @ str_nat j))"

lemma envoy_names_named:
  assumes "clusters_ok i"
  shows "\<exists>i'. envoy_names sha1 i = Inr i' \<and> (\<forall>n. dhas (clusters i) n \<longrightarrow> named_ok sha1 i n (envoy_name i' n))"
proof -
  obtain i' where e: "envoy_names sha1 i = Inr i'"
    and v1: "\<And>n. dhas (clusters i) n \<Longrightarrow> length n \<le> 60 \<Longrightarrow> envoy_name i' n = PStr n"
    and v2: "\<And>s j. j < length (collided sha1 i s) \<Longrightarrow> envoy_name i' (collided sha1 i s ! j) = PStr (s @ ''-'' @ str_nat j)"
    using envoy_names_result [OF assms] by blast
  have "named_ok sha1 i n (envoy_name i' n)" if n: "dhas (clusters i) n" for n
  proof (cases "length n \<le> 60")
    case False
    then have "n \<in> set (collided sha1 i (short_name sha1 n))" using n by (simp add: set_collided)
    then obtain j where j: "j < length (collided sha1 i (short_name sha1 n))" "collided sha1 i (short_name sha1 n) ! j = n"
      by (auto simp: in_set_conv_nth)
    have "envoy_name i' n = PStr (short_name sha1 n @ ''-'' @ str_nat j)" using v2 [OF j(1)] by (simp only: j(2))
    then show ?thesis using j False by (auto simp: named_ok_def)
  qed (use v1 n in \<open>simp add: named_ok_def\<close>)
  then show ?thesis using e by blast
qed

lemma named_ok_length:
  assumes "named_ok sha1 i n v" and "length (clusters i) \<le> 100" and "16 \<le> length (sha1 n)"
  shows "\<exists>e. v = PStr e \<and> length e \<le> 60"
proof (cases "length n \<le> 60")
  case False
  then obtain j where "j < length (collided sha1 i (short_name sha1 n))" and v: "v = PStr (short_name sha1 n @ ''-'' @ str_nat j)"
    using assms(1) by (auto simp: named_ok_def)
  then have "j < 100" using length_collided [of sha1 i "short_name sha1 n"] assms(2) by simp
  then show ?thesis using v short_name_length [of n sha1] assms(3) False str_nat_two_digits [of j] by simp
qed (use assms(1) in \<open>simp add: named_ok_def\<close>)

lemma no_dash:
  assumes "clusters_ok i" and "dhas (clusters i) n"
  shows "CHR ''-'' \<notin> set n"
proof -
  obtain c where "dget (clusters i) n = Some c" using assms(2) by (rule dhasE)
  then have "list_all name_char n" using assms(1) by (auto simp: clusters_ok_def)
  moreover have "\<not> name_char CHR ''-''" by code_simp
  ultimately show ?thesis by (auto simp: list_all_iff)
qed

lemma named_ok_inj:
  assumes "named_ok sha1 i n v" and "named_ok sha1 i m v" and "clusters_ok i" and "dhas (clusters i) n" "dhas (clusters i) m"
    and "\<forall>s. 16 \<le> length (sha1 s)"
  shows "n = m"
proof -
  have dash: "CHR ''-'' \<notin> set n" "CHR ''-'' \<notin> set m" using no_dash assms by blast+
  consider "length n \<le> 60" "length m \<le> 60" | "length n \<le> 60" "60 < length m" | "60 < length n" "length m \<le> 60" | "60 < length n" "60 < length m"
    by linarith
  then show ?thesis
  proof cases
    case 4
    then obtain j k where j: "collided sha1 i (short_name sha1 n) ! j = n" "v = PStr (short_name sha1 n @ ''-'' @ str_nat j)"
      and k: "collided sha1 i (short_name sha1 m) ! k = m" "v = PStr (short_name sha1 m @ ''-'' @ str_nat k)"
      using assms(1,2) by (auto simp: named_ok_def)
    have eq: "short_name sha1 n @ ''-'' @ str_nat j = short_name sha1 m @ ''-'' @ str_nat k" using j(2) k(2) by simp
    have "length (short_name sha1 n) = length (short_name sha1 m)" using short_name_length 4 assms(6) by simp
    with mangled_inj [OF eq] have e: "short_name sha1 n = short_name sha1 m" "j = k" by blast+
    have "n = collided sha1 i (short_name sha1 n) ! j" by (rule j(1) [symmetric])
    also have "\<dots> = collided sha1 i (short_name sha1 m) ! k" by (simp only: e)
    also have "\<dots> = m" by (rule k(1))
    finally show ?thesis .
  next
    case 2
    then obtain k where "n = short_name sha1 m @ ''-'' @ str_nat k" using assms(1,2) by (auto simp: named_ok_def)
    then show ?thesis using dash(1) by simp
  next
    case 3
    then obtain k where "m = short_name sha1 n @ ''-'' @ str_nat k" using assms(1,2) by (auto simp: named_ok_def)
    then show ?thesis using dash(2) by simp
  qed (use assms(1,2) in \<open>simp add: named_ok_def\<close>)
qed

definition build_cluster :: "bool \<Rightarrow> string \<times> string \<times> string \<times> pyval pydict \<Rightarrow> ir \<Rightarrow> ir res" where
  "build_cluster endpoints spec i =
     (let (ns, location, service, kw) = spec in
      rbind (cluster_init endpoints ns location service kw i) (\<lambda>(c, i1). Inr (snd (add_cluster c i1))))"

lemma build_clusters_ok:
  assumes "rfold (build_cluster endpoints) specs i = Inr i'" and "clusters_ok i"
  shows "clusters_ok i' \<and> length (clusters i') \<le> length (clusters i) + length specs"
  using assms
proof (induction specs arbitrary: i)
  case (Cons spec specs)
  obtain ns location service kw where s: "spec = (ns, location, service, kw)" by (cases spec)
  have b: "build_cluster endpoints (ns, location, service, kw) i =
      rbind (cluster_init endpoints ns location service kw i) (\<lambda>(c, i1). Inr (snd (add_cluster c i1)))"
    by (simp add: build_cluster_def)
  obtain c i1 where c: "cluster_init endpoints ns location service kw i = Inr (c, i1)"
    and r: "rfold (build_cluster endpoints) specs (snd (add_cluster c i1)) = Inr i'"
    using Cons.prems(1) by (auto simp: s b rbind_eq_Inr)
  show ?case using Cons.IH [OF r] add_cluster_ok [OF c Cons.prems(2)] by simp
qed simp

text \<open>
  C6: after any sequence of at most a hundred clusters has been built and added, every cluster gets
  an Envoy name of at most 60 characters, and no two clusters get the same one, even where the
  digests of long names collide. The digest only has to have the 16 characters that are used.
\<close>

theorem envoy_names_unique:
  assumes "rfold (build_cluster endpoints) specs i0 = Inr i" and "clusters i0 = []" and "length specs \<le> 100"
    and "\<forall>s. 16 \<le> length (sha1 s)"
  shows "\<exists>i'. envoy_names sha1 i = Inr i' \<and>
    (\<forall>n \<in> {n. dhas (clusters i) n}. \<exists>e. envoy_name i' n = PStr e \<and> length e \<le> 60) \<and>
    inj_on (envoy_name i') {n. dhas (clusters i) n}"
proof -
  have "clusters_ok i0" using assms(2) by (simp add: clusters_ok_def)
  from build_clusters_ok [OF assms(1) this] have ok: "clusters_ok i" and n: "length (clusters i) \<le> 100" using assms(2,3) by simp_all
  obtain i' where e: "envoy_names sha1 i = Inr i'"
    and v: "\<And>n. dhas (clusters i) n \<Longrightarrow> named_ok sha1 i n (envoy_name i' n)"
    using envoy_names_named [OF ok] by blast
  have "\<exists>e. envoy_name i' m = PStr e \<and> length e \<le> 60" if "dhas (clusters i) m" for m
    using named_ok_length [OF v [OF that] n] assms(4) by blast
  moreover have "m = k" if "dhas (clusters i) m" "dhas (clusters i) k" "envoy_name i' m = envoy_name i' k" for m k
    using named_ok_inj [OF v [OF that(1)]] v [OF that(2)] that ok assms(4) by metis
  ultimately show ?thesis using e by (auto intro!: inj_onI)
qed

definition demo_cluster_ir :: ir where
  "demo_cluster_ir = load_resolvers []
     (demo_ir\<lparr>ambassador_module := [(''load_balancer'', PNone), (''enable_ipv4'', PBool True), (''enable_ipv6'', PBool False)]\<rparr>)"

definition demo_specs :: "(string \<times> string \<times> string \<times> pyval pydict) list" where
  "demo_specs = map (\<lambda>s. (''ns'', ''l'', s, [(''marker'', PStr (replicate 60 CHR ''m''))])) [''one'', ''two''] @ [(''ns'', ''l'', ''three'', [])]"

theorem envoy_names_unique_witness:
  "\<exists>i i'. rfold (build_cluster False) demo_specs demo_cluster_ir = Inr i \<and> length (clusters i) = 3 \<and>
     envoy_names (\<lambda>_. replicate 40 CHR ''0'') i = Inr i' \<and> inj_on (envoy_name i') {n. dhas (clusters i) n}"
proof -
  have "map_sum (\<lambda>_. ()) (\<lambda>i. length (clusters i)) (rfold (build_cluster False) demo_specs demo_cluster_ir) = Inr 3" by code_simp
  then obtain i where i: "rfold (build_cluster False) demo_specs demo_cluster_ir = Inr i" "length (clusters i) = 3"
    by (cases "rfold (build_cluster False) demo_specs demo_cluster_ir") auto
  have c: "clusters demo_cluster_ir = []" "length demo_specs \<le> 100" by code_simp+
  have h: "\<forall>s::string. 16 \<le> length ((\<lambda>_. replicate 40 CHR ''0'') s)" by simp
  from envoy_names_unique [OF i(1) c h] i show ?thesis by blast
qed

section \<open>Services with plain host names\<close>

lemma plain_lower: "list_all authority_char s \<Longrightarrow> str_lower s = s"
  by (auto simp: str_lower_def list_all_iff authority_char_def char_lower_def intro!: map_idI dest: plain_char_other(2))

lemma no_slash_find: "CHR ''/'' \<notin> set s \<Longrightarrow> find_sub ''://'' s = None"
  by (induction s) (auto simp: startswith_def dest: set_mono_prefix)

definition default_port :: "nat option \<Rightarrow> nat" where
  "default_port port = (case port of None \<Rightarrow> 80 | Some p \<Rightarrow> if p = 0 then 80 else p)"

lemma plain_address:
  assumes "plain_host h" and "good_port port"
  shows "cluster_address False (h @ port_text port) =
    Inr \<lparr>a_hostname = h, a_port = default_port port, a_ignore = False, a_errors = []\<rparr>"
proof -
  have u: "urlsplit (''random://'' @ h @ port_text port) =
      Inr \<lparr>u_scheme = ''random'', u_netloc = h @ port_text port, u_path = [], u_query = [], u_fragment = []\<rparr>"
    using urlsplit_plain [of "''random''" "h @ port_text port"] authority_text [OF assms(1)]
    by (simp add: with_scheme_def plain_scheme_def scheme_char_def is_alpha_def)
  have "p \<le> 65535" if "port = Some p" for p using that assms(2) by (simp add: good_port_def)
  note pp = parse_plain [OF assms(1) this refl]
  show ?thesis unfolding cluster_address_def u by (cases port) (simp_all add: pp default_port_def)
qed

lemma plain_plan:
  assumes "plain_host h" and "good_port port" and "dget (ambassador_module i) ''load_balancer'' = Some PNone"
  shows "\<exists>p. plan_cluster endpoints ns (h @ port_text port) [] i = Inr (p, i) \<and>
    p_name p = sanitize (''cluster_'' @ (h @ port_text port) @ ''_'' @ ns) \<and>
    p_address p = \<lparr>a_hostname = h, a_port = default_port port, a_ignore = False, a_errors = []\<rparr>"
proof -
  let ?s = "h @ port_text port"
  have slash: "CHR ''/'' \<notin> set ?s" by (rule authority_no_slash [OF assms(1)])
  have "\<not> startswith (str_lower ?s) ''https://''" "\<not> startswith (str_lower ?s) ''http://''"
    using slash startswith_set [of ?s] plain_lower [OF authority_text [OF assms(1)]] by fastforce+
  then have "cluster_scheme True None PNone ?s = (?s, False, [], [])" by (simp add: cluster_scheme_def)
  moreover have "cluster_unknown_scheme True False ?s = (?s, [])"
    using no_slash_find [OF slash] by (simp add: cluster_unknown_scheme_def)
  ultimately show ?thesis
    by (simp add: plan_cluster_def cluster_ctx_def pget_def dget_or_def plain_address [OF assms(1,2)] cluster_breakers_def
        cluster_balancing_def assms(3) endpoints_required_def)
qed

lemma plain_init:
  assumes "cluster_init endpoints ns location (h @ port_text port) [] i = Inr (c, i')"
    and "plain_host h" and "good_port port" and "dget (ambassador_module i) ''load_balancer'' = Some PNone"
  shows "ir_name c = sanitize (''cluster_'' @ (h @ port_text port) @ ''_'' @ ns)"
    and "rget c ''urls'' = PList [PStr (''tcp://'' @ h @ '':'' @ str_nat (default_port port))]" and "ir_active c"
proof -
  obtain p where p: "plan_cluster endpoints ns (h @ port_text port) [] i = Inr (p, i)"
    "p_name p = sanitize (''cluster_'' @ (h @ port_text port) @ ''_'' @ ns)"
    "p_address p = \<lparr>a_hostname = h, a_port = default_port port, a_ignore = False, a_errors = []\<rparr>"
    using plain_plan [OF assms(2-4)] by blast
  then show "ir_name c = sanitize (''cluster_'' @ (h @ port_text port) @ ''_'' @ ns)"
    using cluster_init_plan [OF assms(1)] by auto
  obtain ipv4 ipv6 tls rkey i2 i3 where
    set: "cluster_setup PNone ns (p_address p) (new_cluster rkey location (p_name p) (base_args p [] ipv4 ipv6 @ tls) i2) i2 = Inr (c, i3)"
    using assms(1) unfolding cluster_init_def Let_def p(1) by (auto simp: rbind_eq_Inr split_beta pget_def dget_or_def)
  obtain t v where c: "c = set_active True (tset ''health_checks'' v (tset ''targets'' t
      (new_cluster rkey location (p_name p) (base_args p [] ipv4 ipv6 @ tls) i2)))"
    using set by (auto simp: cluster_setup_def p(3) rbind_eq_Inr)
  show "ir_active c" by (simp add: c set_active_def)
  have "dget (base_args p [] ipv4 ipv6 @ tls) ''urls'' = Some (PList [PStr (cluster_url (p_address p))])"
    by (simp add: base_args_def)
  then show "rget c ''urls'' = PList [PStr (''tcp://'' @ h @ '':'' @ str_nat (default_port port))]"
    by (simp add: c set_active_def tset_def new_cluster_def rget_def pget_def dget_or_def cluster_url_def p(3))
qed

text \<open>
  C33: two services that differ in punctuation only, such as \<open>foo-bar\<close> and \<open>foo.bar\<close>, or a host with
  a port and a host whose name ends in the same number, get clusters of one name. Adding the
  second cluster where the first one is stored therefore gives back the first one, and what is
  meant for the second service goes to the first.
\<close>

theorem same_name_cluster_reused:
  assumes "plain_host h1" and "good_port port1" and "plain_host h2" and "good_port port2"
    and "sanitize (h1 @ port_text port1) = sanitize (h2 @ port_text port2)"
    and "dget (ambassador_module i) ''load_balancer'' = Some PNone" and "dget (ambassador_module j) ''load_balancer'' = Some PNone"
    and "cluster_init endpoints ns l1 (h1 @ port_text port1) [] i = Inr (c1, i')"
    and "cluster_init endpoints ns l2 (h2 @ port_text port2) [] j = Inr (c2, j')"
    and "get_cluster j (ir_name c1) = Some c1"
  shows "add_cluster c2 j' = (c1, j') \<and>
    rget c1 ''urls'' = PList [PStr (''tcp://'' @ h1 @ '':'' @ str_nat (default_port port1))] \<and>
    rget c2 ''urls'' = PList [PStr (''tcp://'' @ h2 @ '':'' @ str_nat (default_port port2))]"
proof -
  note p1 = plain_init [OF assms(8,1,2,6)]
  note p2 = plain_init [OF assms(9,3,4,7)]
  have "ir_name c2 = ir_name c1" unfolding p1(1) p2(1) sanitize_append [of "''cluster_''"] sanitize_append [of _ "''_'' @ ns"] assms(5) ..
  moreover have "get_cluster j' (ir_name c1) = Some c1"
    using assms(10) cluster_init_clusters [OF assms(9)] by (simp add: get_cluster_def)
  ultimately show ?thesis using p1(2) p2(2) by (simp add: add_cluster_def)
qed

theorem same_name_cluster_reused_witness:
  "\<exists>c1 c2 i j. cluster_init False ''ns'' ''l'' ''foo:80'' [] demo_cluster_ir = Inr (c1, i) \<and>
     cluster_init False ''ns'' ''m'' ''foo.80'' [] (snd (add_cluster c1 i)) = Inr (c2, j) \<and>
     fst (add_cluster c2 j) = c1 \<and> rget c2 ''urls'' \<noteq> rget c1 ''urls''"
proof -
  let ?a = "cluster_init False ''ns'' ''l'' ''foo:80'' [] demo_cluster_ir"
  define second where "second i1 = cluster_init False ''ns'' ''m'' ''foo.80'' [] i1" for i1
  define ready where "ready c1 i1 \<longleftrightarrow> get_cluster i1 (ir_name c1) = Some c1 \<and>
     dget (ambassador_module i1) ''load_balancer'' = Some PNone \<and> map_sum (\<lambda>_. ()) (\<lambda>_. True) (second i1) = Inr True"
    for c1 :: irres and i1 :: ir
  have "map_sum (\<lambda>_. ()) (\<lambda>(c1, i). ready c1 (snd (add_cluster c1 i))) ?a = Inr True"
    unfolding ready_def second_def by code_simp
  then obtain c1 i where a: "?a = Inr (c1, i)" and b: "ready c1 (snd (add_cluster c1 i))"
    by (cases ?a) (simp_all split: prod.splits)
  define i1 where "i1 = snd (add_cluster c1 i)"
  have g: "get_cluster i1 (ir_name c1) = Some c1" "dget (ambassador_module i1) ''load_balancer'' = Some PNone"
    and m: "map_sum (\<lambda>_. ()) (\<lambda>_. True) (second i1) = Inr True"
    using b unfolding ready_def i1_def by blast+
  from m obtain c2 j where c2: "cluster_init False ''ns'' ''m'' ''foo.80'' [] i1 = Inr (c2, j)"
    unfolding second_def by (cases "cluster_init False ''ns'' ''m'' ''foo.80'' [] i1") (simp_all, metis surj_pair)
  have g1: "good_port (Some 80)" and g2: "good_port None" by (simp_all add: good_port_def)
  have h: "plain_host ''foo''" "plain_host ''foo.80''"
    "sanitize (''foo'' @ port_text (Some 80)) = sanitize (''foo.80'' @ port_text None)"
    "dget (ambassador_module demo_cluster_ir) ''load_balancer'' = Some PNone" by code_simp+
  have t: "''foo'' @ port_text (Some 80) = ''foo:80''" "''foo.80'' @ port_text None = ''foo.80''" by code_simp+
  have a': "cluster_init False ''ns'' ''l'' (''foo'' @ port_text (Some 80)) [] demo_cluster_ir = Inr (c1, i)" by (simp only: t(1) a)
  have c2': "cluster_init False ''ns'' ''m'' (''foo.80'' @ port_text None) [] i1 = Inr (c2, j)" by (simp only: t(2) c2)
  have r: "add_cluster c2 j = (c1, j) \<and> rget c1 ''urls'' = PList [PStr (''tcp://'' @ ''foo'' @ '':'' @ str_nat (default_port (Some 80)))] \<and>
      rget c2 ''urls'' = PList [PStr (''tcp://'' @ ''foo.80'' @ '':'' @ str_nat (default_port None))]"
    by (rule same_name_cluster_reused [OF h(1) g1 h(2) g2 h(3,4) g(2) a' c2' g(1)])
  then have "rget c2 ''urls'' \<noteq> rget c1 ''urls''" by simp
  with r show ?thesis using a c2 unfolding i1_def by (intro exI [of _ c1] exI [of _ c2] exI [of _ i] exI [of _ j]) simp
qed

end
