(* ===== verification/Spec2Isabelle.thy ===== *)
theory Spec2Isabelle
  imports Cache Reconfig DepGraph Globs ConfigStore Fetcher Listener MapInv Tls Cluster
begin

text \<open>
  A verification library for the Python control plane of Emissary-ingress. Paths are relative to
  \<open>src/python/ambassador/src/ambassador/\<close>.

  \<^bold>\<open>The program.\<close> A snapshot of Kubernetes and Consul objects is read by the fetcher (\<open>fetch/\<close>),
  whose processors turn it into Ambassador resources. The configuration store (\<open>config/\<close>) validates
  them and files them by kind. The intermediate representation (\<open>ir/\<close>) builds listeners, TLS contexts,
  resolvers, mappings, groups and clusters from the store, taking what has not changed from a cache
  (\<open>cache.py\<close>). A diagnostic daemon decides from the deltas of a snapshot whether the cache may be
  kept, and checks from time to time that the result is the one a complete run gives.

  \<^bold>\<open>Python in HOL.\<close> \<open>Prelude\<close>: a call that may raise has type \<open>py_error + 'a\<close> and is composed with
  \<open>rbind\<close> and \<open>rfold\<close>; a dictionary is an association list in insertion order; the locales
  \<open>dictionary\<close>, \<open>guarded_store\<close> and \<open>machine\<close> are the interfaces several components share. \<open>PyVal\<close> and
  \<open>PyText\<close>: the dynamic values of YAML and JSON, truth, equality, formatting and \<open>int\<close>. \<open>Urls\<close>: what is
  used of \<open>urllib.parse\<close> and \<open>ipaddress\<close>. Mutation is state passing; objects that are shared and
  changed in place (resources of the store, mappings, groups) are indices into a list of the state.

  \<^bold>\<open>Fetching.\<close>
  \<^item> \<open>Utils\<close>: \<open>parse_bool\<close>, \<open>RichStatus\<close> and \<open>Timer\<close> of \<open>utils.py\<close>.
  \<^item> \<open>DepGraph\<close>: \<open>fetch/dependency.py\<close>. The traversal returns exactly for acyclic graphs, in a
    topological order.
  \<^item> \<open>KObject\<close>, \<open>Location\<close>, \<open>Emit\<close>: \<open>fetch/k8sobject.py\<close>, \<open>fetch/location.py\<close>, \<open>fetch/resource.py\<close>.
    Locations are balanced, and emitted keys are distinct within a location.
  \<^item> \<open>Processors\<close>, \<open>IngressProc\<close>: \<open>fetch/k8sprocessor.py\<close>, \<open>fetch/ambassador.py\<close>, \<open>fetch/secret.py\<close>,
    \<open>fetch/service.py\<close>, \<open>fetch/ingress.py\<close>, \<open>fetch/knative.py\<close>. The endpoints of a Service, the choice of
    a target port, and that the Hosts of an Ingress select its Mappings. The locale \<open>delegate\<close> is what
    deduplication asks of the processor below it.
  \<^item> \<open>Fetcher\<close>: \<open>fetch/fetcher.py\<close>. The composite processor handles the first object of every key.

  \<^bold>\<open>Configuration store.\<close> \<open>ConfigStore\<close>: \<open>config/config.py\<close> and \<open>config/acresource.py\<close>. Loading
  keeps an invariant, and it returns when no resource is a Module and their API versions and errors
  are strings; invalid resources are reported; distinct resources are kept.

  \<^bold>\<open>Cache and reconfiguration.\<close>
  \<^item> \<open>Cache\<close>: \<open>cache.py\<close>. Invalidation, of one key or of several, removes exactly what the
    keys own; the locale \<open>object_cache\<close> is
    interpreted for the cache and for the null cache.
  \<^item> \<open>Reconfig\<close>: \<open>reconfig_stats.py\<close>, a state machine with an invariant.
  \<^item> \<open>MapFactory\<close>: \<open>ir/irmappingfactory.py\<close>, \<open>check_deltas\<close>, \<open>add_mapping\<close> and the cache access of \<open>ir/ir.py\<close>.
  \<^item> \<open>MapInv\<close>: the invariant of mappings, groups and cache over rounds of reconfiguration, and that
    no mapping in use is older than the last delta that names it.

  \<^bold>\<open>Intermediate representation.\<close>
  \<^item> \<open>IRRes\<close>: \<open>ir/irresource.py\<close> and the state of the IR, the record \<open>ir\<close>.
  \<^item> \<open>Globs\<close>: \<open>ir/irutils.py\<close>. Two globs match exactly if some host name matches both.
  \<^item> \<open>Listener\<close>: \<open>ir/irlistener.py\<close>; saving refines "the first usable one wins" (\<open>guarded_store\<close>).
  \<^item> \<open>Service\<close>, \<open>Mappings\<close>, \<open>HttpMapping\<close>, \<open>MapGroup\<close>: \<open>ir/irbasemapping.py\<close>, \<open>ir/irtcpmapping.py\<close>,
    \<open>ir/irhttpmapping.py\<close>, \<open>ir/irbasemappinggroup.py\<close> and the HTTP and TCP groups; the normalization of
    services and of weights.
  \<^item> \<open>Resolver\<close>: \<open>ir/irserviceresolver.py\<close>. The standard resolvers exist after loading.
  \<^item> \<open>Secrets\<close>: secrets of \<open>utils.py\<close> and \<open>ir/ir.py\<close>; \<open>Tls\<close>: \<open>ir/irtlscontext.py\<close> and the translation of
    the TLS module in \<open>ir/irtls.py\<close>. The parts of a secret are decoded, and a context that resolves
    has its files.
  \<^item> \<open>HealthChecks\<close>: \<open>ir/irhealthchecks.py\<close>; \<open>Cluster\<close>: \<open>ir/ircluster.py\<close>, the clusters of \<open>ir/ir.py\<close> and
    their Envoy names, which are short and distinct for up to a hundred clusters: with more, the
    number at the end of a name may have a third digit.

  \<^bold>\<open>Parameters.\<close> The SHA-1 digest, the environment, the YAML dumper and the file checker are arguments
  of the definitions that use them. No definition uses fuel: every recursion terminates, and
  the proofs are in the theories.

  \<^bold>\<open>Types.\<close> The kind, the name and the namespace of a resource are strings, as Kubernetes guarantees,
  and so are the names of endpoint ports and the paths of files; the numbers of endpoint ports are
  integers. Where the input has something else there, the model raises a TypeError. The attributes
  of a resource, its API version and its errors are dynamic values, on which an operation that
  Python does not have for them raises. The texts of some posted errors are shortened.

  \<^bold>\<open>Not modelled.\<close> Log output and the records of which resource refers to which, as nothing
  modelled reads them. The translation of the IR to Envoy (\<open>envoy/\<close>), whose meaning lies in Envoy.
  Hosts, the Ambassador module and the filters (\<open>irhost.py\<close>, \<open>irambassador.py\<close>, \<open>irauth.py\<close> and the
  like), which enter as stored values only. The finalization of groups, which creates clusters and
  caches them: the cache of the model holds mappings and groups. Of \<open>diagd.py\<close> only the step that
  builds the IR; its threads, files and web server are input and output. Diagnostics, test harness
  and release tools.
\<close>

end
